(* ===== verification/Prelude.thy ===== *)
theory Prelude
  imports Main "HOL-Library.AList" "HOL-Library.Multiset" "HOL-Library.Monad_Syntax"
    "HOL-Library.Word"
begin

text \<open>
  Shared vocabulary of the development: the types that stand for the identifiers, instants and
  byte strings of the Rust sources, the collections the component proofs draw on, hash maps as
  association lists in iteration order, and the list lemmas several components need.

  A Rust \<^verbatim>\<open>HashMap\<close> is an association list with distinct keys. The order of the list is the
  order in which an iteration visits the entries; Rust leaves it open, so every theorem that
  starts from a map holds for each order the list can have.
\<close>

section \<open>Types\<close>

type_synonym uuid = nat
type_synonym address = nat
type_synonym time = int
type_synonym byte = "8 word"
type_synonym bytes = "byte list"
type_synonym ('k, 'v) hash_map = "('k \<times> 'v) list"

section \<open>Fact collections\<close>

named_theorems hm_simps \<open>lookups in updated and shrunk hash maps\<close>
named_theorems book_simps \<open>order-book operations seen through the lookup of an order\<close>
named_theorems inv_intros \<open>preservation of component invariants\<close>

section \<open>Hash maps\<close>

abbreviation hm_get :: "('k, 'v) hash_map \<Rightarrow> 'k \<Rightarrow> 'v option" where
  "hm_get m k \<equiv> map_of m k"

abbreviation hm_insert :: "'k \<Rightarrow> 'v \<Rightarrow> ('k, 'v) hash_map \<Rightarrow> ('k, 'v) hash_map" where
  "hm_insert k v m \<equiv> AList.update k v m"

abbreviation hm_remove :: "'k \<Rightarrow> ('k, 'v) hash_map \<Rightarrow> ('k, 'v) hash_map" where
  "hm_remove k m \<equiv> AList.delete k m"

abbreviation hm_keys :: "('k, 'v) hash_map \<Rightarrow> 'k list" where
  "hm_keys m \<equiv> map fst m"

abbreviation hm_values :: "('k, 'v) hash_map \<Rightarrow> 'v list" where
  "hm_values m \<equiv> map snd m"

abbreviation hm_contains :: "('k, 'v) hash_map \<Rightarrow> 'k \<Rightarrow> bool" where
  "hm_contains m k \<equiv> map_of m k \<noteq> None"

abbreviation hm_ok :: "('k, 'v) hash_map \<Rightarrow> bool" where
  "hm_ok m \<equiv> distinct (map fst m)"

lemma hm_get_insert [hm_simps]: "hm_get (hm_insert k v m) k' = (if k' = k then Some v else hm_get m k')"
  by (simp add: update_conv')

lemma hm_get_remove [hm_simps]: "hm_get (hm_remove k m) k' = (if k' = k then None else hm_get m k')"
  by (simp add: delete_conv')

lemma hm_ok_insert [intro]: "hm_ok m \<Longrightarrow> hm_ok (hm_insert k v m)"
  by (rule distinct_update)

lemma hm_ok_remove [intro]: "hm_ok m \<Longrightarrow> hm_ok (hm_remove k m)"
  by (rule distinct_delete)

lemma hm_insert_fresh: "k \<notin> set (hm_keys m) \<Longrightarrow> hm_insert k v m = m @ [(k, v)]"
  by (induction m) auto

lemma hm_get_mem: "hm_ok m \<Longrightarrow> hm_get m k = Some v \<longleftrightarrow> (k, v) \<in> set m"
  by simp

lemma hm_values_mem: "hm_ok m \<Longrightarrow> v \<in> set (hm_values m) \<longleftrightarrow> (\<exists>k. hm_get m k = Some v)"
  by force

lemma hm_remove_absent: "hm_get m k = None \<Longrightarrow> hm_remove k m = m"
  by (simp add: delete_idem map_of_eq_None_iff)

text \<open>The keys of a map as a set, kept folded in the proofs.\<close>

definition hm_dom :: "('k, 'v) hash_map \<Rightarrow> 'k set" where
  "hm_dom m = set (hm_keys m)"

lemma hm_dom_append [simp]: "hm_dom (m @ m') = hm_dom m \<union> hm_dom m'" "hm_dom [] = {}"
  by (simp_all add: hm_dom_def image_Un)

lemma hm_dom_get: "hm_get m k = None \<longleftrightarrow> k \<notin> hm_dom m" "hm_contains m k \<longleftrightarrow> k \<in> hm_dom m"
  by (simp_all add: hm_dom_def map_of_eq_None_iff del: not_None_eq)

lemma hm_dom_remove [simp]: "hm_dom (hm_remove k m) = hm_dom m - {k}"
  by (auto simp: hm_dom_def AList.delete_eq)

lemma hm_dom_insert [simp]: "hm_dom (hm_insert k v m) = insert k (hm_dom m)"
  by (simp add: hm_dom_def dom_update)

lemma hm_ok_append: "hm_ok (m @ m') \<longleftrightarrow> hm_ok m \<and> hm_ok m' \<and> hm_dom m \<inter> hm_dom m' = {}"
  by (auto simp: hm_dom_def)

lemma hm_remove_append: "hm_remove k (m @ m') = hm_remove k m @ hm_remove k m'"
  by (simp add: AList.delete_eq)

lemma hm_remove_other: "k \<notin> hm_dom m \<Longrightarrow> hm_remove k m = m"
  by (simp add: hm_dom_def delete_idem)

lemma hm_insert_append:
  "hm_insert k v (m @ m') = (if k \<in> hm_dom m then hm_insert k v m @ m' else m @ hm_insert k v m')"
  by (induction m) (auto simp: hm_dom_def)

lemma hm_get_dom: "k \<in> hm_dom m \<Longrightarrow> \<exists>v. hm_get m k = Some v"
  using hm_dom_get(1) [of m k] by auto

lemma list_all_hm_remove: "list_all P m \<Longrightarrow> list_all P (hm_remove k m)"
  by (auto simp: list_all_iff AList.delete_eq)

lemma list_all_hm_insert: "list_all P m \<Longrightarrow> P (k, v) \<Longrightarrow> list_all P (hm_insert k v m)"
  by (induction m) auto

lemma list_all_hm_get: "list_all P m \<Longrightarrow> hm_get m k = Some v \<Longrightarrow> P (k, v)"
  by (auto simp: list_all_iff dest: map_of_SomeD)

section \<open>Results\<close>

text \<open>The \<^verbatim>\<open>?\<close> operator, \<^verbatim>\<open>map_err\<close>, and \<^verbatim>\<open>collect\<close> into a \<^verbatim>\<open>Result\<close>.\<close>

definition bindE :: "'e + 'a \<Rightarrow> ('a \<Rightarrow> 'e + 'b) \<Rightarrow> 'e + 'b" where
  "bindE m f = (case m of Inl e \<Rightarrow> Inl e | Inr x \<Rightarrow> f x)"

definition mapErr :: "('e \<Rightarrow> 'd) \<Rightarrow> 'e + 'a \<Rightarrow> 'd + 'a" where
  "mapErr g m = (case m of Inl e \<Rightarrow> Inl (g e) | Inr x \<Rightarrow> Inr x)"

definition ok_or :: "'e \<Rightarrow> 'a option \<Rightarrow> 'e + 'a" where
  "ok_or e m = (case m of None \<Rightarrow> Inl e | Some x \<Rightarrow> Inr x)"

fun collectE :: "('a \<Rightarrow> 'e + 'b) \<Rightarrow> 'a list \<Rightarrow> 'e + 'b list" where
  "collectE f [] = Inr []"
| "collectE f (x # xs) = bindE (f x) (\<lambda>y. bindE (collectE f xs) (\<lambda>ys. Inr (y # ys)))"

lemma bindE_simps [simp]: "bindE (Inl e) f = Inl e" "bindE (Inr x) f = f x"
  by (simp_all add: bindE_def)

lemma bindE_Inr: "bindE m f = Inr y \<longleftrightarrow> (\<exists>x. m = Inr x \<and> f x = Inr y)"
  by (cases m) simp_all

lemma mapErr_Inr [simp]: "mapErr g m = Inr x \<longleftrightarrow> m = Inr x"
  by (cases m) (simp_all add: mapErr_def)

lemma mapErr_simps [simp]: "mapErr g (Inl e) = Inl (g e)" "mapErr g (Inr x) = Inr x"
  by (simp_all add: mapErr_def)

lemma ok_or_Inr [simp]: "ok_or e m = Inr x \<longleftrightarrow> m = Some x"
  by (cases m) (simp_all add: ok_or_def)

lemma ok_or_simps [simp]: "ok_or e None = Inl e" "ok_or e (Some x) = Inr x"
  by (simp_all add: ok_or_def)

lemma collectE_Inr: "collectE f xs = Inr ys \<longleftrightarrow> list_all2 (\<lambda>x y. f x = Inr y) xs ys"
proof (induction xs arbitrary: ys)
  case (Cons x xs)
  then show ?case by (cases ys) (auto simp: bindE_Inr)
qed auto

lemma collectE_Inr_iff: "(\<exists>ys. collectE f xs = Inr ys) \<longleftrightarrow> (\<forall>x \<in> set xs. \<exists>y. f x = Inr y)"
  by (induction xs) (auto simp: bindE_Inr)

section \<open>Lists\<close>

lemma sum_list_nonneg_rat:
  "(\<And>x. x \<in> set xs \<Longrightarrow> 0 \<le> x) \<Longrightarrow> 0 \<le> sum_list (xs :: 'a :: ordered_comm_monoid_add list)"
  by (induction xs) (auto intro: add_nonneg_nonneg)

lemma sum_list_map_filter_le:
  fixes f :: "'a \<Rightarrow> 'b :: ordered_ab_group_add"
  assumes "\<And>x. x \<in> set xs \<Longrightarrow> P x \<Longrightarrow> Q x" and "\<And>x. x \<in> set xs \<Longrightarrow> 0 \<le> f x"
  shows "sum_list (map f (filter P xs)) \<le> sum_list (map f (filter Q xs))"
  using assms
proof (induction xs)
  case (Cons x xs)
  then have IH: "sum_list (map f (filter P xs)) \<le> sum_list (map f (filter Q xs))" by simp
  show ?case
  proof (cases "P x")
    case True
    with Cons.prems IH show ?thesis by simp
  next
    case False
    with IH Cons.prems(2) [of x] show ?thesis by (auto intro: add_increasing)
  qed
qed simp

lemma sum_list_map_filter_cong:
  assumes "\<And>x. x \<in> set xs \<Longrightarrow> P x = Q x"
  shows "sum_list (map f (filter P xs)) = sum_list (map f (filter Q xs))"
  using assms by (metis filter_cong)

lemma sum_list_mset_eq:
  fixes f :: "'a \<Rightarrow> 'b :: comm_monoid_add"
  assumes "mset xs = mset ys"
  shows "sum_list (map f xs) = sum_list (map f ys)"
  using assms by (metis mset_map sum_mset_sum_list)

lemma filter_sum_list_mset_eq:
  fixes f :: "'a \<Rightarrow> 'b :: comm_monoid_add"
  assumes "mset xs = mset ys"
  shows "sum_list (map f (filter P xs)) = sum_list (map f (filter P ys))"
  using assms by (intro sum_list_mset_eq) simp

lemma sorted_wrt_filterI: "sorted_wrt R xs \<Longrightarrow> sorted_wrt R (filter P xs)"
  by (rule sorted_wrt_filter)

end
