(* ===== verification/Decimals.thy ===== *)
theory Decimals
  imports Prelude Complex_Main
begin

text \<open>
  Decimal numbers. The sources compute with \<^verbatim>\<open>rust_decimal::Decimal\<close>, a third-party type whose
  values are \<open>m / 10 ^ e\<close> with a 96-bit mantissa \<open>m\<close> and \<open>e \<le> 28\<close>; comparison and equality are
  by value. A \<^verbatim>\<open>Decimal\<close> is therefore its value, a rational number, and the arithmetic of the
  crate is a parameter of every definition that uses it: a record of operations in which
  \<open>None\<close> is the overflow panic (for \<^verbatim>\<open>checked_mul\<close>, its \<^verbatim>\<open>None\<close> result).

  \<open>dec_exact\<close> is the documented behaviour the code relies on: an operation whose exact result
  is a \<^verbatim>\<open>Decimal\<close> returns it, and \<^verbatim>\<open>round_dp\<close> returns a nearest multiple of \<open>10 ^ - dp\<close>.
  \<open>dec_ref\<close> is a concrete record with these laws. \<open>encodable\<close> is the range the scalar encoder
  accepts, and the lemmas at the end give the head room between it and the 96-bit mantissa.
\<close>

section \<open>Values and operations\<close>

type_synonym decimal = rat

definition representable_at :: "nat \<Rightarrow> decimal \<Rightarrow> bool" where
  "representable_at e x \<longleftrightarrow> of_int \<lfloor>x * 10 ^ e\<rfloor> = x * 10 ^ e \<and> \<bar>\<lfloor>x * 10 ^ e\<rfloor>\<bar> < 2 ^ 96"

definition representable :: "decimal \<Rightarrow> bool" where
  "representable x \<longleftrightarrow> list_ex (\<lambda>e. representable_at e x) [0..<29]"

record dec_ops =
  d_add :: "decimal \<Rightarrow> decimal \<Rightarrow> decimal option"
  d_sub :: "decimal \<Rightarrow> decimal \<Rightarrow> decimal option"
  d_mul :: "decimal \<Rightarrow> decimal \<Rightarrow> decimal option"
  d_div :: "decimal \<Rightarrow> decimal \<Rightarrow> decimal option"
  d_rem :: "decimal \<Rightarrow> decimal \<Rightarrow> decimal option"
  d_round :: "nat \<Rightarrow> decimal \<Rightarrow> decimal"

definition is_multiple :: "nat \<Rightarrow> decimal \<Rightarrow> bool" where
  "is_multiple dp x \<longleftrightarrow> of_int \<lfloor>x * 10 ^ dp\<rfloor> = x * 10 ^ dp"

definition rem_trunc :: "decimal \<Rightarrow> decimal \<Rightarrow> decimal" where
  "rem_trunc a b = (let q = a / b in a - b * (if 0 \<le> q then of_int \<lfloor>q\<rfloor> else of_int \<lceil>q\<rceil>))"

definition dec_exact :: "dec_ops \<Rightarrow> bool" where
  "dec_exact D \<longleftrightarrow>
     (\<forall>a b. representable (a + b) \<longrightarrow> d_add D a b = Some (a + b)) \<and>
     (\<forall>a b. representable (a - b) \<longrightarrow> d_sub D a b = Some (a - b)) \<and>
     (\<forall>a b. representable (a * b) \<longrightarrow> d_mul D a b = Some (a * b)) \<and>
     (\<forall>a b. b \<noteq> 0 \<longrightarrow> representable (a / b) \<longrightarrow> d_div D a b = Some (a / b)) \<and>
     (\<forall>a b. b \<noteq> 0 \<longrightarrow> representable (rem_trunc a b) \<longrightarrow> d_rem D a b = Some (rem_trunc a b)) \<and>
     (\<forall>dp a. is_multiple dp (d_round D dp a) \<and> \<bar>d_round D dp a - a\<bar> * 10 ^ dp \<le> 1 / 2)"

text \<open>\<^verbatim>\<open>Sum for Decimal\<close>: starts at zero and adds from the left.\<close>

fun dsum_from :: "dec_ops \<Rightarrow> decimal \<Rightarrow> decimal list \<Rightarrow> decimal option" where
  "dsum_from D acc [] = Some acc"
| "dsum_from D acc (x # xs) = (case d_add D acc x of None \<Rightarrow> None | Some a \<Rightarrow> dsum_from D a xs)"

definition dsum :: "dec_ops \<Rightarrow> decimal list \<Rightarrow> decimal option" where
  "dsum D xs = dsum_from D 0 xs"

section \<open>A reference instance\<close>

definition fit_ref :: "decimal \<Rightarrow> decimal option" where
  "fit_ref x = (if representable x then Some x else None)"

text \<open>Round half to even, the strategy \<^verbatim>\<open>round_dp\<close> documents.\<close>

definition round_half_even :: "nat \<Rightarrow> decimal \<Rightarrow> decimal" where
  "round_half_even dp x =
     (let y = x * 10 ^ dp; n = \<lfloor>y\<rfloor>; f = y - of_int n;
          k = (if f < 1 / 2 then n else if 1 / 2 < f then n + 1 else if even n then n else n + 1)
      in of_int k / 10 ^ dp)"

definition dec_ref :: dec_ops where
  "dec_ref = \<lparr>
     d_add = (\<lambda>a b. fit_ref (a + b)),
     d_sub = (\<lambda>a b. fit_ref (a - b)),
     d_mul = (\<lambda>a b. fit_ref (a * b)),
     d_div = (\<lambda>a b. if b = 0 then None else fit_ref (a / b)),
     d_rem = (\<lambda>a b. if b = 0 then None else fit_ref (rem_trunc a b)),
     d_round = round_half_even\<rparr>"

lemma is_multiple_of_int: "is_multiple dp (of_int k / 10 ^ dp)"
  by (simp add: is_multiple_def)

lemma round_half_even_nearest:
  "is_multiple dp (round_half_even dp x) \<and> \<bar>round_half_even dp x - x\<bar> * 10 ^ dp \<le> 1 / 2"
proof -
  let ?y = "x * 10 ^ dp" let ?n = "\<lfloor>?y\<rfloor>" let ?f = "?y - of_int ?n"
  obtain k where k: "k = (if ?f < 1 / 2 then ?n else if 1 / 2 < ?f then ?n + 1
      else if even ?n then ?n else ?n + 1)" by blast
  have r: "round_half_even dp x = of_int k / 10 ^ dp"
    by (simp add: round_half_even_def Let_def k)
  have "0 \<le> ?f" "?f < 1" by linarith+
  then have near: "\<bar>of_int k - ?y\<bar> \<le> 1 / 2"
    unfolding k abs_le_iff by (simp only: of_int_add of_int_1 split: if_split) linarith
  have "\<bar>of_int k / 10 ^ dp - x\<bar> * 10 ^ dp = \<bar>(of_int k / 10 ^ dp - x) * 10 ^ dp\<bar>"
    by (simp add: abs_mult)
  also have "\<dots> = \<bar>of_int k - ?y\<bar>" by (simp add: left_diff_distrib)
  finally show ?thesis using near by (simp add: r is_multiple_of_int)
qed

lemma dec_exact_ref: "dec_exact dec_ref"
  using round_half_even_nearest by (simp add: dec_exact_def dec_ref_def fit_ref_def)

section \<open>Head room\<close>

lemma representableI: "e < 29 \<Longrightarrow> x * 10 ^ e = of_int m \<Longrightarrow> \<bar>m\<bar> < 2 ^ 96 \<Longrightarrow> representable x"
  by (auto simp: representable_def representable_at_def list_ex_iff intro!: bexI [of _ e])

lemma is_multiple_iff: "is_multiple dp x \<longleftrightarrow> (\<exists>k. x * 10 ^ dp = of_int k)"
  by (metis is_multiple_def floor_of_int)

lemma is_multiple_add: "is_multiple dp x \<Longrightarrow> is_multiple dp y \<Longrightarrow> is_multiple dp (x + y)"
  by (auto simp: is_multiple_iff distrib_right) (metis of_int_add)

lemma is_multiple_diff: "is_multiple dp x \<Longrightarrow> is_multiple dp y \<Longrightarrow> is_multiple dp (x - y)"
  by (auto simp: is_multiple_iff left_diff_distrib) (metis of_int_diff)

lemma is_multiple_zero [simp]: "is_multiple dp 0"
  by (simp add: is_multiple_def)

lemma is_multiple_min: "is_multiple dp x \<Longrightarrow> is_multiple dp y \<Longrightarrow> is_multiple dp (min x y)"
  by (simp add: min_def)

lemma is_multiple_sum_list: "(\<And>x. x \<in> set xs \<Longrightarrow> is_multiple dp x) \<Longrightarrow> is_multiple dp (sum_list xs)"
  by (induction xs) (auto intro: is_multiple_add)

text \<open>Eight decimal places and a magnitude below \<open>2 ^ 95 / 10 ^ 8\<close>: every such value is exact.\<close>

definition fits8 :: "decimal \<Rightarrow> bool" where
  "fits8 x \<longleftrightarrow> is_multiple 8 x \<and> \<bar>x\<bar> * 10 ^ 8 < 2 ^ 95"

lemma fits8_representable: "fits8 x \<Longrightarrow> representable x"
proof -
  assume "fits8 x"
  then obtain k where k: "x * 10 ^ 8 = of_int k" and b: "\<bar>x\<bar> * 10 ^ 8 < 2 ^ 95"
    by (auto simp: fits8_def is_multiple_iff)
  have "\<bar>x\<bar> * 10 ^ 8 = \<bar>x * 10 ^ 8\<bar>" by (simp add: abs_mult)
  with k b have "of_int \<bar>k\<bar> < (2 ^ 95 :: rat)" by simp
  then have "of_int \<bar>k\<bar> < (of_int (2 ^ 95) :: rat)" by simp
  then have "\<bar>k\<bar> < 2 ^ 95" by (simp only: of_int_less_iff)
  with k show ?thesis by (intro representableI [of 8 x k]) auto
qed

text \<open>The range of the scalar encoder: at most eight decimal places, below \<open>2 ^ 60\<close> once scaled.\<close>

definition encodable :: "decimal \<Rightarrow> bool" where
  "encodable x \<longleftrightarrow> 0 \<le> x \<and> is_multiple 8 x \<and> x * 10 ^ 8 < 2 ^ 60"

lemma encodable_fits8: "encodable x \<Longrightarrow> fits8 x"
  by (auto simp: encodable_def fits8_def)

lemma encodable_nonneg: "encodable x \<Longrightarrow> 0 \<le> x"
  by (simp add: encodable_def)

lemma encodable_mult8: "encodable x \<Longrightarrow> is_multiple 8 x"
  by (simp add: encodable_def)

lemma encodable_between: "encodable y \<Longrightarrow> 0 \<le> x \<Longrightarrow> x \<le> y \<Longrightarrow> is_multiple 8 x \<Longrightarrow> encodable x"
  by (auto simp: encodable_def)

lemma encodable_diff: "encodable x \<Longrightarrow> encodable y \<Longrightarrow> y \<le> x \<Longrightarrow> encodable (x - y)"
  by (rule encodable_between [of x]) (auto simp: encodable_def intro: is_multiple_diff)

lemma encodable_min: "encodable x \<Longrightarrow> encodable y \<Longrightarrow> encodable (min x y)"
  by (simp add: min_def)

lemma encodable_sum_bound:
  "(\<And>x. x \<in> set xs \<Longrightarrow> encodable x) \<Longrightarrow> sum_list xs * 10 ^ 8 \<le> of_nat (length xs) * 2 ^ 60"
proof (induction xs)
  case (Cons x xs)
  then have "x * 10 ^ 8 < 2 ^ 60" and "sum_list xs * 10 ^ 8 \<le> of_nat (length xs) * 2 ^ 60"
    by (auto simp: encodable_def)
  then show ?case by (simp add: algebra_simps)
qed simp

lemma encodable_sum_fits8:
  assumes "\<And>x. x \<in> set xs \<Longrightarrow> encodable x" and "length xs \<le> 2 ^ 34"
  shows "fits8 (sum_list xs)"
proof -
  have nonneg: "0 \<le> sum_list xs"
    using assms(1) by (intro sum_list_nonneg_rat) (auto simp: encodable_def)
  have "sum_list xs * 10 ^ 8 \<le> of_nat (length xs) * 2 ^ 60"
    using assms(1) by (rule encodable_sum_bound)
  also have "\<dots> \<le> of_nat (2 ^ 34) * 2 ^ 60"
    using assms(2) by (intro mult_right_mono) (auto simp del: of_nat_power of_nat_numeral simp: of_nat_le_iff)
  also have "\<dots> < 2 ^ 95" by simp
  finally have "\<bar>sum_list xs\<bar> * 10 ^ 8 < 2 ^ 95" using nonneg by simp
  moreover have "is_multiple 8 (sum_list xs)"
    using assms(1) by (intro is_multiple_sum_list) (auto simp: encodable_def)
  ultimately show ?thesis by (simp add: fits8_def)
qed

section \<open>Exact results\<close>

lemma d_add_exact: "dec_exact D \<Longrightarrow> fits8 (a + b) \<Longrightarrow> d_add D a b = Some (a + b)"
  by (simp add: dec_exact_def fits8_representable)

lemma d_sub_exact: "dec_exact D \<Longrightarrow> fits8 (a - b) \<Longrightarrow> d_sub D a b = Some (a - b)"
  by (simp add: dec_exact_def fits8_representable)

lemma dsum_from_exact:
  assumes "dec_exact D" and "\<And>x. x \<in> set (ys @ xs) \<Longrightarrow> encodable x"
    and "length (ys @ xs) \<le> 2 ^ 34"
  shows "dsum_from D (sum_list ys) xs = Some (sum_list ys + sum_list xs)"
  using assms(2,3)
proof (induction xs arbitrary: ys)
  case (Cons x xs)
  have "fits8 (sum_list (ys @ [x]))"
    using Cons.prems by (intro encodable_sum_fits8) auto
  then have "d_add D (sum_list ys) x = Some (sum_list (ys @ [x]))"
    using d_add_exact [OF assms(1)] by simp
  moreover have "dsum_from D (sum_list (ys @ [x])) xs = Some (sum_list (ys @ [x]) + sum_list xs)"
    using Cons.prems by (intro Cons.IH) auto
  ultimately show ?case by (simp add: add.assoc)
qed simp

lemma dsum_exact:
  assumes "dec_exact D" and "\<And>x. x \<in> set xs \<Longrightarrow> encodable x" and "length xs \<le> 2 ^ 34"
  shows "dsum D xs = Some (sum_list xs)"
  using dsum_from_exact [of D "[]" xs] assms by (simp add: dsum_def)

text \<open>
  The midpoint of two encodable prices is exact, and rounding it to eight places keeps it between
  them: both ends are multiples of \<open>10 ^ - 8\<close> themselves.
\<close>

lemma d_mid_exact:
  assumes "dec_exact D" and "encodable lo" and "encodable hi"
  shows "d_add D lo hi = Some (lo + hi)" and "d_div D (lo + hi) 2 = Some ((lo + hi) / 2)"
proof -
  have "fits8 (lo + hi)"
    using assms(2,3) by (auto simp: encodable_def fits8_def distrib_right intro: is_multiple_add)
  then show "d_add D lo hi = Some (lo + hi)" by (rule d_add_exact [OF assms(1)])
  have "is_multiple 8 (lo + hi)"
    using assms(2,3) by (intro is_multiple_add) (auto simp: encodable_def)
  then obtain k where k: "(lo + hi) * 10 ^ 8 = of_int k" by (auto simp: is_multiple_iff)
  have "0 \<le> (lo + hi) * 10 ^ 8" and "(lo + hi) * 10 ^ 8 < 2 ^ 61"
    using assms(2,3) by (auto simp: encodable_def distrib_right)
  with k have "0 \<le> k" and "of_int k < (of_int (2 ^ 61) :: rat)" by auto
  then have "k < 2 ^ 61" by (simp only: of_int_less_iff)
  have "(lo + hi) / 2 * 10 ^ 9 = of_int (5 * k)" using k by (simp add: field_simps)
  then have "representable ((lo + hi) / 2)"
    using \<open>0 \<le> k\<close> \<open>k < 2 ^ 61\<close> by (intro representableI [of 9 _ "5 * k"]) auto
  then show "d_div D (lo + hi) 2 = Some ((lo + hi) / 2)"
    using assms(1) by (simp add: dec_exact_def)
qed

lemma nearest_multiple_between:
  assumes "is_multiple dp lo" and "is_multiple dp hi" and "is_multiple dp r"
    and "lo \<le> x" and "x \<le> hi" and "\<bar>r - x\<bar> * 10 ^ dp \<le> 1 / 2"
  shows "lo \<le> r" and "r \<le> hi"
proof -
  obtain l h k where l: "lo * 10 ^ dp = of_int l" and h: "hi * 10 ^ dp = of_int h"
    and k: "r * 10 ^ dp = of_int k"
    using assms(1,2,3) by (auto simp: is_multiple_iff)
  have "\<bar>(r - x) * 10 ^ dp\<bar> \<le> 1 / 2" using assms(6) by (simp add: abs_mult)
  then have near: "\<bar>of_int k - x * 10 ^ dp\<bar> \<le> 1 / 2" by (simp add: left_diff_distrib k)
  have "of_int l \<le> x * 10 ^ dp" "x * 10 ^ dp \<le> of_int h"
    using assms(4,5) mult_right_mono [of _ _ "10 ^ dp"] by (auto simp flip: l h)
  with near have "of_int l \<le> of_int k + (1 / 2 :: rat)" and "of_int k \<le> of_int h + (1 / 2 :: rat)"
    by (simp_all only: abs_le_iff) linarith+
  then have "l \<le> k" and "k \<le> h" by linarith+
  then have "lo * 10 ^ dp \<le> r * 10 ^ dp" and "r * 10 ^ dp \<le> hi * 10 ^ dp"
    by (simp_all add: l h k)
  then show "lo \<le> r" and "r \<le> hi" by simp_all
qed

lemma d_round_between:
  assumes "dec_exact D" and "encodable lo" and "encodable hi" and "lo \<le> x" and "x \<le> hi"
  shows "lo \<le> d_round D 8 x" and "d_round D 8 x \<le> hi" and "encodable (d_round D 8 x)"
proof -
  have r: "is_multiple 8 (d_round D 8 x)" "\<bar>d_round D 8 x - x\<bar> * 10 ^ 8 \<le> 1 / 2"
    using assms(1) unfolding dec_exact_def by blast+
  show lo: "lo \<le> d_round D 8 x" and hi: "d_round D 8 x \<le> hi"
    using nearest_multiple_between [OF _ _ r(1) assms(4,5) r(2)] assms(2,3)
    by (simp_all add: encodable_def)
  show "encodable (d_round D 8 x)"
    using encodable_between [OF assms(3) _ hi r(1)] lo assms(2) by (simp add: encodable_def)
qed

end
