(* ===== verification/Types.thy ===== *)
theory Types
  imports Decimals
begin

text \<open>
  The crate \<^verbatim>\<open>dp-types\<close>: sides, orders, fills, event types, the validation errors and the
  canonical form of a trading pair, plus the matching priority that \<^verbatim>\<open>dp-book\<close> and
  \<^verbatim>\<open>dp-auction\<close> sort by. Strings are lists of code points below 256, so the white space and case
  rules of \<^verbatim>\<open>Pair::parse\<close> are those of that range.
\<close>

section \<open>Sides, orders, fills\<close>

datatype side = Buy | Sell

fun side_u8 :: "side \<Rightarrow> nat" where
  "side_u8 Buy = 0"
| "side_u8 Sell = 1"

fun side_canonical_str :: "side \<Rightarrow> string" where
  "side_canonical_str Buy = ''0''"
| "side_canonical_str Sell = ''1''"

fun side_display :: "side \<Rightarrow> string" where
  "side_display Buy = ''BUY''"
| "side_display Sell = ''SELL''"

record order =
  order_id :: uuid
  trader :: address
  order_pair :: string
  order_side :: side
  price :: decimal
  order_size :: decimal
  remaining_size :: decimal
  commitment_key :: string
  encrypted_payload :: bytes
  submitted_at :: time
  expires_at :: time
  order_seq :: nat

record fill =
  fill_order_id :: uuid
  fill_size :: decimal

section \<open>Event types\<close>

datatype event_type =
    OrderPlacedT | OrderCancelledT | OrderExpiredT | AuctionExecutedT | OrderMatchedT
  | BatchSubmittedT | BatchConfirmedT | BatchSettledT
  | PairRegisteredT | PairSuspendedT | PairDelistedT | BatchFoldedT

fun event_type_u8 :: "event_type \<Rightarrow> nat" where
  "event_type_u8 OrderPlacedT = 1"
| "event_type_u8 OrderCancelledT = 2"
| "event_type_u8 OrderExpiredT = 3"
| "event_type_u8 AuctionExecutedT = 4"
| "event_type_u8 OrderMatchedT = 5"
| "event_type_u8 BatchSubmittedT = 6"
| "event_type_u8 BatchConfirmedT = 7"
| "event_type_u8 BatchSettledT = 8"
| "event_type_u8 PairRegisteredT = 9"
| "event_type_u8 PairSuspendedT = 10"
| "event_type_u8 PairDelistedT = 11"
| "event_type_u8 BatchFoldedT = 12"

section \<open>Validation errors\<close>

text \<open>The minimum and the tick of the two order-guard errors are kept as values, not as text.\<close>

datatype dark_pool_error =
    PairRequired
  | PriceMustBePositive
  | SizeMustBePositive
  | CommitmentKeyRequired
  | LimitMustBePositiveD
  | OrderNotFound
  | PairNotRegistered string
  | PairNotAccepting string
  | OrderSizeBelowMinimum string decimal
  | OrderPriceNotOnTick string decimal
  | InvalidPair string
  | PairAlreadyRegistered string
  | CannotSuspendDelistedPair string
  | TraderAddressMismatch address string
  | DuplicateOrder
  | SaltInvalid
  | OrderNonceInvalid
  | OrderExpiryInvalid
  | OrderExpiredErr
  | OrderExpiryTooFar nat
  | InvalidOrderProof
  | EncryptedPayloadTooLarge nat
  | TooManyRestingOrdersForTrader nat
  | OrderBookCapacityExceeded nat

section \<open>Trading pairs\<close>

definition code :: "char \<Rightarrow> nat" where
  "code c = of_char c"

definition is_whitespace :: "char \<Rightarrow> bool" where
  "is_whitespace c \<longleftrightarrow> (9 \<le> code c \<and> code c \<le> 13) \<or> code c = 32 \<or> code c = 133 \<or> code c = 160"

definition trim :: "string \<Rightarrow> string" where
  "trim s = rev (dropWhile is_whitespace (rev (dropWhile is_whitespace s)))"

definition is_ascii_upper :: "char \<Rightarrow> bool" where
  "is_ascii_upper c \<longleftrightarrow> 65 \<le> code c \<and> code c \<le> 90"

definition is_ascii_lower :: "char \<Rightarrow> bool" where
  "is_ascii_lower c \<longleftrightarrow> 97 \<le> code c \<and> code c \<le> 122"

definition is_ascii_digit :: "char \<Rightarrow> bool" where
  "is_ascii_digit c \<longleftrightarrow> 48 \<le> code c \<and> code c \<le> 57"

definition is_ascii_alphanumeric :: "char \<Rightarrow> bool" where
  "is_ascii_alphanumeric c \<longleftrightarrow> is_ascii_upper c \<or> is_ascii_lower c \<or> is_ascii_digit c"

definition to_ascii_upper :: "char \<Rightarrow> char" where
  "to_ascii_upper c = (if is_ascii_lower c then char_of (code c - 32) else c)"

definition is_separator :: "char \<Rightarrow> bool" where
  "is_separator c \<longleftrightarrow> c = CHR ''/'' \<or> c = CHR ''-'' \<or> c = CHR ''_''"

definition pair_char_ok :: "char \<Rightarrow> bool" where
  "pair_char_ok c \<longleftrightarrow> is_ascii_alphanumeric c \<or> c = CHR ''/'' \<or> c = CHR ''-'' \<or> c = CHR ''_''"

definition pair_parse :: "string \<Rightarrow> dark_pool_error + string" where
  "pair_parse input =
     (let trimmed = trim input in
      if trimmed = [] then Inl PairRequired
      else
        let upper = map to_ascii_upper trimmed in
        case find is_separator upper of
          None \<Rightarrow> Inl (InvalidPair input)
        | Some _ \<Rightarrow>
            let base = takeWhile (\<lambda>c. \<not> is_separator c) upper;
                quote = tl (dropWhile (\<lambda>c. \<not> is_separator c) upper) in
            if base = [] \<or> quote = [] then Inl (InvalidPair input)
            else if \<not> list_all pair_char_ok upper then Inl (InvalidPair input)
            else Inr upper)"

text \<open>The canonical form the type's documentation describes.\<close>

definition canonical_pair :: "string \<Rightarrow> bool" where
  "canonical_pair s \<longleftrightarrow>
     list_all (\<lambda>c. is_ascii_upper c \<or> is_ascii_digit c \<or> is_separator c) s \<and>
     (\<exists>base sep quote. s = base @ sep # quote \<and> is_separator sep \<and> base \<noteq> [] \<and> quote \<noteq> [] \<and>
        list_all (\<lambda>c. \<not> is_separator c) base)"

lemma code_char_of [simp]: "n < 256 \<Longrightarrow> code (char_of n) = n"
  by (simp add: code_def)

lemma code_less [simp]: "code c < 256"
  by (simp add: code_def)

lemma code_eq_iff: "code c = code d \<longleftrightarrow> c = d"
  by (simp add: code_def of_char_eq_iff)

lemma code_separators [simp]: "code (CHR ''/'') = 47" "code (CHR ''-'') = 45" "code (CHR ''_'') = 95"
  by (simp_all add: code_def)

lemma is_separator_char: "is_separator c \<longleftrightarrow> code c \<in> {45, 47, 95}"
  by (auto simp: is_separator_def simp flip: code_eq_iff)

lemmas char_classes = is_whitespace_def is_ascii_upper_def is_ascii_lower_def is_ascii_digit_def
  is_ascii_alphanumeric_def is_separator_char

lemma pair_char_ok_alt: "pair_char_ok c \<longleftrightarrow> is_ascii_alphanumeric c \<or> is_separator c"
  by (auto simp: pair_char_ok_def is_separator_def)

lemma code_to_upper: "code (to_ascii_upper c) = (if is_ascii_lower c then code c - 32 else code c)"
  by (simp add: to_ascii_upper_def code_char_of [OF less_imp_diff_less [OF code_less]])

lemma to_upper_not_lower: "\<not> is_ascii_lower (to_ascii_upper c)"
  by (auto simp: is_ascii_lower_def code_to_upper)

lemma to_upper_fix: "\<not> is_ascii_lower c \<Longrightarrow> to_ascii_upper c = c"
  by (simp add: to_ascii_upper_def)

lemma canonical_char_cases:
  "is_ascii_upper c \<or> is_ascii_digit c \<or> is_separator c \<Longrightarrow>
     \<not> is_whitespace c \<and> \<not> is_ascii_lower c \<and> pair_char_ok c"
  by (auto simp: char_classes pair_char_ok_alt)

lemma dropWhile_none: "list_all (\<lambda>c. \<not> P c) s \<Longrightarrow> dropWhile P s = s"
  by (cases s) auto

lemma trim_no_whitespace: "list_all (\<lambda>c. \<not> is_whitespace c) s \<Longrightarrow> trim s = s"
  by (simp add: trim_def dropWhile_none list_all_iff)

lemma canonical_upper:
  assumes "list_all (\<lambda>c. is_ascii_upper c \<or> is_ascii_digit c \<or> is_separator c) s"
  shows "trim s = s" and "map to_ascii_upper s = s" and "list_all pair_char_ok s"
  using assms canonical_char_cases
  by (auto simp: list_all_iff intro!: trim_no_whitespace map_idI to_upper_fix)

lemma find_split:
  "find P s = Some x \<Longrightarrow>
     s = takeWhile (\<lambda>c. \<not> P c) s @ x # tl (dropWhile (\<lambda>c. \<not> P c) s) \<and> P x"
  by (induction s) (auto split: if_splits)

lemma pair_parse_canonical_form: "pair_parse s = Inr p \<Longrightarrow> canonical_pair p"
proof -
  assume "pair_parse s = Inr p"
  then obtain x where p: "p = map to_ascii_upper (trim s)" and f: "find is_separator p = Some x"
    and ne: "takeWhile (\<lambda>c. \<not> is_separator c) p \<noteq> []" "tl (dropWhile (\<lambda>c. \<not> is_separator c) p) \<noteq> []"
    and ok: "list_all pair_char_ok p"
    by (auto simp: pair_parse_def Let_def split: if_splits option.splits)
  have "list_all (\<lambda>c. is_ascii_upper c \<or> is_ascii_digit c \<or> is_separator c) p"
    using ok to_upper_not_lower
    by (auto simp: list_all_iff p pair_char_ok_alt is_ascii_alphanumeric_def)
  moreover have "p = takeWhile (\<lambda>c. \<not> is_separator c) p @ x # tl (dropWhile (\<lambda>c. \<not> is_separator c) p)"
    and "is_separator x"
    using find_split [OF f] by auto
  moreover have "list_all (\<lambda>c. \<not> is_separator c) (takeWhile (\<lambda>c. \<not> is_separator c) p)"
    by (auto simp: list_all_iff dest: set_takeWhileD)
  ultimately show ?thesis using ne unfolding canonical_pair_def by blast
qed

lemma find_append_none: "list_all (\<lambda>c. \<not> P c) xs \<Longrightarrow> find P (xs @ ys) = find P ys"
  by (induction xs) auto

lemma takeWhile_split: "list_all P xs \<Longrightarrow> \<not> P y \<Longrightarrow> takeWhile P (xs @ y # ys) = xs"
  by (induction xs) auto

lemma dropWhile_split: "list_all P xs \<Longrightarrow> \<not> P y \<Longrightarrow> dropWhile P (xs @ y # ys) = y # ys"
  by (induction xs) auto

lemma canonical_pair_parses: "canonical_pair s \<Longrightarrow> pair_parse s = Inr s"
proof -
  assume "canonical_pair s"
  then obtain base sep quote where s: "s = base @ sep # quote" and sep: "is_separator sep"
    and ne: "base \<noteq> []" "quote \<noteq> []" and b: "list_all (\<lambda>c. \<not> is_separator c) base"
    and cs: "list_all (\<lambda>c. is_ascii_upper c \<or> is_ascii_digit c \<or> is_separator c) s"
    unfolding canonical_pair_def by blast
  from s b sep ne have "find is_separator s = Some sep"
    and "takeWhile (\<lambda>c. \<not> is_separator c) s = base"
    and "dropWhile (\<lambda>c. \<not> is_separator c) s = sep # quote"
    by (simp_all add: find_append_none takeWhile_split dropWhile_split)
  then show ?thesis using canonical_upper [OF cs] ne s by (simp add: pair_parse_def)
qed

text \<open>Parsing canonicalises: a string parses to a canonical pair only, every canonical pair
  parses to itself (so parsing is idempotent), and the result is the input without the white space
  around it, in upper case.\<close>

theorem pair_parse_canonicalises:
  "(pair_parse s = Inr p \<longrightarrow> canonical_pair p \<and> pair_parse p = Inr p) \<and>
   (pair_parse s = Inr p \<longrightarrow> p = map to_ascii_upper (trim s)) \<and>
   (canonical_pair s \<longrightarrow> pair_parse s = Inr s)"
proof -
  have "pair_parse s = Inr p \<Longrightarrow> p = map to_ascii_upper (trim s)"
    by (auto simp: pair_parse_def Let_def split: if_splits option.splits)
  then show ?thesis using pair_parse_canonical_form canonical_pair_parses by blast
qed

theorem pair_parse_canonicalises_witness:
  "pair_parse '' eth/usdc '' = Inr ''ETH/USDC'' \<and> canonical_pair ''ETH/USDC'' \<and>
   pair_parse ''ETH/USDC'' = Inr ''ETH/USDC''"
proof -
  have p: "pair_parse '' eth/usdc '' = Inr ''ETH/USDC''" by code_simp
  show ?thesis using pair_parse_canonicalises [of "'' eth/usdc ''" "''ETH/USDC''"] p by blast
qed

section \<open>Matching priority\<close>

text \<open>
  The key of the sorts in \<^verbatim>\<open>dp_book::OrderBook::bids\<close>/\<^verbatim>\<open>asks\<close> and \<^verbatim>\<open>dp_auction::run\<close>: price rank
  first, then the placement sequence.
\<close>

datatype priority = Priority (rank: decimal) (placed: nat)

instantiation priority :: linorder
begin

definition less_eq_priority :: "priority \<Rightarrow> priority \<Rightarrow> bool" where
  "less_eq_priority a b \<longleftrightarrow> rank a < rank b \<or> (rank a = rank b \<and> placed a \<le> placed b)"

definition less_priority :: "priority \<Rightarrow> priority \<Rightarrow> bool" where
  "less_priority a b \<longleftrightarrow> rank a < rank b \<or> (rank a = rank b \<and> placed a < placed b)"

instance
  by intro_classes (auto simp: less_eq_priority_def less_priority_def priority.expand)

end

definition bid_priority :: "order \<Rightarrow> priority" where
  "bid_priority ord = Priority (- price ord) (order_seq ord)"

definition ask_priority :: "order \<Rightarrow> priority" where
  "ask_priority ord = Priority (price ord) (order_seq ord)"

definition sort_bids :: "order list \<Rightarrow> order list" where
  "sort_bids bids = sort_key bid_priority bids"

definition sort_asks :: "order list \<Rightarrow> order list" where
  "sort_asks asks = sort_key ask_priority asks"

lemma bid_priority_le:
  "bid_priority a \<le> bid_priority b \<longleftrightarrow>
     price b < price a \<or> (price a = price b \<and> order_seq a \<le> order_seq b)"
  by (auto simp: bid_priority_def less_eq_priority_def)

lemma ask_priority_le:
  "ask_priority a \<le> ask_priority b \<longleftrightarrow>
     price a < price b \<or> (price a = price b \<and> order_seq a \<le> order_seq b)"
  by (auto simp: ask_priority_def less_eq_priority_def)

lemma set_sort_sides [simp]: "set (sort_bids xs) = set xs" "set (sort_asks xs) = set xs"
  by (simp_all add: sort_bids_def sort_asks_def)

lemma mset_sort_sides [simp]: "mset (sort_bids xs) = mset xs" "mset (sort_asks xs) = mset xs"
  by (simp_all add: sort_bids_def sort_asks_def)

lemma length_sort_sides [simp]: "length (sort_bids xs) = length xs" "length (sort_asks xs) = length xs"
  by (simp_all add: sort_bids_def sort_asks_def)

lemma filter_eq_single: "distinct xs \<Longrightarrow> k \<in> set xs \<Longrightarrow> filter (\<lambda>x. x = k) xs = [k]"
  by (induction xs) (auto simp: filter_empty_conv)

lemma sort_key_inj_perm:
  assumes "mset xs = mset ys" and "distinct (map f xs)"
  shows "sort_key f xs = sort_key f ys"
proof (rule properties_for_sort_key [symmetric])
  show "mset (sort_key f xs) = mset ys" using assms(1) by simp
  have inj: "inj_on f (set ys)" using assms by (metis distinct_map mset_eq_setD)
  have d: "distinct ys" using assms by (metis distinct_map mset_eq_imp_distinct_iff)
  show "filter (\<lambda>x. f k = f x) (sort_key f xs) = filter (\<lambda>x. f k = f x) ys" if "k \<in> set (sort_key f xs)" for k
  proof -
    have k: "k \<in> set ys" using that assms(1) by (metis set_sort mset_eq_setD)
    have only: "filter (\<lambda>x. f k = f x) zs = [k]" if "mset zs = mset ys" for zs
    proof -
      have "filter (\<lambda>x. f k = f x) zs = filter (\<lambda>x. x = k) zs"
        using that k inj by (intro filter_cong) (auto dest: mset_eq_setD simp: inj_on_def)
      moreover have "distinct zs" and "k \<in> set zs"
        using that k d by (metis mset_eq_imp_distinct_iff, metis mset_eq_setD)
      ultimately show ?thesis
        by (simp add: filter_eq_single)
    qed
    show ?thesis using only [of "sort_key f xs"] only [of ys] assms(1) by simp
  qed
  show "sorted (map f (sort_key f xs))" by simp
qed

text \<open>An order for the concrete instances of the theorems.\<close>

definition sample_order :: "uuid \<Rightarrow> address \<Rightarrow> side \<Rightarrow> decimal \<Rightarrow> decimal \<Rightarrow> nat \<Rightarrow> order" where
  "sample_order i t s p sz sq =
     \<lparr>order_id = i, trader = t, order_pair = ''A/B'', order_side = s, price = p, order_size = sz,
      remaining_size = sz, commitment_key = [], encrypted_payload = [], submitted_at = 0,
      expires_at = 0, order_seq = sq\<rparr>"

end
