(* ===== verification/Auction.thy ===== *)
theory Auction
  imports Types
begin

text \<open>
  The crate \<^verbatim>\<open>dp-auction\<close>: one uniform-price batch auction. \<open>run\<close> follows
  \<^verbatim>\<open>dp_auction::run\<close>; the outer \<open>None\<close> of its result is a decimal overflow panic, the inner one
  is the code's own \<^verbatim>\<open>None\<close> (no cross). The first half translates the code over the decimal
  operations \<open>D\<close>; the second half gives the same computation in exact arithmetic, shows that the
  two agree on every book whose prices and sizes the scalar encoder accepts, and proves the
  auction's promises about the exact one.
\<close>

section \<open>The code\<close>

record auction_match =
  m_bid :: fill
  m_ask :: fill
  m_price :: decimal
  m_size :: decimal

record auction_result =
  res_auction_id :: uuid
  res_pair :: string
  clearing_price :: decimal
  matched_volume :: decimal
  matches :: "auction_match list"

definition CLEARING_PRICE_DP :: nat where
  "CLEARING_PRICE_DP = 8"

definition cumulative_volume :: "dec_ops \<Rightarrow> order list \<Rightarrow> (order \<Rightarrow> bool) \<Rightarrow> decimal option" where
  "cumulative_volume D orders pred = dsum D (map remaining_size (filter pred orders))"

text \<open>The loop over the ordered set of candidate prices, with its two accumulators.\<close>

fun scan_candidates ::
  "dec_ops \<Rightarrow> order list \<Rightarrow> order list \<Rightarrow> decimal list \<Rightarrow> decimal \<Rightarrow> decimal list
   \<Rightarrow> (decimal \<times> decimal list) option" where
  "scan_candidates D bids asks [] best_volume tied_prices = Some (best_volume, tied_prices)"
| "scan_candidates D bids asks (p # ps) best_volume tied_prices = do {
     bid_vol \<leftarrow> cumulative_volume D bids (\<lambda>ord. p \<le> price ord);
     ask_vol \<leftarrow> cumulative_volume D asks (\<lambda>ord. price ord \<le> p);
     let matched = min bid_vol ask_vol;
     if best_volume < matched then scan_candidates D bids asks ps matched [p]
     else if matched = best_volume \<and> 0 < matched
       then scan_candidates D bids asks ps best_volume (tied_prices @ [p])
     else scan_candidates D bids asks ps best_volume tied_prices
   }"

definition candidate_prices :: "order list \<Rightarrow> order list \<Rightarrow> decimal list" where
  "candidate_prices bids asks = remdups (sort (map price bids @ map price asks))"

definition compute_clearing_price :: "dec_ops \<Rightarrow> order list \<Rightarrow> order list \<Rightarrow> decimal option" where
  "compute_clearing_price D bids asks = do {
     (_, tied_prices) \<leftarrow> scan_candidates D bids asks (candidate_prices bids asks) 0 [];
     if tied_prices = [] then Some 0
     else do {
       let lo = hd tied_prices;
       let hi = last tied_prices;
       s \<leftarrow> d_add D lo hi;
       h \<leftarrow> d_div D s 2;
       Some (d_round D CLEARING_PRICE_DP h)
     }
   }"

definition mk_match :: "decimal \<Rightarrow> order \<Rightarrow> order \<Rightarrow> decimal \<Rightarrow> auction_match" where
  "mk_match p bid ask sz =
     \<lparr>m_bid = \<lparr>fill_order_id = order_id bid, fill_size = sz\<rparr>,
      m_ask = \<lparr>fill_order_id = order_id ask, fill_size = sz\<rparr>,
      m_price = p, m_size = sz\<rparr>"

text \<open>
  The inner loop of \<^verbatim>\<open>match_orders\<close> for one bid: it returns the bid and the asks with their
  remaining sizes after the loop, and the matches it pushed.
\<close>

fun match_bid ::
  "dec_ops \<Rightarrow> decimal \<Rightarrow> order \<Rightarrow> order list \<Rightarrow> (order \<times> order list \<times> auction_match list) option" where
  "match_bid D p bid [] = Some (bid, [], [])"
| "match_bid D p bid (ask # asks) =
     (if remaining_size bid \<le> 0 then Some (bid, ask # asks, [])
      else if remaining_size ask \<le> 0 \<or> trader bid = trader ask then do {
        (bid', asks', ms) \<leftarrow> match_bid D p bid asks;
        Some (bid', ask # asks', ms)
      }
      else do {
        let sz = min (remaining_size bid) (remaining_size ask);
        b \<leftarrow> d_sub D (remaining_size bid) sz;
        a \<leftarrow> d_sub D (remaining_size ask) sz;
        (bid', asks', ms) \<leftarrow> match_bid D p (bid\<lparr>remaining_size := b\<rparr>) asks;
        Some (bid', ask\<lparr>remaining_size := a\<rparr> # asks', mk_match p bid ask sz # ms)
      })"

fun match_bids ::
  "dec_ops \<Rightarrow> decimal \<Rightarrow> order list \<Rightarrow> order list \<Rightarrow> (order list \<times> order list \<times> auction_match list) option" where
  "match_bids D p [] asks = Some ([], asks, [])"
| "match_bids D p (bid # bids) asks = do {
     (bid', asks', ms) \<leftarrow> match_bid D p bid asks;
     (bids', asks'', ms') \<leftarrow> match_bids D p bids asks';
     Some (bid' # bids', asks'', ms @ ms')
   }"

definition eligible_bids :: "decimal \<Rightarrow> order list \<Rightarrow> order list" where
  "eligible_bids p bids = filter (\<lambda>b. p \<le> price b \<and> 0 < remaining_size b) bids"

definition eligible_asks :: "decimal \<Rightarrow> order list \<Rightarrow> order list" where
  "eligible_asks p asks = filter (\<lambda>a. price a \<le> p \<and> 0 < remaining_size a) asks"

definition match_orders ::
  "dec_ops \<Rightarrow> order list \<Rightarrow> order list \<Rightarrow> decimal \<Rightarrow> auction_match list option" where
  "match_orders D bids asks p = do {
     (_, _, ms) \<leftarrow> match_bids D p (eligible_bids p bids) (eligible_asks p asks);
     Some ms
   }"

definition run ::
  "dec_ops \<Rightarrow> uuid \<Rightarrow> string \<Rightarrow> order list \<Rightarrow> order list \<Rightarrow> auction_result option option" where
  "run D auction_id pair bids0 asks0 =
     (if bids0 = [] \<or> asks0 = [] then Some None
      else
        let bids = sort_bids bids0; asks = sort_asks asks0 in
        if price (hd bids) < price (hd asks) then Some None
        else do {
          cp \<leftarrow> compute_clearing_price D bids asks;
          if cp \<le> 0 then Some None
          else do {
            ms \<leftarrow> match_orders D bids asks cp;
            if ms = [] then Some None
            else do {
              vol \<leftarrow> dsum D (map m_size ms);
              Some (Some \<lparr>res_auction_id = auction_id, res_pair = pair, clearing_price = cp,
                          matched_volume = vol, matches = ms\<rparr>)
            }
          }
        })"

section \<open>The same computation in exact arithmetic\<close>

definition bid_volume :: "order list \<Rightarrow> decimal \<Rightarrow> decimal" where
  "bid_volume bids p = sum_list (map remaining_size (filter (\<lambda>ord. p \<le> price ord) bids))"

definition ask_volume :: "order list \<Rightarrow> decimal \<Rightarrow> decimal" where
  "ask_volume asks p = sum_list (map remaining_size (filter (\<lambda>ord. price ord \<le> p) asks))"

definition crossing_volume :: "order list \<Rightarrow> order list \<Rightarrow> decimal \<Rightarrow> decimal" where
  "crossing_volume bids asks p = min (bid_volume bids p) (ask_volume asks p)"

fun scan_exact :: "(decimal \<Rightarrow> decimal) \<Rightarrow> decimal list \<Rightarrow> decimal \<Rightarrow> decimal list \<Rightarrow> decimal \<times> decimal list" where
  "scan_exact v [] best tied = (best, tied)"
| "scan_exact v (p # ps) best tied =
     (if best < v p then scan_exact v ps (v p) [p]
      else if v p = best \<and> 0 < v p then scan_exact v ps best (tied @ [p])
      else scan_exact v ps best tied)"

fun fill_bid :: "decimal \<Rightarrow> order \<Rightarrow> order list \<Rightarrow> order \<times> order list \<times> auction_match list" where
  "fill_bid p bid [] = (bid, [], [])"
| "fill_bid p bid (ask # asks) =
     (if remaining_size bid \<le> 0 then (bid, ask # asks, [])
      else if remaining_size ask \<le> 0 \<or> trader bid = trader ask
        then (case fill_bid p bid asks of (bid', asks', ms) \<Rightarrow> (bid', ask # asks', ms))
      else
        let sz = min (remaining_size bid) (remaining_size ask) in
        case fill_bid p (bid\<lparr>remaining_size := remaining_size bid - sz\<rparr>) asks of
          (bid', asks', ms) \<Rightarrow>
            (bid', ask\<lparr>remaining_size := remaining_size ask - sz\<rparr> # asks', mk_match p bid ask sz # ms))"

fun fill_bids :: "decimal \<Rightarrow> order list \<Rightarrow> order list \<Rightarrow> order list \<times> order list \<times> auction_match list" where
  "fill_bids p [] asks = ([], asks, [])"
| "fill_bids p (bid # bids) asks =
     (case fill_bid p bid asks of (bid', asks', ms) \<Rightarrow>
        case fill_bids p bids asks' of (bids', asks'', ms') \<Rightarrow> (bid' # bids', asks'', ms @ ms'))"

text \<open>
  What placement guarantees of the orders an auction sees: their price and size were encoded as
  scalars when the commitment was built, and the book holds at most \<^verbatim>\<open>MAX_ACTIVE_ORDERS\<close> (16384).
\<close>

definition encodable_order :: "order \<Rightarrow> bool" where
  "encodable_order ord \<longleftrightarrow> encodable (price ord) \<and> encodable (remaining_size ord)"

definition auction_input_ok :: "order list \<Rightarrow> order list \<Rightarrow> bool" where
  "auction_input_ok bids asks \<longleftrightarrow>
     list_all encodable_order bids \<and> list_all encodable_order asks \<and>
     length bids + length asks \<le> 16384"

lemma cumulative_volume_exact:
  assumes "dec_exact D" and "list_all encodable_order ords" and "length ords \<le> 16384"
  shows "cumulative_volume D ords P = Some (sum_list (map remaining_size (filter P ords)))"
proof -
  have "length (map remaining_size (filter P ords)) \<le> 2 ^ 34"
    using length_filter_le [of P ords] assms(3) by (simp del: length_filter_le)
  then show ?thesis unfolding cumulative_volume_def
    using assms(1,2) by (intro dsum_exact) (auto simp: list_all_iff encodable_order_def)
qed

lemma scan_candidates_exact:
  assumes "dec_exact D" and "auction_input_ok bids asks"
  shows "scan_candidates D bids asks ps best tied = Some (scan_exact (crossing_volume bids asks) ps best tied)"
proof -
  have v: "cumulative_volume D bids (\<lambda>ord. p \<le> price ord) = Some (bid_volume bids p)"
       "cumulative_volume D asks (\<lambda>ord. price ord \<le> p) = Some (ask_volume asks p)" for p
    using assms by (simp_all add: cumulative_volume_exact bid_volume_def ask_volume_def auction_input_ok_def)
  show ?thesis
    by (induction ps arbitrary: best tied) (simp_all add: v Let_def del: min_less_iff_conj flip: crossing_volume_def)
qed

lemma match_bid_exact:
  assumes "dec_exact D" and "encodable (remaining_size bid)"
    and "list_all (\<lambda>a. encodable (remaining_size a)) asks"
  shows "match_bid D p bid asks = Some (fill_bid p bid asks)"
  using assms(2,3)
proof (induction asks arbitrary: bid)
  case (Cons ask asks)
  let ?sz = "min (remaining_size bid) (remaining_size ask)"
  have e: "encodable (remaining_size bid - ?sz)" "encodable (remaining_size ask - ?sz)"
    using Cons.prems by (auto intro!: encodable_diff encodable_min)
  then have "d_sub D (remaining_size bid) ?sz = Some (remaining_size bid - ?sz)"
    and "d_sub D (remaining_size ask) ?sz = Some (remaining_size ask - ?sz)"
    using d_sub_exact [OF assms(1)] encodable_fits8 by blast+
  then show ?case using Cons.IH Cons.prems e(1) by (simp add: Let_def split: prod.split)
qed simp

lemma fill_bid_encodable:
  assumes "fill_bid p bid asks = (bid', asks', ms)" and "encodable (remaining_size bid)"
    and "list_all (\<lambda>a. encodable (remaining_size a)) asks"
  shows "list_all (\<lambda>a. encodable (remaining_size a)) asks' \<and> list_all (\<lambda>m. encodable (m_size m)) ms \<and>
         length asks' = length asks \<and> length ms \<le> length asks"
  using assms
proof (induction asks arbitrary: bid asks' ms)
  case (Cons ask asks)
  have "encodable (remaining_size bid - min (remaining_size bid) (remaining_size ask))"
       "encodable (remaining_size ask - min (remaining_size bid) (remaining_size ask))"
    using Cons.prems by (auto intro!: encodable_diff encodable_min)
  with Cons show ?case
    by (fastforce simp: Let_def mk_match_def encodable_min split: if_splits prod.splits)
qed simp

lemma match_bids_exact:
  assumes "dec_exact D" and "list_all (\<lambda>b. encodable (remaining_size b)) bids"
    and "list_all (\<lambda>a. encodable (remaining_size a)) asks"
  shows "match_bids D p bids asks = Some (fill_bids p bids asks)"
  using assms(2,3)
proof (induction bids arbitrary: asks)
  case (Cons bid bids)
  obtain b as ms where f: "fill_bid p bid asks = (b, as, ms)" by (cases "fill_bid p bid asks")
  have "list_all (\<lambda>a. encodable (remaining_size a)) as"
    using fill_bid_encodable [OF f] Cons.prems by simp
  then show ?case using Cons match_bid_exact [OF assms(1)] f by (simp split: prod.split)
qed simp

lemma fill_bids_encodable:
  assumes "fill_bids p bids asks = (bids', asks', ms)"
    and "list_all (\<lambda>b. encodable (remaining_size b)) bids"
    and "list_all (\<lambda>a. encodable (remaining_size a)) asks"
  shows "list_all (\<lambda>m. encodable (m_size m)) ms \<and> length ms \<le> length bids * length asks"
  using assms
proof (induction bids arbitrary: asks bids' asks' ms)
  case (Cons bid bids)
  obtain b as ms1 where f: "fill_bid p bid asks = (b, as, ms1)" by (cases "fill_bid p bid asks")
  obtain bs as' ms2 where g: "fill_bids p bids as = (bs, as', ms2)" by (cases "fill_bids p bids as")
  from Cons.prems f g have "ms = ms1 @ ms2" by simp
  with fill_bid_encodable [OF f] Cons.IH [OF g] Cons.prems show ?case by fastforce
qed simp

section \<open>The clearing price maximises the volume\<close>

lemma foldl_max_le: "b \<le> foldl max b (xs :: 'a :: linorder list)"
  by (induction xs arbitrary: b) (auto intro: order_trans [OF max.cobounded1])

lemma foldl_max_mem: "x \<in> set xs \<Longrightarrow> x \<le> foldl max b (xs :: 'a :: linorder list)"
proof (induction xs arbitrary: b)
  case (Cons y ys)
  then show ?case
    using foldl_max_le [of "max b y" ys] by auto
qed simp

lemma foldl_max_attained: "foldl max b xs = b \<or> foldl max b (xs :: 'a :: linorder list) \<in> set xs"
proof (induction xs arbitrary: b)
  case (Cons y ys)
  from Cons.IH [of "max b y"] show ?case by (auto simp: max_def split: if_splits)
qed simp

lemma scan_exact_closed:
  assumes "0 \<le> best"
  shows "scan_exact v ps best tied =
    (let B = foldl max best (map v ps)
     in (B, if best < B then filter (\<lambda>p. v p = B) ps else tied @ filter (\<lambda>p. v p = B \<and> 0 < B) ps))"
  using assms
proof (induction ps arbitrary: best tied)
  case (Cons p ps)
  have ge: "b \<le> foldl max b (map v ps)" for b by (rule foldl_max_le)
  show ?case
  proof (cases "best < v p")
    case True
    then have "max best (v p) = v p" "0 \<le> v p" "0 < v p" using Cons.prems by auto
    with True Cons.IH [of "v p" "[p]"] ge [of "v p"] show ?thesis
      by (auto simp: Let_def)
  next
    case False
    then have "max best (v p) = best" by (simp add: max_def)
    with False Cons.IH [OF Cons.prems] ge [of best] Cons.prems show ?thesis
      by (auto simp: Let_def)
  qed
qed (simp add: Let_def)

definition best_volume :: "order list \<Rightarrow> order list \<Rightarrow> decimal" where
  "best_volume bids asks = foldl max 0 (map (crossing_volume bids asks) (candidate_prices bids asks))"

definition tied_prices :: "order list \<Rightarrow> order list \<Rightarrow> decimal list" where
  "tied_prices bids asks =
     filter (\<lambda>p. crossing_volume bids asks p = best_volume bids asks \<and> 0 < best_volume bids asks)
       (candidate_prices bids asks)"

lemma scan_exact_start:
  "scan_exact (crossing_volume bids asks) (candidate_prices bids asks) 0 [] =
     (best_volume bids asks, tied_prices bids asks)"
  by (auto simp: scan_exact_closed Let_def best_volume_def tied_prices_def intro!: filter_cong)

lemma set_candidate_prices: "set (candidate_prices bids asks) = price ` set bids \<union> price ` set asks"
  by (simp add: candidate_prices_def)

lemma sorted_candidate_prices: "sorted (candidate_prices bids asks)"
  by (simp add: candidate_prices_def sorted_remdups)

lemma sorted_tied_prices: "sorted (tied_prices bids asks)"
  using sorted_candidate_prices by (simp add: tied_prices_def sorted_wrt_filter)

lemma bid_volume_antimono:
  assumes "list_all encodable_order bids" and "p \<le> q"
  shows "bid_volume bids q \<le> bid_volume bids p"
  unfolding bid_volume_def using assms
  by (intro sum_list_map_filter_le) (auto simp: list_all_iff encodable_order_def encodable_def)

lemma ask_volume_mono:
  assumes "list_all encodable_order asks" and "p \<le> q"
  shows "ask_volume asks p \<le> ask_volume asks q"
  unfolding ask_volume_def using assms
  by (intro sum_list_map_filter_le) (auto simp: list_all_iff encodable_order_def encodable_def)

lemma best_volume_nonneg: "0 \<le> best_volume bids asks"
  by (simp add: best_volume_def foldl_max_le)

lemma best_volume_candidate:
  "p \<in> set (candidate_prices bids asks) \<Longrightarrow> crossing_volume bids asks p \<le> best_volume bids asks"
  unfolding best_volume_def by (rule foldl_max_mem) simp

text \<open>
  Between two candidates the crossing volume is at most the one of the next candidate above: no
  bid leaves the demand there and the supply only grows.
\<close>

lemma crossing_volume_le_best:
  assumes "list_all encodable_order bids" and "list_all encodable_order asks"
  shows "crossing_volume bids asks p \<le> best_volume bids asks"
proof (cases "\<exists>c\<in>set (candidate_prices bids asks). p \<le> c")
  case True
  define c where "c = Min {c \<in> set (candidate_prices bids asks). p \<le> c}"
  have fin: "finite {c \<in> set (candidate_prices bids asks). p \<le> c}"
    and ne: "{c \<in> set (candidate_prices bids asks). p \<le> c} \<noteq> {}" using True by auto
  have c: "c \<in> set (candidate_prices bids asks)" "p \<le> c"
    using Min_in [OF fin ne] by (auto simp: c_def)
  have least: "c \<le> d" if "d \<in> set (candidate_prices bids asks)" "p \<le> d" for d
    using that fin by (auto simp: c_def intro: Min_le)
  have "bid_volume bids p = bid_volume bids c"
    unfolding bid_volume_def
    by (rule sum_list_map_filter_cong) (use c(2) least in \<open>auto simp: set_candidate_prices\<close>)
  moreover have "ask_volume asks p \<le> ask_volume asks c"
    using assms(2) c(2) by (rule ask_volume_mono)
  ultimately have "crossing_volume bids asks p \<le> crossing_volume bids asks c"
    by (auto simp: crossing_volume_def)
  also have "\<dots> \<le> best_volume bids asks" using c(1) by (rule best_volume_candidate)
  finally show ?thesis .
next
  case False
  then have "filter (\<lambda>ord. p \<le> price ord) bids = []"
    by (auto simp: filter_empty_conv set_candidate_prices)
  then have "bid_volume bids p = 0" by (simp add: bid_volume_def)
  then have "crossing_volume bids asks p \<le> 0" by (simp add: crossing_volume_def)
  then show ?thesis using best_volume_nonneg [of bids asks] by linarith
qed

lemma tied_price_props:
  assumes "p \<in> set (tied_prices bids asks)"
  shows "p \<in> set (candidate_prices bids asks)" and "crossing_volume bids asks p = best_volume bids asks"
    and "0 < best_volume bids asks"
  using assms by (auto simp: tied_prices_def)

lemma candidate_encodable:
  assumes "list_all encodable_order bids" and "list_all encodable_order asks"
    and "p \<in> set (candidate_prices bids asks)"
  shows "encodable p"
  using assms by (auto simp: set_candidate_prices list_all_iff encodable_order_def)

text \<open>The clearing price in exact arithmetic, and where it lies.\<close>

definition exact_clearing_price :: "dec_ops \<Rightarrow> order list \<Rightarrow> order list \<Rightarrow> decimal" where
  "exact_clearing_price D bids asks =
     (let t = tied_prices bids asks in if t = [] then 0 else d_round D 8 ((hd t + last t) / 2))"

lemma compute_clearing_price_exact:
  assumes "dec_exact D" and "auction_input_ok bids asks"
  shows "compute_clearing_price D bids asks = Some (exact_clearing_price D bids asks)"
proof (cases "tied_prices bids asks = []")
  case True
  with assms show ?thesis
    by (simp add: compute_clearing_price_def scan_candidates_exact scan_exact_start exact_clearing_price_def)
next
  case False
  let ?t = "tied_prices bids asks"
  have "hd ?t \<in> set ?t" "last ?t \<in> set ?t" using False by simp_all
  then have "encodable (hd ?t)" "encodable (last ?t)"
    using assms(2) tied_price_props(1) candidate_encodable by (auto simp: auction_input_ok_def)
  with False assms show ?thesis
    by (simp add: compute_clearing_price_def scan_candidates_exact scan_exact_start
        exact_clearing_price_def d_mid_exact CLEARING_PRICE_DP_def Let_def)
qed

lemma exact_clearing_price_between:
  assumes "dec_exact D" and "auction_input_ok bids asks" and "tied_prices bids asks \<noteq> []"
  defines "cp \<equiv> exact_clearing_price D bids asks" and "t \<equiv> tied_prices bids asks"
  shows "hd t \<le> cp" and "cp \<le> last t" and "encodable cp"
proof -
  have mem: "hd t \<in> set t" "last t \<in> set t" using assms(3) by (simp_all add: t_def)
  have e: "encodable (hd t)" "encodable (last t)"
    using assms(2) mem tied_price_props(1) candidate_encodable by (auto simp: auction_input_ok_def t_def)
  have "hd t \<le> last t"
    using sorted_tied_prices [of bids asks] assms(3) by (cases t) (auto simp: t_def)
  then have "hd t \<le> (hd t + last t) / 2" "(hd t + last t) / 2 \<le> last t" by simp_all
  note b = d_round_between [OF assms(1) e this]
  show "hd t \<le> cp" "cp \<le> last t" "encodable cp"
    using b assms(3) by (simp_all add: cp_def exact_clearing_price_def t_def Let_def)
qed

lemma exact_clearing_price_volume:
  assumes "dec_exact D" and "auction_input_ok bids asks" and "tied_prices bids asks \<noteq> []"
  shows "crossing_volume bids asks (exact_clearing_price D bids asks) = best_volume bids asks"
proof (rule antisym)
  let ?t = "tied_prices bids asks" let ?cp = "exact_clearing_price D bids asks"
  have enc: "list_all encodable_order bids" "list_all encodable_order asks"
    using assms(2) by (simp_all add: auction_input_ok_def)
  show "crossing_volume bids asks ?cp \<le> best_volume bids asks"
    using enc by (rule crossing_volume_le_best)
  have "hd ?t \<in> set ?t" "last ?t \<in> set ?t" using assms(3) by simp_all
  then have "crossing_volume bids asks (hd ?t) = best_volume bids asks"
    "crossing_volume bids asks (last ?t) = best_volume bids asks"
    using tied_price_props(2) by blast+
  then have "best_volume bids asks \<le> ask_volume asks (hd ?t)" "best_volume bids asks \<le> bid_volume bids (last ?t)"
    by (auto simp: crossing_volume_def)
  moreover have "ask_volume asks (hd ?t) \<le> ask_volume asks ?cp"
    by (rule ask_volume_mono [OF enc(2) exact_clearing_price_between(1) [OF assms]])
  moreover have "bid_volume bids (last ?t) \<le> bid_volume bids ?cp"
    by (rule bid_volume_antimono [OF enc(1) exact_clearing_price_between(2) [OF assms]])
  ultimately show "best_volume bids asks \<le> crossing_volume bids asks ?cp"
    by (auto simp: crossing_volume_def)
qed

section \<open>The matching loop\<close>

text \<open>What the matches of a round give to one order.\<close>

definition bid_fills :: "auction_match list \<Rightarrow> uuid \<Rightarrow> decimal" where
  "bid_fills ms i = sum_list (map m_size (filter (\<lambda>m. fill_order_id (m_bid m) = i) ms))"

definition ask_fills :: "auction_match list \<Rightarrow> uuid \<Rightarrow> decimal" where
  "ask_fills ms i = sum_list (map m_size (filter (\<lambda>m. fill_order_id (m_ask m) = i) ms))"

definition debit :: "(uuid \<Rightarrow> decimal) \<Rightarrow> order \<Rightarrow> order" where
  "debit f ord = ord\<lparr>remaining_size := remaining_size ord - f (order_id ord)\<rparr>"

lemma debit_simps [simp]:
  "order_id (debit f ord) = order_id ord" "trader (debit f ord) = trader ord" "price (debit f ord) = price ord"
  "remaining_size (debit f ord) = remaining_size ord - f (order_id ord)"
  by (simp_all add: debit_def)

lemma debit_zero [simp]: "f (order_id ord) = 0 \<Longrightarrow> debit f ord = ord"
  by (simp add: debit_def)

lemma debit_debit: "debit g (debit f ord) = debit (\<lambda>i. f i + g i) ord"
  by (simp add: debit_def)

lemma debit_cong: "f (order_id ord) = g (order_id ord) \<Longrightarrow> debit f ord = debit g ord"
  by (simp add: debit_def)

lemma fills_Nil [simp]: "bid_fills [] i = 0" "ask_fills [] i = 0"
  by (simp_all add: bid_fills_def ask_fills_def)

lemma fills_append [simp]:
  "bid_fills (ms @ ms') i = bid_fills ms i + bid_fills ms' i"
  "ask_fills (ms @ ms') i = ask_fills ms i + ask_fills ms' i"
  by (simp_all add: bid_fills_def ask_fills_def)

lemma fills_Cons [simp]:
  "bid_fills (mk_match p b a sz # ms) i = (if order_id b = i then sz else 0) + bid_fills ms i"
  "ask_fills (mk_match p b a sz # ms) i = (if order_id a = i then sz else 0) + ask_fills ms i"
  by (simp_all add: bid_fills_def ask_fills_def mk_match_def)

lemma fills_other:
  "(\<And>m. m \<in> set ms \<Longrightarrow> fill_order_id (m_bid m) \<noteq> i) \<Longrightarrow> bid_fills ms i = 0"
  "(\<And>m. m \<in> set ms \<Longrightarrow> fill_order_id (m_ask m) \<noteq> i) \<Longrightarrow> ask_fills ms i = 0"
proof -
  show "bid_fills ms i = 0" if "\<And>m. m \<in> set ms \<Longrightarrow> fill_order_id (m_bid m) \<noteq> i"
  proof -
    have "filter (\<lambda>m. fill_order_id (m_bid m) = i) ms = []" using that by (simp add: filter_empty_conv)
    then show ?thesis by (simp add: bid_fills_def)
  qed
  show "ask_fills ms i = 0" if "\<And>m. m \<in> set ms \<Longrightarrow> fill_order_id (m_ask m) \<noteq> i"
  proof -
    have "filter (\<lambda>m. fill_order_id (m_ask m) = i) ms = []" using that by (simp add: filter_empty_conv)
    then show ?thesis by (simp add: ask_fills_def)
  qed
qed

lemma fills_nonneg:
  assumes "\<forall>m\<in>set ms. 0 < m_size m"
  shows "0 \<le> bid_fills ms i" and "0 \<le> ask_fills ms i"
  using assms unfolding bid_fills_def ask_fills_def
  by (intro sum_list_nonneg_rat; force simp: less_imp_le)+

text \<open>A match of one bid with one of the asks, of positive size and between two traders.\<close>

definition proper_match :: "decimal \<Rightarrow> order list \<Rightarrow> order list \<Rightarrow> auction_match \<Rightarrow> bool" where
  "proper_match p bids asks m \<longleftrightarrow>
     (\<exists>b\<in>set bids. \<exists>a\<in>set asks. m = mk_match p b a (m_size m) \<and> trader b \<noteq> trader a \<and>
        0 < remaining_size a \<and> 0 < remaining_size b) \<and> 0 < m_size m"

lemma fill_bid_proper:
  assumes "fill_bid p bid asks = (bid', asks', ms)" and "m \<in> set ms"
  shows "proper_match p [bid] asks m"
  using assms
proof (induction asks arbitrary: bid bid' asks' ms)
  case (Cons ask asks)
  have upd: "mk_match p (bid\<lparr>remaining_size := r\<rparr>) a sz = mk_match p bid a sz" for r a sz
    by (simp add: mk_match_def)
  from Cons show ?case
    by (fastforce simp: proper_match_def upd Let_def mk_match_def split: if_splits prod.splits)
qed simp

lemma fill_bid_ids:
  assumes "fill_bid p bid asks = (bid', asks', ms)" and "m \<in> set ms"
  shows "fill_order_id (m_bid m) = order_id bid" and "fill_order_id (m_ask m) \<in> order_id ` set asks"
    and "0 < m_size m" and "0 < remaining_size bid"
proof -
  obtain a where "a \<in> set asks" "m = mk_match p bid a (m_size m)" "0 < m_size m" "0 < remaining_size bid"
    using fill_bid_proper [OF assms] by (auto simp: proper_match_def)
  then show "fill_order_id (m_bid m) = order_id bid" "fill_order_id (m_ask m) \<in> order_id ` set asks"
    "0 < m_size m" "0 < remaining_size bid"
    by (metis fill.simps(1) auction_match.simps(1) mk_match_def,
        metis fill.simps(1) auction_match.simps(2) mk_match_def image_eqI, auto)
qed

lemma fill_bid_debit:
  assumes "fill_bid p bid asks = (bid', asks', ms)" and "distinct (map order_id asks)"
  shows "bid' = debit (bid_fills ms) bid \<and> asks' = map (debit (ask_fills ms)) asks"
  using assms
proof (induction asks arbitrary: bid bid' asks' ms)
  case (Cons ask asks)
  have notin: "order_id ask \<notin> order_id ` set asks" using Cons.prems by simp
  show ?case
  proof (cases "remaining_size bid \<le> 0")
    case True
    then show ?thesis using Cons.prems by auto
  next
    case pos: False
    define sz where "sz = min (remaining_size bid) (remaining_size ask)"
    define bid1 where "bid1 = (if remaining_size ask \<le> 0 \<or> trader bid = trader ask then bid
      else bid\<lparr>remaining_size := remaining_size bid - sz\<rparr>)"
    obtain b as ms0 where f: "fill_bid p bid1 asks = (b, as, ms0)" by (cases "fill_bid p bid1 asks")
    have IH: "b = debit (bid_fills ms0) bid1" "as = map (debit (ask_fills ms0)) asks"
      using Cons.IH [OF f] Cons.prems(2) by auto
    have z: "ask_fills ms0 (order_id ask) = 0"
      using fill_bid_ids(2) [OF f] notin by (intro fills_other(2)) metis
    have other: "map (debit (ask_fills (mk_match p bid ask sz # ms0))) asks = map (debit (ask_fills ms0)) asks"
      using notin by (auto intro!: debit_cong)
    show ?thesis
    proof (cases "remaining_size ask \<le> 0 \<or> trader bid = trader ask")
      case True
      then show ?thesis using Cons.prems(1) pos f IH z by (auto simp: bid1_def)
    next
      case False
      then have "bid' = b" "asks' = ask\<lparr>remaining_size := remaining_size ask - sz\<rparr> # as"
        "ms = mk_match p bid ask sz # ms0"
        using Cons.prems(1) pos f by (auto simp: bid1_def sz_def Let_def)
      then show ?thesis using False IH z other by (simp add: bid1_def debit_def)
    qed
  qed
qed auto

lemma fill_bid_nonneg:
  assumes "fill_bid p bid asks = (bid', asks', ms)" and "0 \<le> remaining_size bid"
    and "\<forall>a\<in>set asks. 0 \<le> remaining_size a"
  shows "0 \<le> remaining_size bid' \<and> (\<forall>a\<in>set asks'. 0 \<le> remaining_size a)"
  using assms
proof (induction asks arbitrary: bid bid' asks' ms)
  case (Cons ask asks)
  then show ?case by (fastforce simp: Let_def split: if_splits prod.splits)
qed auto

text \<open>When the inner loop ends, the bid is exhausted or no other trader's ask is left.\<close>

lemma fill_bid_exhausts:
  assumes "fill_bid p bid asks = (bid', asks', ms)" and "0 \<le> remaining_size bid"
    and "\<forall>a\<in>set asks. 0 \<le> remaining_size a"
  shows "remaining_size bid' = 0 \<or> (\<forall>a\<in>set asks'. remaining_size a = 0 \<or> trader a = trader bid)"
  using assms
proof (induction asks arbitrary: bid bid' asks' ms)
  case (Cons ask asks)
  show ?case
  proof (cases "remaining_size bid \<le> 0")
    case True
    then show ?thesis using Cons.prems by auto
  next
    case pos: False
    define sz where "sz = min (remaining_size bid) (remaining_size ask)"
    show ?thesis
    proof (cases "remaining_size ask \<le> 0 \<or> trader bid = trader ask")
      case True
      then show ?thesis using Cons pos by (fastforce split: prod.splits)
    next
      case False
      obtain b as ms0 where f: "fill_bid p (bid\<lparr>remaining_size := remaining_size bid - sz\<rparr>) asks = (b, as, ms0)"
        by (cases "fill_bid p (bid\<lparr>remaining_size := remaining_size bid - sz\<rparr>) asks")
      have eq: "bid' = b" "asks' = ask\<lparr>remaining_size := remaining_size ask - sz\<rparr> # as"
        using False pos f Cons.prems(1) by (auto simp: sz_def Let_def)
      have IH: "remaining_size b = 0 \<or> (\<forall>a\<in>set as. remaining_size a = 0 \<or> trader a = trader bid)"
        using Cons.IH [OF f] Cons.prems(2,3) by (auto simp: sz_def)
      show ?thesis
      proof (cases "sz = remaining_size ask")
        case True
        then show ?thesis using IH eq by auto
      next
        case False
        then have "remaining_size bid - sz = 0" by (auto simp: sz_def min_def split: if_splits)
        then have "b = bid\<lparr>remaining_size := 0\<rparr>" using f by (cases asks) auto
        then show ?thesis using eq by simp
      qed
    qed
  qed
qed auto

lemma fill_bid_ask_order:
  assumes "fill_bid p bid asks = (bid', asks', ms)" and "distinct (map order_id asks)"
    and "0 \<le> remaining_size bid" and "\<forall>a\<in>set asks. 0 \<le> remaining_size a"
  shows "sorted_wrt (\<lambda>a1 a2. order_id a2 \<in> (\<lambda>m. fill_order_id (m_ask m)) ` set ms \<longrightarrow>
           ask_fills ms (order_id a1) = remaining_size a1 \<or> trader a1 = trader bid) asks"
  using assms
proof (induction asks arbitrary: bid bid' asks' ms)
  case (Cons ask asks)
  define sz where "sz = min (remaining_size bid) (remaining_size ask)"
  have notin: "order_id ask \<notin> order_id ` set asks" using Cons.prems by simp
  have ne: "order_id a \<noteq> order_id ask" if "a \<in> set asks" for a using notin that by (metis imageI)
  show ?case
  proof (cases "remaining_size bid \<le> 0")
    case True
    then have "ms = []" using Cons.prems by simp
    then show ?thesis by (simp add: sorted_wrt_iff_nth_less)
  next
    case pos: False
    show ?thesis
    proof (cases "remaining_size ask \<le> 0 \<or> trader bid = trader ask")
      case True
      obtain b as ms0 where f: "fill_bid p bid asks = (b, as, ms0)" by (cases "fill_bid p bid asks")
      have "ms = ms0" using True pos f Cons.prems(1) by auto
      moreover have "ask_fills ms0 (order_id ask) = 0"
        using fill_bid_ids(2) [OF f] notin by (intro fills_other(2)) metis
      moreover have "remaining_size ask = 0 \<or> trader ask = trader bid"
        using True Cons.prems(4) by auto
      ultimately show ?thesis using Cons.IH [OF f] Cons.prems by auto
    next
      case False
      obtain b as ms0 where f: "fill_bid p (bid\<lparr>remaining_size := remaining_size bid - sz\<rparr>) asks = (b, as, ms0)"
        by (cases "fill_bid p (bid\<lparr>remaining_size := remaining_size bid - sz\<rparr>) asks")
      have ms: "ms = mk_match p bid ask sz # ms0" using False pos f Cons.prems(1) by (auto simp: sz_def Let_def)
      have z: "ask_fills ms0 (order_id ask) = 0"
        using fill_bid_ids(2) [OF f] notin by (intro fills_other(2)) metis
      have full: "sz = remaining_size ask" if "ms0 \<noteq> []"
        using fill_bid_ids(4) [OF f, of "hd ms0"] that by (auto simp: sz_def min_def split: if_splits)
      have IH: "sorted_wrt (\<lambda>a1 a2. order_id a2 \<in> (\<lambda>m. fill_order_id (m_ask m)) ` set ms0 \<longrightarrow>
           ask_fills ms0 (order_id a1) = remaining_size a1 \<or> trader a1 = trader bid) asks"
        using Cons.IH [OF f] Cons.prems by (auto simp: sz_def)
      have id0: "fill_order_id (m_ask (mk_match p bid ask sz)) = order_id ask" by (simp add: mk_match_def)
      have "sorted_wrt (\<lambda>a1 a2. order_id a2 \<in> (\<lambda>m. fill_order_id (m_ask m)) ` set ms \<longrightarrow>
           ask_fills ms (order_id a1) = remaining_size a1 \<or> trader a1 = trader bid) asks"
        by (rule sorted_wrt_mono_rel [OF _ IH]) (use ne in \<open>fastforce simp: ms id0\<close>)
      moreover have "\<forall>a\<in>set asks. order_id a \<in> (\<lambda>m. fill_order_id (m_ask m)) ` set ms \<longrightarrow>
          ask_fills ms (order_id ask) = remaining_size ask"
        using full z ne by (cases "ms0 = []") (auto simp: ms id0)
      ultimately show ?thesis by simp
    qed
  qed
qed simp

text \<open>The outer loop, one lemma per promise.\<close>

lemma proper_match_ids:
  assumes "proper_match p bids asks m"
  shows "fill_order_id (m_bid m) \<in> order_id ` set bids" and "fill_order_id (m_ask m) \<in> order_id ` set asks"
    and "0 < m_size m" and "m_price m = p" and "fill_size (m_bid m) = m_size m" and "fill_size (m_ask m) = m_size m"
proof -
  obtain b a sz where "b \<in> set bids" "a \<in> set asks" "m = mk_match p b a sz" "0 < m_size m"
    using assms unfolding proper_match_def by blast
  then show "fill_order_id (m_bid m) \<in> order_id ` set bids" "fill_order_id (m_ask m) \<in> order_id ` set asks"
    "0 < m_size m" "m_price m = p" "fill_size (m_bid m) = m_size m" "fill_size (m_ask m) = m_size m"
    by (auto simp: mk_match_def)
qed

lemma proper_match_mono:
  "proper_match p bids asks m \<Longrightarrow> set bids \<subseteq> set bids' \<Longrightarrow> proper_match p bids' asks m"
  by (auto simp: proper_match_def)

lemma proper_match_debit:
  assumes "proper_match p bids (map (debit f) asks) m" and "\<forall>a\<in>set asks. 0 \<le> f (order_id a)"
  shows "proper_match p bids asks m"
proof -
  obtain b a where ba: "b \<in> set bids" "a \<in> set asks" "m = mk_match p b (debit f a) (m_size m)"
    "trader b \<noteq> trader a" "0 < remaining_size a - f (order_id a)" "0 < remaining_size b" "0 < m_size m"
    using assms(1) by (auto simp: proper_match_def)
  moreover have "mk_match p b (debit f a) (m_size m) = mk_match p b a (m_size m)" by (simp add: mk_match_def)
  moreover have "0 < remaining_size a" using assms(2) ba(2,5) by force
  ultimately show ?thesis by (auto simp: proper_match_def)
qed

text \<open>
  One round of the outer loop: the names the following lemmas share.
\<close>

lemma fill_bids_Cons:
  assumes "fill_bids p (bid # bids) asks = (bids', asks', ms)"
  obtains b as ms1 bs ms2 where "fill_bid p bid asks = (b, as, ms1)" and "fill_bids p bids as = (bs, asks', ms2)"
    and "bids' = b # bs" and "ms = ms1 @ ms2"
  using assms by (auto split: prod.splits)

lemma fill_bid_next:
  assumes "fill_bid p bid asks = (b, as, ms1)" and "distinct (map order_id asks)"
    and "0 \<le> remaining_size bid" and "\<forall>a\<in>set asks. 0 \<le> remaining_size a"
  shows "as = map (debit (ask_fills ms1)) asks" and "distinct (map order_id as)"
    and "\<forall>a\<in>set as. 0 \<le> remaining_size a" and "\<forall>i. 0 \<le> ask_fills ms1 i"
proof -
  show as: "as = map (debit (ask_fills ms1)) asks" using fill_bid_debit [OF assms(1,2)] by simp
  show "distinct (map order_id as)" using assms(2) by (simp add: as o_def)
  show "\<forall>a\<in>set as. 0 \<le> remaining_size a" using fill_bid_nonneg [OF assms(1,3,4)] by simp
  show "\<forall>i. 0 \<le> ask_fills ms1 i" using fill_bid_ids(3) [OF assms(1)] fills_nonneg(2) by blast
qed

lemma fill_bids_proper:
  assumes "fill_bids p bids asks = (bids', asks', ms)" and "distinct (map order_id asks)"
    and "\<forall>b\<in>set bids. 0 \<le> remaining_size b" and "\<forall>a\<in>set asks. 0 \<le> remaining_size a"
  shows "\<forall>m\<in>set ms. proper_match p bids asks m"
  using assms
proof (induction bids arbitrary: asks bids' asks' ms)
  case (Cons bid bids)
  from Cons.prems(1) obtain b as ms1 bs ms2 where f: "fill_bid p bid asks = (b, as, ms1)"
    and g: "fill_bids p bids as = (bs, asks', ms2)" and ms: "ms = ms1 @ ms2" by (rule fill_bids_Cons)
  have "0 \<le> remaining_size bid" using Cons.prems(3) by simp
  note n = fill_bid_next [OF f Cons.prems(2) this Cons.prems(4)]
  have 1: "proper_match p (bid # bids) asks m" if "m \<in> set ms1" for m
    using fill_bid_proper [OF f that] by (rule proper_match_mono) simp
  have 2: "proper_match p (bid # bids) asks m" if "m \<in> set ms2" for m
  proof -
    have "proper_match p bids (map (debit (ask_fills ms1)) asks) m"
      using Cons.IH [OF g n(2) _ n(3)] Cons.prems(3) that n(1) by auto
    then have "proper_match p bids asks m" by (rule proper_match_debit) (use n(4) in simp)
    then show ?thesis by (rule proper_match_mono) auto
  qed
  show ?case using 1 2 by (auto simp: ms)
qed simp

lemma fill_bids_debit:
  assumes "fill_bids p bids asks = (bids', asks', ms)" and "distinct (map order_id asks)"
    and "distinct (map order_id bids)"
    and "\<forall>b\<in>set bids. 0 \<le> remaining_size b" and "\<forall>a\<in>set asks. 0 \<le> remaining_size a"
  shows "bids' = map (debit (bid_fills ms)) bids \<and> asks' = map (debit (ask_fills ms)) asks \<and>
         (\<forall>b\<in>set bids'. 0 \<le> remaining_size b) \<and> (\<forall>a\<in>set asks'. 0 \<le> remaining_size a)"
  using assms
proof (induction bids arbitrary: asks bids' asks' ms)
  case (Cons bid bids)
  from Cons.prems(1) obtain b as ms1 bs ms2 where f: "fill_bid p bid asks = (b, as, ms1)"
    and g: "fill_bids p bids as = (bs, asks', ms2)" and bids': "bids' = b # bs" and ms: "ms = ms1 @ ms2"
    by (rule fill_bids_Cons)
  have pos: "0 \<le> remaining_size bid" using Cons.prems(4) by simp
  note n = fill_bid_next [OF f Cons.prems(2) pos Cons.prems(5)]
  have d: "distinct (map order_id bids)" and p: "\<forall>b\<in>set bids. 0 \<le> remaining_size b"
    and notin: "order_id bid \<notin> order_id ` set bids"
    using Cons.prems(3,4) by auto
  note IH = Cons.IH [OF g n(2) d p n(3)]
  have "bid_fills ms2 (order_id bid) = 0"
    using fill_bids_proper [OF g n(2) p n(3)] proper_match_ids(1) notin by (intro fills_other(1)) metis
  then have "b = debit (bid_fills ms) bid"
    using fill_bid_debit [OF f Cons.prems(2)] by (simp add: ms debit_def)
  moreover have "bid_fills ms1 (order_id c) = 0" if "c \<in> set bids" for c
    using fill_bid_ids(1) [OF f] notin that by (intro fills_other(1)) (metis imageI)
  then have "bs = map (debit (bid_fills ms)) bids"
    using IH by (auto simp: ms intro!: debit_cong)
  moreover have "asks' = map (debit (ask_fills ms)) asks"
    using IH n(1) by (auto simp: ms debit_debit intro!: debit_cong)
  ultimately show ?case using IH fill_bid_nonneg [OF f pos Cons.prems(5)] by (auto simp: bids')
qed (simp add: map_idI)

text \<open>
  Volume: if no trader is on both sides, one side is used up; in general the matched volume is
  what left each side.
\<close>

lemma fill_bids_exhausts:
  assumes "fill_bids p bids asks = (bids', asks', ms)" and "distinct (map order_id asks)"
    and "\<forall>b\<in>set bids. 0 \<le> remaining_size b" and "\<forall>a\<in>set asks. 0 \<le> remaining_size a"
    and "\<forall>b\<in>set bids. \<forall>a\<in>set asks. trader b \<noteq> trader a"
    and "distinct (map order_id bids)"
  shows "(\<forall>b\<in>set bids'. remaining_size b = 0) \<or> (\<forall>a\<in>set asks'. remaining_size a = 0)"
  using assms
proof (induction bids arbitrary: asks bids' asks' ms)
  case (Cons bid bids)
  from Cons.prems(1) obtain b as ms1 bs ms2 where f: "fill_bid p bid asks = (b, as, ms1)"
    and g: "fill_bids p bids as = (bs, asks', ms2)" and bids': "bids' = b # bs" by (rule fill_bids_Cons)
  have pos: "0 \<le> remaining_size bid" using Cons.prems(3) by simp
  note n = fill_bid_next [OF f Cons.prems(2) pos Cons.prems(4)]
  have d: "distinct (map order_id bids)" and p: "\<forall>b\<in>set bids. 0 \<le> remaining_size b"
    using Cons.prems(3,6) by auto
  have IH: "(\<forall>b\<in>set bs. remaining_size b = 0) \<or> (\<forall>a\<in>set asks'. remaining_size a = 0)"
    using Cons.IH [OF g n(2) p n(3) _ d] Cons.prems(5) n(1) by auto
  have "\<forall>a\<in>set as. trader a \<noteq> trader bid" using Cons.prems(5) n(1) by auto
  then have "remaining_size b = 0 \<or> (\<forall>a\<in>set as. remaining_size a = 0)"
    using fill_bid_exhausts [OF f pos Cons.prems(4)] by blast
  then show ?case
  proof
    assume z: "\<forall>a\<in>set as. remaining_size a = 0"
    have asks': "asks' = map (debit (ask_fills ms2)) as" "\<forall>a\<in>set asks'. 0 \<le> remaining_size a"
      using fill_bids_debit [OF g n(2) d p n(3)] by auto
    have "0 \<le> ask_fills ms2 i" for i
      using fill_bids_proper [OF g n(2) p n(3)] proper_match_ids(3) fills_nonneg(2) by blast
    then have "remaining_size (debit (ask_fills ms2) a) \<le> 0" if "a \<in> set as" for a
      using z that by simp
    then have "\<forall>a\<in>set asks'. remaining_size a = 0" using asks' by (auto intro: antisym)
    then show ?thesis by blast
  next
    assume "remaining_size b = 0"
    then show ?thesis using IH by (auto simp: bids')
  qed
qed simp

text \<open>Price-time priority of the two loops, over the eligible orders in priority order.\<close>

lemma distinct_id_eq:
  "distinct (map order_id ords) \<Longrightarrow> a \<in> set ords \<Longrightarrow> b \<in> set ords \<Longrightarrow> order_id a = order_id b \<Longrightarrow> a = b"
  by (auto simp: distinct_map inj_on_def)

lemma sorted_wrt_conj: "sorted_wrt P xs \<Longrightarrow> sorted_wrt Q xs \<Longrightarrow> sorted_wrt (\<lambda>x y. P x y \<and> Q x y) xs"
  by (induction xs) auto

lemma fill_bids_bid_order:
  assumes "fill_bids p bids asks = (bids', asks', ms)" and "distinct (map order_id asks)"
    and "distinct (map order_id bids)"
    and "\<forall>b\<in>set bids. 0 \<le> remaining_size b" and "\<forall>a\<in>set asks. 0 \<le> remaining_size a"
  shows "sorted_wrt (\<lambda>b1 b2. \<forall>m\<in>set ms. \<forall>a\<in>set asks.
           fill_order_id (m_bid m) = order_id b2 \<and> fill_order_id (m_ask m) = order_id a \<longrightarrow>
           bid_fills ms (order_id b1) = remaining_size b1 \<or> trader b1 = trader a) bids"
  using assms
proof (induction bids arbitrary: asks bids' asks' ms)
  case (Cons bid bids)
  from Cons.prems(1) obtain b as ms1 bs ms2 where f: "fill_bid p bid asks = (b, as, ms1)"
    and g: "fill_bids p bids as = (bs, asks', ms2)" and ms: "ms = ms1 @ ms2" by (rule fill_bids_Cons)
  have pos: "0 \<le> remaining_size bid" using Cons.prems(4) by simp
  note n = fill_bid_next [OF f Cons.prems(2) pos Cons.prems(5)]
  have d: "distinct (map order_id bids)" and p: "\<forall>b\<in>set bids. 0 \<le> remaining_size b"
    and ne: "\<And>c. c \<in> set bids \<Longrightarrow> order_id c \<noteq> order_id bid" using Cons.prems(3,4) by (auto simp: image_iff)
  note proper = fill_bids_proper [OF g n(2) p n(3)]
  have in2: "m \<in> set ms2" if "m \<in> set ms" "fill_order_id (m_bid m) = order_id c" "c \<in> set bids" for m c
    using that ne [of c] fill_bid_ids(1) [OF f] by (auto simp: ms)
  have z2: "bid_fills ms2 (order_id bid) = 0"
    using proper proper_match_ids(1) ne by (intro fills_other(1)) (metis imageE)
  have z1: "bid_fills ms1 (order_id c) = 0" if "c \<in> set bids" for c
    using fill_bid_ids(1) [OF f] ne [OF that] by (intro fills_other(1)) metis
  have head: "bid_fills ms (order_id bid) = remaining_size bid \<or> trader bid = trader a"
    if m: "m \<in> set ms2" and a: "a \<in> set asks" "fill_order_id (m_ask m) = order_id a" for m a
  proof -
    obtain c a1 where a1: "a1 \<in> set as" "0 < remaining_size a1" "m = mk_match p c a1 (m_size m)"
      using proper m unfolding proper_match_def by blast
    then have "order_id a1 = order_id (debit (ask_fills ms1) a)"
      using a(2) by (metis fill.simps(1) auction_match.simps(2) mk_match_def debit_simps(1))
    then have "a1 = debit (ask_fills ms1) a"
      using distinct_id_eq [OF n(2) a1(1)] a(1) n(1) by simp
    then have "remaining_size b = 0 \<or> trader a = trader bid"
      using fill_bid_exhausts [OF f pos Cons.prems(5)] a1(1,2) by fastforce
    moreover have "b = debit (bid_fills ms1) bid" using fill_bid_debit [OF f Cons.prems(2)] by simp
    ultimately show ?thesis using z2 by (auto simp: ms)
  qed
  have IH: "sorted_wrt (\<lambda>b1 b2. \<forall>m\<in>set ms2. \<forall>a\<in>set as.
      fill_order_id (m_bid m) = order_id b2 \<and> fill_order_id (m_ask m) = order_id a \<longrightarrow>
      bid_fills ms2 (order_id b1) = remaining_size b1 \<or> trader b1 = trader a) bids"
    by (rule Cons.IH [OF g n(2) d p n(3)])
  have "sorted_wrt (\<lambda>b1 b2. \<forall>m\<in>set ms. \<forall>a\<in>set asks.
      fill_order_id (m_bid m) = order_id b2 \<and> fill_order_id (m_ask m) = order_id a \<longrightarrow>
      bid_fills ms (order_id b1) = remaining_size b1 \<or> trader b1 = trader a) bids"
  proof (rule sorted_wrt_mono_rel [OF _ IH])
    fix b1 b2
    assume b: "b1 \<in> set bids" "b2 \<in> set bids"
      and R: "\<forall>m\<in>set ms2. \<forall>a\<in>set as.
        fill_order_id (m_bid m) = order_id b2 \<and> fill_order_id (m_ask m) = order_id a \<longrightarrow>
        bid_fills ms2 (order_id b1) = remaining_size b1 \<or> trader b1 = trader a"
    have "bid_fills ms (order_id b1) = remaining_size b1 \<or> trader b1 = trader a"
      if "m \<in> set ms" "a \<in> set asks" "fill_order_id (m_bid m) = order_id b2"
        "fill_order_id (m_ask m) = order_id a" for m a
    proof -
      have "m \<in> set ms2" using in2 that b(2) by blast
      moreover have "debit (ask_fills ms1) a \<in> set as" using that(2) n(1) by simp
      ultimately show ?thesis using R that z1 [OF b(1)] by (fastforce simp: ms)
    qed
    then show "\<forall>m\<in>set ms. \<forall>a\<in>set asks.
        fill_order_id (m_bid m) = order_id b2 \<and> fill_order_id (m_ask m) = order_id a \<longrightarrow>
        bid_fills ms (order_id b1) = remaining_size b1 \<or> trader b1 = trader a" by blast
  qed
  then show ?case using head in2 by simp blast
qed simp

lemma fill_bids_ask_order:
  assumes "fill_bids p bids asks = (bids', asks', ms)" and "distinct (map order_id asks)"
    and "distinct (map order_id bids)"
    and "\<forall>b\<in>set bids. 0 \<le> remaining_size b" and "\<forall>a\<in>set asks. 0 \<le> remaining_size a"
  shows "sorted_wrt (\<lambda>a1 a2. \<forall>m\<in>set ms. \<forall>b\<in>set bids.
           fill_order_id (m_ask m) = order_id a2 \<and> fill_order_id (m_bid m) = order_id b \<longrightarrow>
           ask_fills ms (order_id a1) = remaining_size a1 \<or> trader a1 = trader b) asks"
  using assms
proof (induction bids arbitrary: asks bids' asks' ms)
  case Nil
  then show ?case by (simp add: sorted_wrt_iff_nth_less)
next
  case (Cons bid bids)
  from Cons.prems(1) obtain b as ms1 bs ms2 where f: "fill_bid p bid asks = (b, as, ms1)"
    and g: "fill_bids p bids as = (bs, asks', ms2)" and ms: "ms = ms1 @ ms2" by (rule fill_bids_Cons)
  have pos: "0 \<le> remaining_size bid" using Cons.prems(4) by simp
  note n = fill_bid_next [OF f Cons.prems(2) pos Cons.prems(5)]
  have d: "distinct (map order_id bids)" and p: "\<forall>b\<in>set bids. 0 \<le> remaining_size b"
    and ne: "\<And>c. c \<in> set bids \<Longrightarrow> order_id c \<noteq> order_id bid" using Cons.prems(3,4) by (auto simp: image_iff)
  note proper = fill_bids_proper [OF g n(2) p n(3)]
  have nn: "0 \<le> ask_fills ms2 i" for i using proper proper_match_ids(3) fills_nonneg(2) by blast
  have cap: "ask_fills ms1 (order_id a) + ask_fills ms2 (order_id a) \<le> remaining_size a" if "a \<in> set asks" for a
    using fill_bids_debit [OF Cons.prems] that by (force simp: ms)
  have S1: "sorted_wrt (\<lambda>a1 a2. order_id a2 \<in> (\<lambda>m. fill_order_id (m_ask m)) ` set ms1 \<longrightarrow>
      ask_fills ms1 (order_id a1) = remaining_size a1 \<or> trader a1 = trader bid) asks"
    using f Cons.prems(2) pos Cons.prems(5) by (rule fill_bid_ask_order)
  have S2: "sorted_wrt (\<lambda>a1 a2. \<forall>m\<in>set ms2. \<forall>b\<in>set bids.
      fill_order_id (m_ask m) = order_id a2 \<and> fill_order_id (m_bid m) = order_id b \<longrightarrow>
      ask_fills ms2 (order_id a1) = remaining_size a1 - ask_fills ms1 (order_id a1) \<or> trader a1 = trader b) asks"
    using Cons.IH [OF g n(2) d p n(3)] by (simp add: n(1) sorted_wrt_map)
  show ?case
  proof (rule sorted_wrt_mono_rel [OF _ sorted_wrt_conj [OF S1 S2]])
    fix a1 a2
    assume a: "a1 \<in> set asks" "a2 \<in> set asks"
      and R: "(order_id a2 \<in> (\<lambda>m. fill_order_id (m_ask m)) ` set ms1 \<longrightarrow>
          ask_fills ms1 (order_id a1) = remaining_size a1 \<or> trader a1 = trader bid) \<and>
        (\<forall>m\<in>set ms2. \<forall>b\<in>set bids.
          fill_order_id (m_ask m) = order_id a2 \<and> fill_order_id (m_bid m) = order_id b \<longrightarrow>
          ask_fills ms2 (order_id a1) = remaining_size a1 - ask_fills ms1 (order_id a1) \<or> trader a1 = trader b)"
    have "ask_fills ms (order_id a1) = remaining_size a1 \<or> trader a1 = trader c"
      if m: "m \<in> set ms" and c: "c \<in> set (bid # bids)"
        and e: "fill_order_id (m_ask m) = order_id a2" "fill_order_id (m_bid m) = order_id c" for m c
    proof (cases "m \<in> set ms1")
      case True
      then have "c = bid" using fill_bid_ids(1) [OF f True] c e(2) ne by auto
      moreover have "order_id a2 \<in> (\<lambda>m. fill_order_id (m_ask m)) ` set ms1"
        using True e(1) by (metis image_eqI)
      ultimately have "ask_fills ms1 (order_id a1) = remaining_size a1 \<or> trader a1 = trader c"
        using R by blast
      then show ?thesis using cap [OF a(1)] nn [of "order_id a1"] by (auto simp: ms)
    next
      case False
      then have m2: "m \<in> set ms2" using m by (simp add: ms)
      then have "c \<in> set bids"
        using proper proper_match_ids(1) c e(2) ne by (metis imageE set_ConsD)
      then show ?thesis using R m2 e by (fastforce simp: ms)
    qed
    then show "\<forall>m\<in>set ms. \<forall>b\<in>set (bid # bids).
        fill_order_id (m_ask m) = order_id a2 \<and> fill_order_id (m_bid m) = order_id b \<longrightarrow>
        ask_fills ms (order_id a1) = remaining_size a1 \<or> trader a1 = trader b" by blast
  qed
qed

section \<open>The whole round\<close>

lemma sort_mset_cong: "mset xs = mset ys \<Longrightarrow> sort xs = sort ys"
  by (metis mset_sort properties_for_sort sorted_sort)

lemma volume_mset_cong:
  "mset bids = mset bids' \<Longrightarrow> bid_volume bids = bid_volume bids'"
  "mset asks = mset asks' \<Longrightarrow> ask_volume asks = ask_volume asks'"
  unfolding bid_volume_def ask_volume_def by (rule ext, erule filter_sum_list_mset_eq)+

lemma clearing_mset_cong:
  assumes "mset bids = mset bids'" and "mset asks = mset asks'"
  shows "crossing_volume bids asks = crossing_volume bids' asks'"
    and "best_volume bids asks = best_volume bids' asks'"
    and "tied_prices bids asks = tied_prices bids' asks'"
    and "exact_clearing_price D bids asks = exact_clearing_price D bids' asks'"
proof -
  show c: "crossing_volume bids asks = crossing_volume bids' asks'"
    by (simp add: fun_eq_iff crossing_volume_def volume_mset_cong(1) [OF assms(1)] volume_mset_cong(2) [OF assms(2)])
  have "candidate_prices bids asks = candidate_prices bids' asks'"
    using assms unfolding candidate_prices_def
    by (intro arg_cong [where f = remdups] sort_mset_cong) simp
  with c show b: "best_volume bids asks = best_volume bids' asks'" and "tied_prices bids asks = tied_prices bids' asks'"
    by (simp_all add: best_volume_def tied_prices_def)
  then show "exact_clearing_price D bids asks = exact_clearing_price D bids' asks'"
    by (simp add: exact_clearing_price_def)
qed

definition exact_matches :: "dec_ops \<Rightarrow> order list \<Rightarrow> order list \<Rightarrow> auction_match list" where
  "exact_matches D bids asks =
     (let cp = exact_clearing_price D bids asks in
      snd (snd (fill_bids cp (eligible_bids cp (sort_bids bids)) (eligible_asks cp (sort_asks asks)))))"

definition exact_run ::
  "dec_ops \<Rightarrow> uuid \<Rightarrow> string \<Rightarrow> order list \<Rightarrow> order list \<Rightarrow> auction_result option" where
  "exact_run D auction_id pair bids asks =
     (let cp = exact_clearing_price D bids asks; ms = exact_matches D bids asks in
      if bids = [] \<or> asks = [] \<or> price (hd (sort_bids bids)) < price (hd (sort_asks asks)) \<or> cp \<le> 0 \<or> ms = []
      then None
      else Some \<lparr>res_auction_id = auction_id, res_pair = pair, clearing_price = cp,
                 matched_volume = sum_list (map m_size ms), matches = ms\<rparr>)"

lemma auction_input_ok_sort [simp]:
  "auction_input_ok (sort_bids bids) (sort_asks asks) = auction_input_ok bids asks"
  by (simp add: auction_input_ok_def list_all_iff)

lemma eligible_encodable:
  assumes "auction_input_ok bids asks"
  shows "list_all (\<lambda>b. encodable (remaining_size b)) (eligible_bids p (sort_bids bids))"
    and "list_all (\<lambda>a. encodable (remaining_size a)) (eligible_asks p (sort_asks asks))"
    and "length (eligible_bids p (sort_bids bids)) \<le> length bids"
    and "length (eligible_asks p (sort_asks asks)) \<le> length asks"
  using assms
  by (auto simp: auction_input_ok_def list_all_iff encodable_order_def eligible_bids_def eligible_asks_def
      intro: order_trans [OF length_filter_le])

lemma match_orders_exact:
  assumes "dec_exact D" and "auction_input_ok bids asks"
  defines "cp \<equiv> exact_clearing_price D bids asks"
  shows "match_orders D (sort_bids bids) (sort_asks asks) cp = Some (exact_matches D bids asks)"
    and "dsum D (map m_size (exact_matches D bids asks)) = Some (sum_list (map m_size (exact_matches D bids asks)))"
proof -
  let ?bs = "eligible_bids cp (sort_bids bids)" and ?as = "eligible_asks cp (sort_asks asks)"
  note e = eligible_encodable [OF assms(2), of cp]
  obtain bs as ms where f: "fill_bids cp ?bs ?as = (bs, as, ms)" by (cases "fill_bids cp ?bs ?as")
  then have ms: "exact_matches D bids asks = ms" by (simp add: exact_matches_def cp_def)
  show "match_orders D (sort_bids bids) (sort_asks asks) cp = Some (exact_matches D bids asks)"
    using match_bids_exact [OF assms(1) e(1,2)] f by (simp add: match_orders_def ms)
  have "length ms \<le> length ?bs * length ?as" and enc: "list_all (\<lambda>m. encodable (m_size m)) ms"
    using fill_bids_encodable [OF f e(1,2)] by simp_all
  moreover have "length ?bs * length ?as \<le> 16384 * 16384"
    using e(3,4) assms(2) by (intro mult_le_mono) (simp_all add: auction_input_ok_def)
  ultimately show "dsum D (map m_size (exact_matches D bids asks)) =
      Some (sum_list (map m_size (exact_matches D bids asks)))"
    using enc unfolding ms by (intro dsum_exact [OF assms(1)]) (auto simp: list_all_iff)
qed

lemma run_exact:
  assumes "dec_exact D" and "auction_input_ok bids asks"
  shows "run D i pr bids asks = Some (exact_run D i pr bids asks)"
proof -
  have "compute_clearing_price D (sort_bids bids) (sort_asks asks) = Some (exact_clearing_price D bids asks)"
    using compute_clearing_price_exact [OF assms(1), of "sort_bids bids" "sort_asks asks"] assms(2)
      clearing_mset_cong(4) [of "sort_bids bids" bids "sort_asks asks" asks D] by simp
  then show ?thesis
    using match_orders_exact [OF assms] by (simp add: run_def exact_run_def Let_def)
qed

text \<open>Everything a completed round's result is built from.\<close>

lemma run_result:
  assumes "dec_exact D" and "auction_input_ok bids asks" and "run D i pr bids asks = Some (Some r)"
  obtains bs as where
    "fill_bids (clearing_price r) (eligible_bids (clearing_price r) (sort_bids bids))
       (eligible_asks (clearing_price r) (sort_asks asks)) = (bs, as, matches r)"
    "clearing_price r = exact_clearing_price D bids asks" "tied_prices bids asks \<noteq> []"
    "0 < clearing_price r" "matches r \<noteq> []" "matched_volume r = sum_list (map m_size (matches r))"
proof -
  let ?cp = "exact_clearing_price D bids asks" let ?ms = "exact_matches D bids asks"
  have "exact_run D i pr bids asks = Some r" using assms run_exact [OF assms(1,2)] by simp
  then have r: "clearing_price r = ?cp" "matches r = ?ms" "matched_volume r = sum_list (map m_size ?ms)"
    and c: "0 < ?cp" "?ms \<noteq> []"
    by (auto simp: exact_run_def Let_def split: if_splits)
  have "tied_prices bids asks \<noteq> []" using c(1) by (auto simp: exact_clearing_price_def)
  then show ?thesis
    using that [of "fst (fill_bids ?cp (eligible_bids ?cp (sort_bids bids)) (eligible_asks ?cp (sort_asks asks)))"
        "fst (snd (fill_bids ?cp (eligible_bids ?cp (sort_bids bids)) (eligible_asks ?cp (sort_asks asks))))"] r c
    by (simp add: exact_matches_def Let_def)
qed

lemma eligible_side_facts:
  assumes "distinct (map order_id bids)" and "distinct (map order_id asks)"
  shows "distinct (map order_id (eligible_bids p (sort_bids bids)))"
    and "distinct (map order_id (eligible_asks p (sort_asks asks)))"
    and "\<forall>b\<in>set (eligible_bids p (sort_bids bids)). 0 \<le> remaining_size b"
    and "\<forall>a\<in>set (eligible_asks p (sort_asks asks)). 0 \<le> remaining_size a"
proof -
  have "distinct (map order_id (sort_bids bids))" "distinct (map order_id (sort_asks asks))"
    using assms by (simp_all add: distinct_map sort_bids_def sort_asks_def)
  then show "distinct (map order_id (eligible_bids p (sort_bids bids)))"
    and "distinct (map order_id (eligible_asks p (sort_asks asks)))"
    by (simp_all add: eligible_bids_def eligible_asks_def distinct_map_filter)
qed (simp_all add: eligible_bids_def eligible_asks_def)

lemma set_eligible [simp]:
  "b \<in> set (eligible_bids p (sort_bids bids)) \<longleftrightarrow> b \<in> set bids \<and> p \<le> price b \<and> 0 < remaining_size b"
  "a \<in> set (eligible_asks p (sort_asks asks)) \<longleftrightarrow> a \<in> set asks \<and> price a \<le> p \<and> 0 < remaining_size a"
  by (auto simp: eligible_bids_def eligible_asks_def)

lemma run_proper:
  assumes "dec_exact D" and "auction_input_ok bids asks" and "run D i pr bids asks = Some (Some r)"
    and "distinct (map order_id asks)" and "m \<in> set (matches r)"
  shows "proper_match (clearing_price r) (eligible_bids (clearing_price r) (sort_bids bids))
           (eligible_asks (clearing_price r) (sort_asks asks)) m"
proof -
  obtain bs as where f: "fill_bids (clearing_price r) (eligible_bids (clearing_price r) (sort_bids bids))
       (eligible_asks (clearing_price r) (sort_asks asks)) = (bs, as, matches r)"
    by (rule run_result [OF assms(1-3)])
  show ?thesis
    using fill_bids_proper [OF f eligible_side_facts(2) [of "[]" asks]] eligible_side_facts(3,4) assms(4,5) by simp
qed

text \<open>The fills of a round, against the whole sides rather than the eligible orders.\<close>

lemma sum_indicator:
  "distinct xs \<Longrightarrow> i \<in> set xs \<Longrightarrow> sum_list (map (\<lambda>x. if i = x then c else 0) xs) = (c :: decimal)"
proof (induction xs)
  case (Cons x xs)
  have "i \<notin> set ys \<Longrightarrow> sum_list (map (\<lambda>x. if i = x then c else 0) ys) = 0" for ys by (induction ys) auto
  with Cons show ?case by auto
qed simp

lemma sum_fills:
  assumes "distinct ids"
  shows "\<forall>m\<in>set ms. fill_order_id (m_bid m) \<in> set ids \<Longrightarrow>
           sum_list (map (bid_fills ms) ids) = sum_list (map m_size ms)"
    and "\<forall>m\<in>set ms. fill_order_id (m_ask m) \<in> set ids \<Longrightarrow>
           sum_list (map (ask_fills ms) ids) = sum_list (map m_size ms)"
proof -
  have split: "bid_fills (m # ms) = (\<lambda>i. (if fill_order_id (m_bid m) = i then m_size m else 0) + bid_fills ms i)"
    "ask_fills (m # ms) = (\<lambda>i. (if fill_order_id (m_ask m) = i then m_size m else 0) + ask_fills ms i)" for m ms
    by (auto simp: bid_fills_def ask_fills_def fun_eq_iff)
  have nil: "bid_fills [] = (\<lambda>_. 0)" "ask_fills [] = (\<lambda>_. 0)" by auto
  show "sum_list (map (bid_fills ms) ids) = sum_list (map m_size ms)"
    if "\<forall>m\<in>set ms. fill_order_id (m_bid m) \<in> set ids"
    using that by (induction ms) (simp_all add: nil split sum_list_addf sum_indicator [OF assms])
  show "sum_list (map (ask_fills ms) ids) = sum_list (map m_size ms)"
    if "\<forall>m\<in>set ms. fill_order_id (m_ask m) \<in> set ids"
    using that by (induction ms) (simp_all add: nil split sum_list_addf sum_indicator [OF assms])
qed

lemma run_fills:
  assumes "dec_exact D" and "auction_input_ok bids asks" and "run D i pr bids asks = Some (Some r)"
    and "distinct (map order_id bids)" and "distinct (map order_id asks)"
  shows "b \<in> set bids \<Longrightarrow> \<not> (clearing_price r \<le> price b \<and> 0 < remaining_size b) \<Longrightarrow>
           bid_fills (matches r) (order_id b) = 0"
    and "a \<in> set asks \<Longrightarrow> \<not> (price a \<le> clearing_price r \<and> 0 < remaining_size a) \<Longrightarrow>
           ask_fills (matches r) (order_id a) = 0"
    and "b \<in> set bids \<Longrightarrow> bid_fills (matches r) (order_id b) \<le> remaining_size b"
    and "a \<in> set asks \<Longrightarrow> ask_fills (matches r) (order_id a) \<le> remaining_size a"
proof -
  let ?bs = "eligible_bids (clearing_price r) (sort_bids bids)"
  let ?as = "eligible_asks (clearing_price r) (sort_asks asks)"
  obtain bs as where f: "fill_bids (clearing_price r) ?bs ?as = (bs, as, matches r)"
    by (rule run_result [OF assms(1-3)])
  note ids = proper_match_ids(1,2) [OF run_proper [OF assms(1-3,5)]]
  show zb: "bid_fills (matches r) (order_id b) = 0"
    if b: "b \<in> set bids" "\<not> (clearing_price r \<le> price b \<and> 0 < remaining_size b)" for b
    using ids(1) b distinct_id_eq [OF assms(4) b(1)] by (intro fills_other(1)) fastforce
  show za: "ask_fills (matches r) (order_id a) = 0"
    if a: "a \<in> set asks" "\<not> (price a \<le> clearing_price r \<and> 0 < remaining_size a)" for a
    using ids(2) a distinct_id_eq [OF assms(5) a(1)] by (intro fills_other(2)) fastforce
  note d = fill_bids_debit [OF f eligible_side_facts(2,1,3,4) [OF assms(4,5)]]
  have nn: "0 \<le> remaining_size ord" if "ord \<in> set bids \<or> ord \<in> set asks" for ord
    using assms(2) that by (auto simp: auction_input_ok_def list_all_iff encodable_order_def encodable_nonneg)
  show "bid_fills (matches r) (order_id b) \<le> remaining_size b" if "b \<in> set bids"
  proof (cases "clearing_price r \<le> price b \<and> 0 < remaining_size b")
    case True
    then have "debit (bid_fills (matches r)) b \<in> set bs" using d that by (auto intro!: imageI)
    then show ?thesis using d by fastforce
  next
    case False
    then show ?thesis using zb [OF that] nn that by simp
  qed
  show "ask_fills (matches r) (order_id a) \<le> remaining_size a" if "a \<in> set asks"
  proof (cases "price a \<le> clearing_price r \<and> 0 < remaining_size a")
    case True
    then have "debit (ask_fills (matches r)) a \<in> set as" using d that by (auto intro!: imageI)
    then show ?thesis using d by fastforce
  next
    case False
    then show ?thesis using za [OF that] nn that by simp
  qed
qed

lemma run_fill_sums:
  assumes "dec_exact D" and "auction_input_ok bids asks" and "run D i pr bids asks = Some (Some r)"
    and "distinct (map order_id bids)" and "distinct (map order_id asks)"
  shows "sum_list (map (\<lambda>b. bid_fills (matches r) (order_id b)) bids) = matched_volume r"
    and "sum_list (map (\<lambda>a. ask_fills (matches r) (order_id a)) asks) = matched_volume r"
proof -
  have v: "matched_volume r = sum_list (map m_size (matches r))" by (rule run_result [OF assms(1-3)])
  note ids = proper_match_ids(1,2) [OF run_proper [OF assms(1-3,5)]]
  have "\<forall>m\<in>set (matches r). fill_order_id (m_bid m) \<in> set (map order_id bids)"
    "\<forall>m\<in>set (matches r). fill_order_id (m_ask m) \<in> set (map order_id asks)" using ids by fastforce+
  then show "sum_list (map (\<lambda>b. bid_fills (matches r) (order_id b)) bids) = matched_volume r"
    "sum_list (map (\<lambda>a. ask_fills (matches r) (order_id a)) asks) = matched_volume r"
    using sum_fills(1) [OF assms(4)] sum_fills(2) [OF assms(5)] by (simp_all add: v o_def)
qed

text \<open>When no trader is on both sides, one side of the eligible book is exhausted.\<close>

lemma run_exhausts:
  assumes "dec_exact D" and "auction_input_ok bids asks" and "run D i pr bids asks = Some (Some r)"
    and "distinct (map order_id bids)" and "distinct (map order_id asks)"
    and "\<forall>b\<in>set bids. \<forall>a\<in>set asks. trader b \<noteq> trader a"
  shows "(\<forall>b\<in>set bids. clearing_price r \<le> price b \<longrightarrow> bid_fills (matches r) (order_id b) = remaining_size b) \<or>
         (\<forall>a\<in>set asks. price a \<le> clearing_price r \<longrightarrow> ask_fills (matches r) (order_id a) = remaining_size a)"
proof -
  let ?cp = "clearing_price r"
  let ?bs = "eligible_bids ?cp (sort_bids bids)" and ?as = "eligible_asks ?cp (sort_asks asks)"
  note inp = assms(1-5)
  obtain bs as where f: "fill_bids ?cp ?bs ?as = (bs, as, matches r)" by (rule run_result [OF assms(1-3)])
  note d = fill_bids_debit [OF f eligible_side_facts(2,1,3,4) [OF assms(4,5)]]
  have nn: "0 \<le> remaining_size ord" if "ord \<in> set bids \<or> ord \<in> set asks" for ord
    using assms(2) that by (auto simp: auction_input_ok_def list_all_iff encodable_order_def encodable_nonneg)
  have b: "bid_fills (matches r) (order_id b) = remaining_size b"
    if "b \<in> set bids" "?cp \<le> price b" "\<forall>b\<in>set bs. remaining_size b = 0" for b
  proof (cases "0 < remaining_size b")
    case True
    then have "debit (bid_fills (matches r)) b \<in> set bs" using d that(1,2) by (auto intro!: imageI)
    then have "remaining_size (debit (bid_fills (matches r)) b) = 0" using that(3) by blast
    then show ?thesis by simp
  qed (use run_fills(1) [OF inp that(1)] nn [of b] that(1) in simp)
  have a: "ask_fills (matches r) (order_id a) = remaining_size a"
    if "a \<in> set asks" "price a \<le> ?cp" "\<forall>a\<in>set as. remaining_size a = 0" for a
  proof (cases "0 < remaining_size a")
    case True
    then have "debit (ask_fills (matches r)) a \<in> set as" using d that(1,2) by (auto intro!: imageI)
    then have "remaining_size (debit (ask_fills (matches r)) a) = 0" using that(3) by blast
    then show ?thesis by simp
  qed (use run_fills(2) [OF inp that(1)] nn [of a] that(1) in simp)
  have "(\<forall>b\<in>set bs. remaining_size b = 0) \<or> (\<forall>a\<in>set as. remaining_size a = 0)"
    by (rule fill_bids_exhausts [OF f eligible_side_facts(2) [OF assms(4,5)] eligible_side_facts(3,4) [OF assms(4,5)]
        _ eligible_side_facts(1) [OF assms(4,5)]]) (use assms(6) in simp)
  then show ?thesis using a b by blast
qed

lemma run_full_volume:
  assumes "dec_exact D" and "auction_input_ok bids asks" and "run D i pr bids asks = Some (Some r)"
    and "distinct (map order_id bids)" and "distinct (map order_id asks)"
    and "\<forall>b\<in>set bids. \<forall>a\<in>set asks. trader b \<noteq> trader a"
  shows "matched_volume r = crossing_volume bids asks (clearing_price r)"
proof -
  let ?cp = "clearing_price r"
  note inp = assms(1-5)
  let ?bf = "\<lambda>b. bid_fills (matches r) (order_id b)" and ?af = "\<lambda>a. ask_fills (matches r) (order_id a)"
  have zb: "?bf b = 0" if "b \<in> set bids" "\<not> ?cp \<le> price b" for b using run_fills(1) [OF inp that(1)] that(2) by blast
  have za: "?af a = 0" if "a \<in> set asks" "\<not> price a \<le> ?cp" for a using run_fills(2) [OF inp that(1)] that(2) by blast
  have bvol: "matched_volume r = sum_list (map ?bf (filter (\<lambda>b. ?cp \<le> price b) bids))"
    using sum_list_map_filter [of bids "\<lambda>b. ?cp \<le> price b" ?bf] zb run_fill_sums(1) [OF inp] by simp
  have avol: "matched_volume r = sum_list (map ?af (filter (\<lambda>a. price a \<le> ?cp) asks))"
    using sum_list_map_filter [of asks "\<lambda>a. price a \<le> ?cp" ?af] za run_fill_sums(2) [OF inp] by simp
  have le: "matched_volume r \<le> bid_volume bids ?cp" "matched_volume r \<le> ask_volume asks ?cp"
    using sum_list_mono [of "filter (\<lambda>b. ?cp \<le> price b) bids" ?bf remaining_size]
      sum_list_mono [of "filter (\<lambda>a. price a \<le> ?cp) asks" ?af remaining_size] run_fills(3,4) [OF inp]
    by (simp_all add: bvol [symmetric] avol [symmetric] bid_volume_def ask_volume_def)
  consider "\<forall>b\<in>set bids. ?cp \<le> price b \<longrightarrow> ?bf b = remaining_size b"
    | "\<forall>a\<in>set asks. price a \<le> ?cp \<longrightarrow> ?af a = remaining_size a"
    using run_exhausts [OF assms] by blast
  then have "matched_volume r = bid_volume bids ?cp \<or> matched_volume r = ask_volume asks ?cp"
  proof cases
    case 1
    then have "map ?bf (filter (\<lambda>b. ?cp \<le> price b) bids) = map remaining_size (filter (\<lambda>b. ?cp \<le> price b) bids)" by simp
    then show ?thesis unfolding bid_volume_def bvol by (simp only: simp_thms)
  next
    case 2
    then have "map ?af (filter (\<lambda>a. price a \<le> ?cp) asks) = map remaining_size (filter (\<lambda>a. price a \<le> ?cp) asks)" by simp
    then show ?thesis unfolding ask_volume_def avol by (simp only: simp_thms)
  qed
  then show ?thesis using le by (auto simp: crossing_volume_def)
qed

lemma sorted_wrt_key_less:
  "sorted (map f xs) \<Longrightarrow> sorted_wrt R xs \<Longrightarrow> x \<in> set xs \<Longrightarrow> y \<in> set xs \<Longrightarrow> f x < (f y :: 'b :: linorder) \<Longrightarrow> R x y"
  by (induction xs) auto

lemma eligible_sorted:
  "sorted (map bid_priority (eligible_bids p (sort_bids bids)))"
  "sorted (map ask_priority (eligible_asks p (sort_asks asks)))"
  by (simp_all add: eligible_bids_def eligible_asks_def sort_bids_def sort_asks_def sorted_filter)

lemma run_priority:
  assumes "dec_exact D" and "auction_input_ok bids asks" and "run D i pr bids asks = Some (Some r)"
    and "distinct (map order_id bids)" and "distinct (map order_id asks)"
    and m: "m \<in> set (matches r)" and b: "b \<in> set bids" "fill_order_id (m_bid m) = order_id b"
    and a: "a \<in> set asks" "fill_order_id (m_ask m) = order_id a"
  shows "b' \<in> set bids \<Longrightarrow> bid_priority b' < bid_priority b \<Longrightarrow>
           bid_fills (matches r) (order_id b') = remaining_size b' \<or> trader b' = trader a"
    and "a' \<in> set asks \<Longrightarrow> ask_priority a' < ask_priority a \<Longrightarrow>
           ask_fills (matches r) (order_id a') = remaining_size a' \<or> trader a' = trader b"
proof -
  let ?bs = "eligible_bids (clearing_price r) (sort_bids bids)"
  let ?as = "eligible_asks (clearing_price r) (sort_asks asks)"
  obtain bs as where f: "fill_bids (clearing_price r) ?bs ?as = (bs, as, matches r)" by (rule run_result [OF assms(1-3)])
  note e = eligible_side_facts(2,1,3,4) [OF assms(4,5)]
  note ids = proper_match_ids(1,2) [OF run_proper [OF assms(1-3,5) m]]
  have b_in: "b \<in> set ?bs" using ids(1) b distinct_id_eq [OF assms(4) b(1)] by fastforce
  have a_in: "a \<in> set ?as" using ids(2) a distinct_id_eq [OF assms(5) a(1)] by fastforce
  show "bid_fills (matches r) (order_id b') = remaining_size b' \<or> trader b' = trader a"
    if b': "b' \<in> set bids" "bid_priority b' < bid_priority b"
  proof (cases "b' \<in> set ?bs")
    case True
    from sorted_wrt_key_less [OF eligible_sorted(1) fill_bids_bid_order [OF f e] True b_in b'(2)]
    show ?thesis using m b(2) a(2) a_in by blast
  next
    case False
    have "price b \<le> price b'" using b'(2) by (auto simp: bid_priority_def less_priority_def)
    then have "\<not> 0 < remaining_size b'" using False b' b_in by auto
    then show ?thesis using run_fills(1,3) [OF assms(1-5) b'(1)] assms(2) b'(1)
      by (auto simp: auction_input_ok_def list_all_iff encodable_order_def encodable_def)
  qed
  show "ask_fills (matches r) (order_id a') = remaining_size a' \<or> trader a' = trader b"
    if a': "a' \<in> set asks" "ask_priority a' < ask_priority a"
  proof (cases "a' \<in> set ?as")
    case True
    from sorted_wrt_key_less [OF eligible_sorted(2) fill_bids_ask_order [OF f e] True a_in a'(2)]
    show ?thesis using m b(2) a(2) b_in by blast
  next
    case False
    have "price a' \<le> price a" using a'(2) by (auto simp: ask_priority_def less_priority_def)
    then have "\<not> 0 < remaining_size a'" using False a' a_in by auto
    then show ?thesis using run_fills(2,4) [OF assms(1-5) a'(1)] assms(2) a'(1)
      by (auto simp: auction_input_ok_def list_all_iff encodable_order_def encodable_def)
  qed
qed

text \<open>A book that crosses clears.\<close>

lemma sum_list_map_zero: "(\<And>x. x \<in> set xs \<Longrightarrow> f x = 0) \<Longrightarrow> sum_list (map f xs) = (0 :: decimal)"
  by (induction xs) auto

lemma run_no_match:
  assumes "dec_exact D" and "auction_input_ok bids asks"
    and "distinct (map order_id bids)" and "distinct (map order_id asks)"
    and "\<forall>b\<in>set bids. \<forall>a\<in>set asks. trader b \<noteq> trader a"
    and "exact_matches D bids asks = []"
  shows "crossing_volume bids asks (exact_clearing_price D bids asks) = 0"
proof -
  let ?cp = "exact_clearing_price D bids asks"
  let ?bs = "eligible_bids ?cp (sort_bids bids)" and ?as = "eligible_asks ?cp (sort_asks asks)"
  note e = eligible_side_facts [OF assms(3,4), of ?cp]
  obtain bs as where f: "fill_bids ?cp ?bs ?as = (bs, as, [])"
    using assms(6) by (cases "fill_bids ?cp ?bs ?as") (simp add: exact_matches_def Let_def)
  have "(\<forall>b\<in>set bs. remaining_size b = 0) \<or> (\<forall>a\<in>set as. remaining_size a = 0)"
    by (rule fill_bids_exhausts [OF f e(2,3,4) _ e(1)]) (use assms(5) in simp)
  moreover have "bs = ?bs" "as = ?as" using fill_bids_debit [OF f e(2,1,3,4)] by (simp_all add: map_idI)
  ultimately have "(\<forall>b\<in>set bids. ?cp \<le> price b \<longrightarrow> \<not> 0 < remaining_size b) \<or>
      (\<forall>a\<in>set asks. price a \<le> ?cp \<longrightarrow> \<not> 0 < remaining_size a)" by auto
  moreover have nn: "0 \<le> remaining_size ord" if "ord \<in> set bids \<or> ord \<in> set asks" for ord
    using assms(2) that by (auto simp: auction_input_ok_def list_all_iff encodable_order_def encodable_nonneg)
  ultimately have z: "(\<forall>b\<in>set bids. ?cp \<le> price b \<longrightarrow> remaining_size b = 0) \<or>
      (\<forall>a\<in>set asks. price a \<le> ?cp \<longrightarrow> remaining_size a = 0)" by force
  have "0 \<le> bid_volume bids ?cp" "0 \<le> ask_volume asks ?cp"
    using nn by (auto simp: bid_volume_def ask_volume_def intro!: sum_list_nonneg)
  moreover have "bid_volume bids ?cp = 0 \<or> ask_volume asks ?cp = 0"
    using z unfolding bid_volume_def ask_volume_def by (auto intro!: sum_list_map_zero)
  ultimately show ?thesis by (auto simp: crossing_volume_def)
qed

lemma hd_sort_sides:
  assumes "b \<in> set bids"
  shows "price b \<le> price (hd (sort_bids bids))" and "price (hd (sort_asks bids)) \<le> price b"
proof -
  have "sorted (map bid_priority (sort_bids bids))" "b \<in> set (sort_bids bids)"
    using assms by (simp_all add: sort_bids_def)
  then have "bid_priority (hd (sort_bids bids)) \<le> bid_priority b"
    by (cases "sort_bids bids") auto
  then show "price b \<le> price (hd (sort_bids bids))" by (auto simp: bid_priority_le)
  have "sorted (map ask_priority (sort_asks bids))" "b \<in> set (sort_asks bids)"
    using assms by (simp_all add: sort_asks_def)
  then have "ask_priority (hd (sort_asks bids)) \<le> ask_priority b"
    by (cases "sort_asks bids") auto
  then show "price (hd (sort_asks bids)) \<le> price b" by (auto simp: ask_priority_le)
qed

lemma crossing_volume_pos:
  assumes "0 < crossing_volume bids asks p"
  obtains b a where "b \<in> set bids" "p \<le> price b" "a \<in> set asks" "price a \<le> p"
proof -
  have "filter (\<lambda>ord. p \<le> price ord) bids \<noteq> []" "filter (\<lambda>ord. price ord \<le> p) asks \<noteq> []"
    using assms by (auto simp: crossing_volume_def bid_volume_def ask_volume_def simp del: filter_empty_conv)
  then show ?thesis using that by (auto simp: filter_empty_conv)
qed

lemma tied_prices_nonempty: "0 < best_volume bids asks \<Longrightarrow> tied_prices bids asks \<noteq> []"
  using foldl_max_attained [of 0 "map (crossing_volume bids asks) (candidate_prices bids asks)"]
  by (auto simp: tied_prices_def best_volume_def filter_empty_conv)

lemma run_clears:
  assumes "dec_exact D" and "auction_input_ok bids asks"
    and "distinct (map order_id bids)" and "distinct (map order_id asks)"
    and "\<forall>b\<in>set bids. \<forall>a\<in>set asks. trader b \<noteq> trader a"
    and "\<forall>ord\<in>set bids \<union> set asks. 0 < price ord" and "0 < crossing_volume bids asks p"
  shows "\<exists>r. run D i pr bids asks = Some (Some r)"
proof -
  let ?cp = "exact_clearing_price D bids asks" and ?t = "tied_prices bids asks"
  have enc: "list_all encodable_order bids" "list_all encodable_order asks"
    using assms(2) by (simp_all add: auction_input_ok_def)
  have best: "0 < best_volume bids asks" using crossing_volume_le_best [OF enc, of p] assms(7) by linarith
  then have t: "?t \<noteq> []" by (rule tied_prices_nonempty)
  have v: "0 < crossing_volume bids asks ?cp" using exact_clearing_price_volume [OF assms(1,2) t] best by simp
  then have ms: "exact_matches D bids asks \<noteq> []" using run_no_match [OF assms(1-5)] by force
  have "hd ?t \<in> price ` set bids \<union> price ` set asks"
    using t tied_price_props(1) [of "hd ?t"] by (simp add: set_candidate_prices)
  then have "0 < hd ?t" using assms(6) by auto
  then have cp: "0 < ?cp" using exact_clearing_price_between(1) [OF assms(1,2) t] by linarith
  obtain b a where "b \<in> set bids" "?cp \<le> price b" "a \<in> set asks" "price a \<le> ?cp"
    by (rule crossing_volume_pos [OF v])
  then have "\<not> price (hd (sort_bids bids)) < price (hd (sort_asks asks))" "bids \<noteq> []" "asks \<noteq> []"
    using hd_sort_sides(1) [of b bids] hd_sort_sides(2) [of a asks] by auto
  then show ?thesis using cp ms by (simp add: run_exact [OF assms(1,2)] exact_run_def Let_def)
qed

section \<open>The promises of the auction\<close>

text \<open>
  A small book for the concrete instances: two bids and two asks, where the trader of the second
  bid also owns the second ask.
\<close>

definition sample_bids :: "order list" where
  "sample_bids = [sample_order 1 11 Buy 100 5 1, sample_order 2 12 Buy 101 3 2]"

definition sample_asks :: "order list" where
  "sample_asks = [sample_order 3 13 Sell 99 4 3, sample_order 4 12 Sell 100 10 4]"

definition sample_result :: auction_result where
  "sample_result =
     \<lparr>res_auction_id = 7, res_pair = ''A/B'', clearing_price = 100, matched_volume = 8,
      matches = [mk_match 100 (hd (tl sample_bids)) (hd sample_asks) 3,
                 mk_match 100 (hd sample_bids) (hd sample_asks) 1,
                 mk_match 100 (hd sample_bids) (hd (tl sample_asks)) 4]\<rparr>"

lemma sample_ok:
  "auction_input_ok sample_bids sample_asks"
  "distinct (map order_id sample_bids)" "distinct (map order_id sample_asks)"
  by code_simp+

lemma sample_run: "run dec_ref 7 ''A/B'' sample_bids sample_asks = Some (Some sample_result)"
  by code_simp

text \<open>C1. When a round clears, its clearing price is positive, can be encoded as a scalar, and no other price
  at all would let a larger volume trade: it maximises the smaller of demand and supply.\<close>

theorem clearing_price_maximises_volume:
  assumes "dec_exact D" and "auction_input_ok bids asks" and "run D i pr bids asks = Some (Some r)"
  shows "0 < clearing_price r \<and> encodable (clearing_price r) \<and>
         crossing_volume bids asks p \<le> crossing_volume bids asks (clearing_price r)"
proof -
  have enc: "list_all encodable_order bids" "list_all encodable_order asks"
    using assms(2) by (simp_all add: auction_input_ok_def)
  have cp: "clearing_price r = exact_clearing_price D bids asks" "tied_prices bids asks \<noteq> []" "0 < clearing_price r"
    by (rule run_result [OF assms], assumption)+
  show ?thesis
    using cp exact_clearing_price_between(3) [OF assms(1,2) cp(2)] exact_clearing_price_volume [OF assms(1,2) cp(2)]
      crossing_volume_le_best [OF enc, of p] by simp
qed

theorem clearing_price_maximises_volume_witness:
  "0 < clearing_price sample_result \<and> encodable (clearing_price sample_result) \<and>
   crossing_volume sample_bids sample_asks 101 \<le> crossing_volume sample_bids sample_asks (clearing_price sample_result)"
  using clearing_price_maximises_volume [OF dec_exact_ref sample_ok(1) sample_run, of 101] .

text \<open>C18. Every match of a round pairs a resting bid with a resting ask of two different traders, at the
  clearing price, which is within both limits, for a positive size recorded alike in both legs.\<close>

theorem matches_respect_limits:
  assumes "dec_exact D" and "auction_input_ok bids asks" and "run D i pr bids asks = Some (Some r)"
    and "distinct (map order_id asks)" and "m \<in> set (matches r)"
  shows "\<exists>b\<in>set bids. \<exists>a\<in>set asks.
           fill_order_id (m_bid m) = order_id b \<and> fill_order_id (m_ask m) = order_id a \<and> trader b \<noteq> trader a \<and>
           m_price m = clearing_price r \<and> price a \<le> m_price m \<and> m_price m \<le> price b \<and>
           0 < m_size m \<and> fill_size (m_bid m) = m_size m \<and> fill_size (m_ask m) = m_size m"
proof -
  obtain b a sz where "b \<in> set (eligible_bids (clearing_price r) (sort_bids bids))"
    "a \<in> set (eligible_asks (clearing_price r) (sort_asks asks))" "m = mk_match (clearing_price r) b a sz"
    "trader b \<noteq> trader a" "0 < m_size m"
    using run_proper [OF assms] unfolding proper_match_def by blast
  then show ?thesis by (auto simp: mk_match_def)
qed

theorem matches_respect_limits_witness:
  "hd (matches sample_result) \<in> set (matches sample_result) \<and>
   (\<exists>b\<in>set sample_bids. \<exists>a\<in>set sample_asks.
      fill_order_id (m_bid (hd (matches sample_result))) = order_id b \<and>
      fill_order_id (m_ask (hd (matches sample_result))) = order_id a \<and> trader b \<noteq> trader a \<and>
      m_price (hd (matches sample_result)) = clearing_price sample_result)"
  using matches_respect_limits [OF dec_exact_ref sample_ok(1) sample_run sample_ok(3), of "hd (matches sample_result)"]
  by (auto simp: sample_result_def)

text \<open>C2. A round never overfills and conserves volume: what an order receives is between zero and its remaining
  size, and the bids receive in total exactly what the asks give, the reported matched volume.\<close>

theorem round_conserves_volume:
  assumes "dec_exact D" and "auction_input_ok bids asks" and "run D i pr bids asks = Some (Some r)"
    and "distinct (map order_id bids)" and "distinct (map order_id asks)"
  shows "(\<forall>b\<in>set bids. 0 \<le> bid_fills (matches r) (order_id b) \<and> bid_fills (matches r) (order_id b) \<le> remaining_size b) \<and>
         (\<forall>a\<in>set asks. 0 \<le> ask_fills (matches r) (order_id a) \<and> ask_fills (matches r) (order_id a) \<le> remaining_size a) \<and>
         sum_list (map (\<lambda>b. bid_fills (matches r) (order_id b)) bids) = matched_volume r \<and>
         sum_list (map (\<lambda>a. ask_fills (matches r) (order_id a)) asks) = matched_volume r"
proof -
  have "\<forall>m\<in>set (matches r). 0 < m_size m"
    using run_proper [OF assms(1-3,5)] proper_match_ids(3) by blast
  then show ?thesis
    using run_fills(3,4) [OF assms] run_fill_sums [OF assms] fills_nonneg by simp
qed

theorem round_conserves_volume_witness:
  "bid_fills (matches sample_result) 1 \<le> 5 \<and> ask_fills (matches sample_result) 3 \<le> 4 \<and>
   sum_list (map (\<lambda>b. bid_fills (matches sample_result) (order_id b)) sample_bids) = matched_volume sample_result"
  using round_conserves_volume [OF dec_exact_ref sample_ok(1) sample_run sample_ok(2,3)]
  by (simp add: sample_bids_def sample_asks_def sample_order_def)

text \<open>C15. Strict price-time priority: when a bid trades with an ask, every bid with a better price, or the same
  price and an earlier sequence number, is filled completely, unless the ask is its own trader's; the same
  holds for the asks ahead of that ask.\<close>

theorem price_time_priority:
  assumes "dec_exact D" and "auction_input_ok bids asks" and "run D i pr bids asks = Some (Some r)"
    and "distinct (map order_id bids)" and "distinct (map order_id asks)" and "m \<in> set (matches r)"
    and "b \<in> set bids" and "fill_order_id (m_bid m) = order_id b"
    and "a \<in> set asks" and "fill_order_id (m_ask m) = order_id a"
  shows "(\<forall>b'\<in>set bids. price b < price b' \<or> price b' = price b \<and> order_seq b' < order_seq b \<longrightarrow>
            bid_fills (matches r) (order_id b') = remaining_size b' \<or> trader b' = trader a) \<and>
         (\<forall>a'\<in>set asks. price a' < price a \<or> price a' = price a \<and> order_seq a' < order_seq a \<longrightarrow>
            ask_fills (matches r) (order_id a') = remaining_size a' \<or> trader a' = trader b)"
proof -
  have "bid_priority b' < bid_priority b \<longleftrightarrow> price b < price b' \<or> price b' = price b \<and> order_seq b' < order_seq b"
    "ask_priority a' < ask_priority a \<longleftrightarrow> price a' < price a \<or> price a' = price a \<and> order_seq a' < order_seq a" for a' b'
    by (auto simp: bid_priority_def ask_priority_def less_priority_def)
  then show ?thesis using run_priority [OF assms] by simp
qed

theorem price_time_priority_witness:
  "bid_fills (matches sample_result) 2 = 3 \<and> ask_fills (matches sample_result) 3 = 4"
  using price_time_priority [OF dec_exact_ref sample_ok(1) sample_run sample_ok(2,3),
      of "mk_match 100 (hd sample_bids) (hd (tl sample_asks)) 4" "hd sample_bids" "hd (tl sample_asks)"]
    price_time_priority [OF dec_exact_ref sample_ok(1) sample_run sample_ok(2,3),
      of "mk_match 100 (hd sample_bids) (hd sample_asks) 1" "hd sample_bids" "hd sample_asks"]
  by (simp add: sample_result_def sample_bids_def sample_asks_def sample_order_def mk_match_def)

text \<open>C21. Where no trader is on both sides and all prices are positive, a round clears exactly when some price
  crosses, and then it trades the largest volume any price allows.\<close>

theorem crossing_book_clears:
  assumes "dec_exact D" and "auction_input_ok bids asks"
    and "distinct (map order_id bids)" and "distinct (map order_id asks)"
    and "\<forall>b\<in>set bids. \<forall>a\<in>set asks. trader b \<noteq> trader a"
    and "\<forall>ord\<in>set bids \<union> set asks. 0 < price ord"
  shows "if \<exists>p. 0 < crossing_volume bids asks p
         then \<exists>r. run D i pr bids asks = Some (Some r) \<and> matched_volume r = best_volume bids asks
         else run D i pr bids asks = Some None"
proof (cases "\<exists>p. 0 < crossing_volume bids asks p")
  case True
  then obtain r where r: "run D i pr bids asks = Some (Some r)" using run_clears [OF assms] by blast
  have "clearing_price r = exact_clearing_price D bids asks" "tied_prices bids asks \<noteq> []"
    by (rule run_result [OF assms(1,2) r], assumption)+
  then have "matched_volume r = best_volume bids asks"
    using run_full_volume [OF assms(1,2) r assms(3-5)] exact_clearing_price_volume [OF assms(1,2)] by simp
  with True r show ?thesis by auto
next
  case False
  obtain res where res: "run D i pr bids asks = Some res" using run_exact [OF assms(1,2)] by blast
  have "res = None"
  proof (cases res)
    case (Some r)
    then have "tied_prices bids asks \<noteq> []" using res by (blast intro: run_result [OF assms(1,2)])
    then have "hd (tied_prices bids asks) \<in> set (tied_prices bids asks)" by simp
    from tied_price_props(2,3) [OF this] show ?thesis using False by metis
  qed
  with False res show ?thesis by simp
qed

definition sample_asks2 :: "order list" where
  "sample_asks2 = [sample_order 3 13 Sell 99 4 3, sample_order 4 14 Sell 100 10 4]"

theorem crossing_book_clears_witness:
  "\<exists>r. run dec_ref 7 ''A/B'' sample_bids sample_asks2 = Some (Some r) \<and>
       matched_volume r = best_volume sample_bids sample_asks2"
proof -
  have "0 < crossing_volume sample_bids sample_asks2 100" by code_simp
  moreover have "auction_input_ok sample_bids sample_asks2" "distinct (map order_id sample_bids)"
    "distinct (map order_id sample_asks2)" "\<forall>b\<in>set sample_bids. \<forall>a\<in>set sample_asks2. trader b \<noteq> trader a"
    "\<forall>ord\<in>set sample_bids \<union> set sample_asks2. 0 < price ord" by code_simp+
  ultimately show ?thesis using crossing_book_clears [OF dec_exact_ref, of sample_bids sample_asks2 7 "''A/B''"] by metis
qed

text \<open>The round does not depend on the order in which the book's hash maps hand over the orders: with
  distinct sequence numbers on each side, any permutation of the two sides gives the same outcome.\<close>

theorem round_ignores_input_order:
  assumes "distinct (map order_seq bids)" and "distinct (map order_seq asks)"
    and "mset bids = mset bids'" and "mset asks = mset asks'"
  shows "run D i pr bids asks = run D i pr bids' asks'"
proof -
  have d: "distinct (map bid_priority bids)" "distinct (map ask_priority asks)"
    using assms(1,2) by (auto simp: distinct_map inj_on_def bid_priority_def ask_priority_def)
  have "sort_bids bids = sort_bids bids'" "sort_asks asks = sort_asks asks'"
    unfolding sort_bids_def sort_asks_def using sort_key_inj_perm assms(3,4) d by blast+
  moreover have "bids = [] \<longleftrightarrow> bids' = []" "asks = [] \<longleftrightarrow> asks' = []"
    using assms(3,4) by (auto dest: mset_eq_length)
  ultimately show ?thesis by (simp add: run_def)
qed

theorem round_ignores_input_order_witness:
  "run dec_ref 7 ''A/B'' sample_bids sample_asks = run dec_ref 7 ''A/B'' (rev sample_bids) (rev sample_asks)"
  by (rule round_ignores_input_order) (simp_all add: sample_bids_def sample_asks_def sample_order_def)

text \<open>C25. On every book of encodable orders within the active-order limit the decimal computation of a
  round neither overflows nor rounds anything but the clearing price: it equals the round in exact rationals.\<close>

theorem round_is_exact:
  assumes "dec_exact D" and "auction_input_ok bids asks"
  shows "run D i pr bids asks = Some (exact_run D i pr bids asks)"
  using assms by (rule run_exact)

theorem round_is_exact_witness:
  "run dec_ref 7 ''A/B'' sample_bids sample_asks = Some (exact_run dec_ref 7 ''A/B'' sample_bids sample_asks)"
  using round_is_exact [OF dec_exact_ref sample_ok(1)] .

end
