(* ===== verification/Events.thy ===== *)
theory Events
  imports Types
begin

text \<open>
  The event log of the crate \<^verbatim>\<open>dp-event\<close>: the events, the \<^verbatim>\<open>Store\<close> trait and the in-memory store.
  A trait object is a record of the operations a client calls (\<open>store_ops\<close>), over a state type of
  the backend; what every backend promises is the locale \<open>event_store\<close>, interpreted here on
  \<^verbatim>\<open>MemStore\<close> and in \<open>FileStore\<close> on the file backend. Readings of \<^verbatim>\<open>Utc::now\<close> are a function of the
  sequence number that is being assigned when the clock is read.
\<close>

type_synonym clock = "nat \<Rightarrow> time"

datatype event_data =
    OrderPlaced uuid bytes bytes bytes
  | OrderCancelled uuid string
  | OrderExpired uuid
  | AuctionExecuted uuid string decimal decimal nat time
  | OrderMatched uuid fill fill decimal decimal
  | BatchSubmitted uuid uuid string nat bytes
  | BatchConfirmed uuid string
  | BatchSettled uuid nat string
  | PairRegistered string string string decimal decimal "nat option" nat nat
  | PairSuspended string
  | PairDelisted string
  | BatchFolded uuid nat string bytes

fun event_type_of :: "event_data \<Rightarrow> event_type" where
  "event_type_of (OrderPlaced _ _ _ _) = OrderPlacedT"
| "event_type_of (OrderCancelled _ _) = OrderCancelledT"
| "event_type_of (OrderExpired _) = OrderExpiredT"
| "event_type_of (AuctionExecuted _ _ _ _ _ _) = AuctionExecutedT"
| "event_type_of (OrderMatched _ _ _ _ _) = OrderMatchedT"
| "event_type_of (BatchSubmitted _ _ _ _ _) = BatchSubmittedT"
| "event_type_of (BatchConfirmed _ _) = BatchConfirmedT"
| "event_type_of (BatchSettled _ _ _) = BatchSettledT"
| "event_type_of (PairRegistered _ _ _ _ _ _ _ _) = PairRegisteredT"
| "event_type_of (PairSuspended _) = PairSuspendedT"
| "event_type_of (PairDelisted _) = PairDelistedT"
| "event_type_of (BatchFolded _ _ _ _) = BatchFoldedT"

record event =
  ev_seq :: nat
  ev_type :: event_type
  ev_timestamp :: time
  ev_data :: event_data

datatype event_error =
    LimitMustBePositive
  | IoError
  | BincodeError
  | CorruptEvent nat

text \<open>An event before it reaches a store: the literal every caller builds.\<close>

definition new_event :: "event_data \<Rightarrow> event" where
  "new_event d = \<lparr>ev_seq = 0, ev_type = event_type_of d, ev_timestamp = 0, ev_data = d\<rparr>"

section \<open>The store trait\<close>

record 'st store_ops =
  st_append :: "clock \<Rightarrow> event list \<Rightarrow> 'st \<Rightarrow> 'st \<times> (event_error + event list)"
  st_read_from :: "nat \<Rightarrow> nat \<Rightarrow> 'st \<Rightarrow> event_error + event list"
  st_last_seq :: "'st \<Rightarrow> nat"
  st_compact_before :: "nat \<Rightarrow> 'st \<Rightarrow> 'st \<times> (event_error + unit)"

definition assign_seq_and_timestamp :: "clock \<Rightarrow> event \<Rightarrow> nat \<Rightarrow> event \<times> nat" where
  "assign_seq_and_timestamp clk e sq =
     (let sq' = (sq + 1) mod 2 ^ 64 in
      (e\<lparr>ev_seq := sq', ev_timestamp := (if ev_timestamp e = 0 then clk sq' else ev_timestamp e)\<rparr>, sq'))"

fun assign_all :: "clock \<Rightarrow> event list \<Rightarrow> nat \<Rightarrow> event list \<times> nat" where
  "assign_all clk [] sq = ([], sq)"
| "assign_all clk (e # es) sq =
     (case assign_seq_and_timestamp clk e sq of (e', sq') \<Rightarrow>
        case assign_all clk es sq' of (es', sq'') \<Rightarrow> (e' # es', sq''))"

text \<open>
  \<^verbatim>\<open>slice::partition_point\<close> on a log sorted by sequence number: the number of leading events for
  which the predicate holds.
\<close>

definition index_after :: "event list \<Rightarrow> nat \<Rightarrow> nat" where
  "index_after events after_seq =
     (if after_seq = 0 then 0 else length (takeWhile (\<lambda>e. ev_seq e \<le> after_seq) events))"

definition read_slice :: "event list \<Rightarrow> nat \<Rightarrow> nat \<Rightarrow> event_error + event list" where
  "read_slice events after_seq limit =
     (if limit = 0 then Inl LimitMustBePositive
      else
        let start = index_after events after_seq in
        if length events \<le> start then Inr []
        else let fin = min (start + limit) (length events) in Inr (take (fin - start) (drop start events)))"

section \<open>The in-memory store\<close>

record mem_store =
  ms_events :: "event list"
  ms_seq :: nat

definition mem_new :: mem_store where
  "mem_new = \<lparr>ms_events = [], ms_seq = 0\<rparr>"

fun mem_append_loop :: "clock \<Rightarrow> event list \<Rightarrow> mem_store \<Rightarrow> mem_store \<times> event list" where
  "mem_append_loop clk [] s = (s, [])"
| "mem_append_loop clk (e # es) s =
     (case assign_seq_and_timestamp clk e (ms_seq s) of (e', sq') \<Rightarrow>
        case mem_append_loop clk es (s\<lparr>ms_seq := sq', ms_events := ms_events s @ [e']\<rparr>) of
          (s', es') \<Rightarrow> (s', e' # es'))"

definition mem_append :: "clock \<Rightarrow> event list \<Rightarrow> mem_store \<Rightarrow> mem_store \<times> (event_error + event list)" where
  "mem_append clk es s = (case mem_append_loop clk es s of (s', es') \<Rightarrow> (s', Inr es'))"

definition mem_read_from :: "nat \<Rightarrow> nat \<Rightarrow> mem_store \<Rightarrow> event_error + event list" where
  "mem_read_from after_seq limit s = read_slice (ms_events s) after_seq limit"

definition mem_compact_before :: "nat \<Rightarrow> mem_store \<Rightarrow> mem_store \<times> (event_error + unit)" where
  "mem_compact_before before_seq s =
     (if before_seq = 0 then (s, Inr ())
      else (s\<lparr>ms_events := filter (\<lambda>e. before_seq \<le> ev_seq e) (ms_events s)\<rparr>, Inr ()))"

definition mem_ops :: "mem_store store_ops" where
  "mem_ops = \<lparr>st_append = mem_append, st_read_from = mem_read_from, st_last_seq = ms_seq,
              st_compact_before = mem_compact_before\<rparr>"

section \<open>Sequence numbers\<close>

lemma assign_seq_room:
  "sq + 1 < 2 ^ 64 \<Longrightarrow>
   assign_seq_and_timestamp clk e sq =
     (e\<lparr>ev_seq := sq + 1, ev_timestamp := (if ev_timestamp e = 0 then clk (sq + 1) else ev_timestamp e)\<rparr>, sq + 1)"
  by (simp add: assign_seq_and_timestamp_def)

lemma assign_all_props:
  assumes "assign_all clk es sq = (es', sq')" and "sq + length es < 2 ^ 64"
  shows "sq' = sq + length es" and "map ev_seq es' = [sq + 1 ..< sq + 1 + length es]"
    and "map ev_data es' = map ev_data es" and "map ev_type es' = map ev_type es"
  using assms
proof (induction es arbitrary: sq es' sq')
  case (Cons e es)
  {
    case 1
    then show ?case using Cons.IH(1) by (fastforce simp: assign_seq_room split: prod.splits)
  next
    case 2
    then obtain es'' where r: "assign_all clk es (sq + 1) = (es'', sq')" "ev_seq (hd es') = sq + 1" "es' = hd es' # es''"
      by (auto simp: assign_seq_room split: prod.splits)
    then have "map ev_seq es'' = [sq + 1 + 1 ..< sq + 1 + 1 + length es]" using Cons.IH(2) 2 by simp
    then have "map ev_seq es' = (sq + 1) # [sq + 1 + 1 ..< sq + 1 + 1 + length es]"
      using r by (metis list.simps(9))
    then show ?case by (simp add: upt_rec)
  next
    case 3
    then show ?case using Cons.IH(3) by (fastforce simp: assign_seq_room split: prod.splits)
  next
    case 4
    then show ?case using Cons.IH(4) by (fastforce simp: assign_seq_room split: prod.splits)
  }
qed simp_all

lemma takeWhile_sorted_drop:
  "sorted_wrt (<) (map f xs) \<Longrightarrow> drop (length (takeWhile (\<lambda>x. f x \<le> a) xs)) xs = filter (\<lambda>x. a < (f x :: 'b :: linorder)) xs"
proof (induction xs)
  case (Cons x xs)
  show ?case
  proof (cases "f x \<le> a")
    case False
    then have "\<forall>y\<in>set xs. a < f y" using Cons.prems by auto
    with False show ?thesis by (simp add: filter_id_conv)
  qed (use Cons in auto)
qed simp

text \<open>The log of a store: strictly increasing positive sequence numbers.\<close>

definition log_ok :: "event list \<Rightarrow> nat \<Rightarrow> bool" where
  "log_ok es sq \<longleftrightarrow> sorted_wrt (<) (map ev_seq es) \<and> (\<forall>e\<in>set es. 0 < ev_seq e \<and> ev_seq e \<le> sq) \<and> sq < 2 ^ 64"

lemma read_slice_ok:
  assumes "log_ok es sq"
  shows "read_slice es a limit =
    (if limit = 0 then Inl LimitMustBePositive else Inr (take limit (filter (\<lambda>e. a < ev_seq e) es)))"
proof -
  have all: "filter (\<lambda>e. 0 < ev_seq e) es = es" using assms by (simp add: log_ok_def filter_id_conv)
  have d: "drop (index_after es a) es = filter (\<lambda>e. a < ev_seq e) es"
  proof (cases "a = 0")
    case True
    then show ?thesis by (simp add: index_after_def all)
  next
    case False
    then show ?thesis using takeWhile_sorted_drop [of ev_seq es a] assms by (simp add: index_after_def log_ok_def)
  qed
  show ?thesis
  proof (cases "length es \<le> index_after es a")
    case True
    then have "filter (\<lambda>e. a < ev_seq e) es = []" using d by simp
    with True show ?thesis by (simp add: read_slice_def Let_def)
  next
    case False
    then have "take (min (index_after es a + limit) (length es) - index_after es a) (drop (index_after es a) es) =
        take limit (drop (index_after es a) es)"
      by (simp add: min_def)
    with False d show ?thesis by (simp add: read_slice_def Let_def)
  qed
qed

lemma log_ok_append:
  assumes "log_ok es sq" and "assign_all clk new sq = (new', sq')" and "sq + length new < 2 ^ 64"
  shows "log_ok (es @ new') sq'"
proof -
  note p = assign_all_props [OF assms(2,3)]
  have n: "ev_seq e \<in> {sq + 1 ..< sq + 1 + length new}" if "e \<in> set new'" for e
    using p(2) that by (metis image_eqI set_map set_upt)
  have "sorted_wrt (<) (map ev_seq new')" unfolding p(2) by (rule sorted_wrt_upt)
  moreover have "ev_seq e < ev_seq e'" if "e \<in> set es" "e' \<in> set new'" for e e'
  proof -
    have "ev_seq e \<le> sq" using assms(1) that(1) by (simp add: log_ok_def)
    then show ?thesis using n [OF that(2)] by simp
  qed
  moreover have "0 < ev_seq e \<and> ev_seq e \<le> sq'" if "e \<in> set (es @ new')" for e
    using that n [of e] assms(1) by (auto simp: log_ok_def p(1) trans_le_add1)
  ultimately show ?thesis using assms(1,3) by (simp add: log_ok_def sorted_wrt_append p(1))
qed

lemma log_ok_filter: "log_ok es sq \<Longrightarrow> log_ok (filter P es) sq"
  by (auto simp: log_ok_def sorted_wrt_map sorted_wrt_filter)

lemma sorted_le_last: "sorted_wrt (<) (map f xs) \<Longrightarrow> x \<in> set xs \<Longrightarrow> f x \<le> (f (last xs) :: 'b :: linorder)"
  by (induction xs) (auto simp: less_imp_le)

lemma sorted_page:
  assumes "sorted_wrt (<) (map f fs)" and "take n fs \<noteq> []"
  shows "filter (\<lambda>e. (f (last (take n fs)) :: 'b :: linorder) < f e) fs = drop n fs"
proof -
  have s: "sorted_wrt (<) (map f (take n fs @ drop n fs))" using assms(1) by simp
  then have "sorted_wrt (<) (map f (take n fs))" by (metis map_append sorted_wrt_append)
  then have "filter (\<lambda>e. f (last (take n fs)) < f e) (take n fs) = []"
    using sorted_le_last [of f "take n fs"] by (fastforce simp: filter_empty_conv)
  moreover have "\<forall>e\<in>set (drop n fs). f (last (take n fs)) < f e"
    using s last_in_set [OF assms(2)] unfolding map_append sorted_wrt_append by simp
  then have "filter (\<lambda>e. f (last (take n fs)) < f e) (drop n fs) = drop n fs" by (simp add: filter_id_conv)
  ultimately have "filter (\<lambda>e. f (last (take n fs)) < f e) (take n fs @ drop n fs) = drop n fs"
    by (simp del: append_take_drop_id)
  then show ?thesis by simp
qed

section \<open>What every backend promises\<close>

text \<open>
  \<open>log\<close> is what the store would return to a reader, \<open>inv\<close> its invariant. A failed append may burn
  the sequence numbers of its events, but the log a reader sees does not change.
\<close>

locale event_store =
  fixes ops :: "'st store_ops" and log :: "'st \<Rightarrow> event list" and inv :: "'st \<Rightarrow> bool"
  assumes log_wf: "inv s \<Longrightarrow> log_ok (log s) (st_last_seq ops s)"
    and read_law: "inv s \<Longrightarrow> st_read_from ops a limit s =
      (if limit = 0 then Inl LimitMustBePositive else Inr (take limit (filter (\<lambda>e. a < ev_seq e) (log s))))"
    and append_ok: "inv s \<Longrightarrow> st_last_seq ops s + length es < 2 ^ 64 \<Longrightarrow> st_append ops clk es s = (s', Inr es') \<Longrightarrow>
      assign_all clk es (st_last_seq ops s) = (es', st_last_seq ops s') \<and> log s' = log s @ es' \<and> inv s'"
    and append_err: "inv s \<Longrightarrow> st_last_seq ops s + length es < 2 ^ 64 \<Longrightarrow> st_append ops clk es s = (s', Inl err) \<Longrightarrow>
      log s' = log s \<and> st_last_seq ops s \<le> st_last_seq ops s' \<and>
      st_last_seq ops s' \<le> st_last_seq ops s + length es \<and> inv s'"
    and compact_ok: "inv s \<Longrightarrow> st_compact_before ops b s = (s', Inr u) \<Longrightarrow>
      log s' = filter (\<lambda>e. b \<le> ev_seq e) (log s) \<and> st_last_seq ops s' = st_last_seq ops s \<and> inv s'"
    and compact_err: "inv s \<Longrightarrow> st_compact_before ops b s = (s', Inl err) \<Longrightarrow>
      log s' = log s \<and> st_last_seq ops s' = st_last_seq ops s \<and> inv s'"
begin

lemma append_seq:
  assumes "inv s" and "st_last_seq ops s + length es < 2 ^ 64" and "st_append ops clk es s = (s', Inr es')"
  shows "st_last_seq ops s' = st_last_seq ops s + length es"
    and "map ev_seq es' = [st_last_seq ops s + 1 ..< st_last_seq ops s + 1 + length es]"
    and "map ev_data es' = map ev_data es" and "length es' = length es"
proof -
  have a: "assign_all clk es (st_last_seq ops s) = (es', st_last_seq ops s')" using append_ok [OF assms] by simp
  show "st_last_seq ops s' = st_last_seq ops s + length es"
    "map ev_seq es' = [st_last_seq ops s + 1 ..< st_last_seq ops s + 1 + length es]"
    "map ev_data es' = map ev_data es"
    using assign_all_props [OF a assms(2)] by simp_all
  then show "length es' = length es" by (metis length_map)
qed

lemma append_new_above:
  assumes "inv s" and "st_last_seq ops s + length es < 2 ^ 64" and "st_append ops clk es s = (s', Inr es')"
    and "e \<in> set es'"
  shows "st_last_seq ops s < ev_seq e" and "ev_seq e \<le> st_last_seq ops s'"
proof -
  have "ev_seq e \<in> set [st_last_seq ops s + 1 ..< st_last_seq ops s + 1 + length es]"
    using append_seq(2) [OF assms(1-3)] assms(4) by (metis image_eqI set_map)
  then show "st_last_seq ops s < ev_seq e" "ev_seq e \<le> st_last_seq ops s'"
    using append_seq(1) [OF assms(1-3)] by auto
qed

lemma read_all: "inv s \<Longrightarrow> length (log s) \<le> limit \<Longrightarrow> 0 < limit \<Longrightarrow> st_read_from ops 0 limit s = Inr (log s)"
  using log_wf [of s] by (simp add: read_law log_ok_def filter_id_conv)

lemma read_new:
  assumes "inv s" and "st_last_seq ops s + length es < 2 ^ 64" and "st_append ops clk es s = (s', Inr es')"
    and "length es \<le> limit" and "0 < limit"
  shows "st_read_from ops (st_last_seq ops s) limit s' = Inr es'"
proof -
  have "filter (\<lambda>e. st_last_seq ops s < ev_seq e) (log s) = []"
    using log_wf [OF assms(1)] by (auto simp: filter_empty_conv log_ok_def)
  moreover have "filter (\<lambda>e. st_last_seq ops s < ev_seq e) es' = es'"
    using append_new_above(1) [OF assms(1-3)] by (simp add: filter_id_conv)
  ultimately show ?thesis
    using append_ok [OF assms(1-3)] append_seq(4) [OF assms(1-3)] assms(4,5) by (simp add: read_law)
qed

text \<open>
  Reading page by page: the next page starts after the last event of the one before, and the
  pages together are everything after the first position.
\<close>

lemma next_page:
  assumes "inv s" and "0 < limit" and "st_read_from ops a limit s = Inr es" and "es \<noteq> []"
  shows "filter (\<lambda>e. a < ev_seq e) (log s) = es @ filter (\<lambda>e. ev_seq (last es) < ev_seq e) (log s)"
    and "a < ev_seq (last es)"
proof -
  define fs where "fs = filter (\<lambda>e. a < ev_seq e) (log s)"
  have es: "es = take limit fs" using assms(1-3) by (simp add: read_law fs_def)
  have srt: "sorted_wrt (<) (map ev_seq fs)"
    using log_wf [OF assms(1)] log_ok_filter unfolding fs_def log_ok_def by blast
  have last: "last es \<in> set fs" using assms(4) es by (metis in_set_takeD last_in_set)
  then show lt: "a < ev_seq (last es)" by (simp add: fs_def)
  have "filter (\<lambda>e. ev_seq (last es) < ev_seq e) (log s) = filter (\<lambda>e. ev_seq (last es) < ev_seq e) fs"
    using lt by (auto simp: fs_def intro: filter_cong)
  also have "\<dots> = drop limit fs" using sorted_page [OF srt] assms(4) by (simp add: es)
  finally show "filter (\<lambda>e. a < ev_seq e) (log s) = es @ filter (\<lambda>e. ev_seq (last es) < ev_seq e) (log s)"
    by (simp add: es flip: fs_def)
qed

end

definition mem_inv :: "mem_store \<Rightarrow> bool" where
  "mem_inv s \<longleftrightarrow> log_ok (ms_events s) (ms_seq s)"

lemma mem_append_loop_assign:
  "mem_append_loop clk es s =
     (case assign_all clk es (ms_seq s) of (es', sq') \<Rightarrow> (s\<lparr>ms_seq := sq', ms_events := ms_events s @ es'\<rparr>, es'))"
  by (induction es arbitrary: s) (simp_all split: prod.splits)

interpretation mem: event_store mem_ops ms_events mem_inv
proof
  fix s s' :: mem_store and es es' clk a limit b err u
  show "mem_inv s \<Longrightarrow> log_ok (ms_events s) (st_last_seq mem_ops s)"
    by (simp add: mem_inv_def mem_ops_def)
  show "mem_inv s \<Longrightarrow> st_read_from mem_ops a limit s =
      (if limit = 0 then Inl LimitMustBePositive else Inr (take limit (filter (\<lambda>e. a < ev_seq e) (ms_events s))))"
    by (simp add: mem_inv_def mem_ops_def mem_read_from_def read_slice_ok)
  show "assign_all clk es (st_last_seq mem_ops s) = (es', st_last_seq mem_ops s') \<and>
      ms_events s' = ms_events s @ es' \<and> mem_inv s'"
    if "mem_inv s" "st_last_seq mem_ops s + length es < 2 ^ 64" "st_append mem_ops clk es s = (s', Inr es')"
    using that log_ok_append [of "ms_events s" "ms_seq s" clk es]
    by (auto simp: mem_ops_def mem_append_def mem_append_loop_assign mem_inv_def split: prod.splits)
qed (auto simp: mem_ops_def mem_append_def mem_compact_before_def mem_inv_def log_ok_filter
      split: prod.splits if_splits intro!: filter_True [symmetric])

end
