(* ===== verification/Book.thy ===== *)
theory Book
  imports Events
begin

text \<open>
  The order book of the crate \<^verbatim>\<open>dp-book\<close>: one sub-book per trading pair, each a pair of hash maps
  from order id to order, and the sequence number of the last event applied. The methods of
  \<^verbatim>\<open>OrderBook\<close> and \<^verbatim>\<open>Inner\<close> keep their names; \<open>None\<close> is a decimal overflow panic. The proofs see the
  book as one flat map from id to order (\<open>flat\<close>), which is what \<^verbatim>\<open>find_order\<close> searches.
\<close>

section \<open>The code\<close>

record per_pair_book =
  pb_bids :: "(uuid, order) hash_map"
  pb_asks :: "(uuid, order) hash_map"

record book =
  books :: "(string, per_pair_book) hash_map"
  book_seq :: nat

definition pb_is_empty :: "per_pair_book \<Rightarrow> bool" where
  "pb_is_empty pb \<longleftrightarrow> pb_bids pb = [] \<and> pb_asks pb = []"

definition pb_default :: per_pair_book where
  "pb_default = \<lparr>pb_bids = [], pb_asks = []\<rparr>"

definition book_new :: book where
  "book_new = \<lparr>books = [], book_seq = 0\<rparr>"

definition insert_order :: "order \<Rightarrow> book \<Rightarrow> book" where
  "insert_order ord b =
     (let pb = (case hm_get (books b) (order_pair ord) of Some pb \<Rightarrow> pb | None \<Rightarrow> pb_default);
          pb' = (case order_side ord of
                   Buy \<Rightarrow> pb\<lparr>pb_bids := hm_insert (order_id ord) ord (pb_bids pb)\<rparr>
                 | Sell \<Rightarrow> pb\<lparr>pb_asks := hm_insert (order_id ord) ord (pb_asks pb)\<rparr>)
      in b\<lparr>books := hm_insert (order_pair ord) pb' (books b)\<rparr>)"

definition book_bids :: "book \<Rightarrow> string \<Rightarrow> order list" where
  "book_bids b pair = (case hm_get (books b) pair of None \<Rightarrow> [] | Some pb \<Rightarrow> sort_bids (hm_values (pb_bids pb)))"

definition book_asks :: "book \<Rightarrow> string \<Rightarrow> order list" where
  "book_asks b pair = (case hm_get (books b) pair of None \<Rightarrow> [] | Some pb \<Rightarrow> sort_asks (hm_values (pb_asks pb)))"

definition iter_all :: "book \<Rightarrow> order list" where
  "iter_all b = concat (map (\<lambda>pb. hm_values (pb_bids pb) @ hm_values (pb_asks pb)) (hm_values (books b)))"

definition book_pairs :: "book \<Rightarrow> string list" where
  "book_pairs b = hm_keys (books b)"

definition collect_expired :: "time \<Rightarrow> book \<Rightarrow> event list" where
  "collect_expired now b =
     concat (map (\<lambda>pb. map (\<lambda>ord. new_event (OrderExpired (order_id ord)))
         (filter (\<lambda>ord. expires_at ord \<noteq> 0 \<and> expires_at ord \<le> now) (hm_values (pb_bids pb) @ hm_values (pb_asks pb))))
       (hm_values (books b)))"

fun find_in :: "per_pair_book list \<Rightarrow> uuid \<Rightarrow> order option" where
  "find_in [] i = None"
| "find_in (pb # pbs) i =
     (case (case hm_get (pb_bids pb) i of Some ord \<Rightarrow> Some ord | None \<Rightarrow> hm_get (pb_asks pb) i) of
        Some ord \<Rightarrow> Some ord
      | None \<Rightarrow> find_in pbs i)"

definition find_order :: "book \<Rightarrow> uuid \<Rightarrow> order option" where
  "find_order b i = find_in (hm_values (books b)) i"

definition has_order :: "book \<Rightarrow> uuid \<Rightarrow> bool" where
  "has_order b i = list_ex (\<lambda>pb. hm_contains (pb_bids pb) i \<or> hm_contains (pb_asks pb) i) (hm_values (books b))"

definition active_order_count :: "book \<Rightarrow> nat" where
  "active_order_count b =
     sum_list (map (\<lambda>pb. length (pb_bids pb) + length (pb_asks pb)) (hm_values (books b)))"

definition active_order_count_for_trader :: "book \<Rightarrow> address \<Rightarrow> nat" where
  "active_order_count_for_trader b t =
     sum_list (map (\<lambda>pb. length (filter (\<lambda>ord. trader ord = t) (hm_values (pb_bids pb)))
                        + length (filter (\<lambda>ord. trader ord = t) (hm_values (pb_asks pb)))) (hm_values (books b)))"

definition len_for :: "book \<Rightarrow> string \<Rightarrow> nat" where
  "len_for b pair = (case hm_get (books b) pair of None \<Rightarrow> 0 | Some pb \<Rightarrow> length (pb_bids pb) + length (pb_asks pb))"

definition order_ids_for :: "book \<Rightarrow> string \<Rightarrow> uuid list" where
  "order_ids_for b pair =
     (case hm_get (books b) pair of None \<Rightarrow> [] | Some pb \<Rightarrow> hm_keys (pb_bids pb) @ hm_keys (pb_asks pb))"

text \<open>
  The loop over the sub-books in \<^verbatim>\<open>remove_order\<close> and \<^verbatim>\<open>apply_fill\<close> stops at the first one that holds the
  order and notes its pair when nothing is left in it.
\<close>

fun remove_loop :: "uuid \<Rightarrow> (string, per_pair_book) hash_map \<Rightarrow> (string, per_pair_book) hash_map \<times> string option" where
  "remove_loop i [] = ([], None)"
| "remove_loop i ((p, pb) # bs) =
     (if hm_contains (pb_bids pb) i then
        let pb' = pb\<lparr>pb_bids := hm_remove i (pb_bids pb)\<rparr>
        in ((p, pb') # bs, if pb_is_empty pb' then Some p else None)
      else if hm_contains (pb_asks pb) i then
        let pb' = pb\<lparr>pb_asks := hm_remove i (pb_asks pb)\<rparr>
        in ((p, pb') # bs, if pb_is_empty pb' then Some p else None)
      else (case remove_loop i bs of (bs', emptied) \<Rightarrow> ((p, pb) # bs', emptied)))"

definition drop_emptied :: "(string, per_pair_book) hash_map \<times> string option \<Rightarrow> (string, per_pair_book) hash_map" where
  "drop_emptied r = (case r of (bs, None) \<Rightarrow> bs | (bs, Some p) \<Rightarrow> hm_remove p bs)"

definition remove_order :: "uuid \<Rightarrow> book \<Rightarrow> book" where
  "remove_order i b = b\<lparr>books := drop_emptied (remove_loop i (books b))\<rparr>"

text \<open>What \<^verbatim>\<open>apply_fill\<close> does to the side map that holds the order.\<close>

definition fill_side :: "dec_ops \<Rightarrow> fill \<Rightarrow> order \<Rightarrow> (uuid, order) hash_map \<Rightarrow> (uuid, order) hash_map option" where
  "fill_side D f ord m =
     (if remaining_size ord < fill_size f then Some m
      else do {
        r \<leftarrow> d_sub D (remaining_size ord) (fill_size f);
        if r \<le> 0 then Some (hm_remove (fill_order_id f) m)
        else Some (hm_insert (fill_order_id f) (ord\<lparr>remaining_size := r\<rparr>) m)
      })"

fun fill_loop ::
  "dec_ops \<Rightarrow> fill \<Rightarrow> (string, per_pair_book) hash_map
   \<Rightarrow> ((string, per_pair_book) hash_map \<times> string option) option" where
  "fill_loop D f [] = Some ([], None)"
| "fill_loop D f ((p, pb) # bs) =
     (case hm_get (pb_bids pb) (fill_order_id f) of
        Some ord \<Rightarrow> do {
          m \<leftarrow> fill_side D f ord (pb_bids pb);
          let pb' = pb\<lparr>pb_bids := m\<rparr>;
          Some ((p, pb') # bs, if pb_is_empty pb' then Some p else None)
        }
      | None \<Rightarrow>
         (case hm_get (pb_asks pb) (fill_order_id f) of
            Some ord \<Rightarrow> do {
              m \<leftarrow> fill_side D f ord (pb_asks pb);
              let pb' = pb\<lparr>pb_asks := m\<rparr>;
              Some ((p, pb') # bs, if pb_is_empty pb' then Some p else None)
            }
          | None \<Rightarrow> do {
              (bs', emptied) \<leftarrow> fill_loop D f bs;
              Some ((p, pb) # bs', emptied)
            }))"

definition apply_fill :: "dec_ops \<Rightarrow> fill \<Rightarrow> book \<Rightarrow> book option" where
  "apply_fill D f b = do {
     r \<leftarrow> fill_loop D f (books b);
     Some (b\<lparr>books := drop_emptied r\<rparr>)
   }"

definition book_apply :: "dec_ops \<Rightarrow> event \<Rightarrow> book \<Rightarrow> book option" where
  "book_apply D e b =
     (if ev_seq e \<noteq> 0 \<and> ev_seq e \<le> book_seq b then Some b
      else
        let b = (if book_seq b < ev_seq e then b\<lparr>book_seq := ev_seq e\<rparr> else b) in
        case ev_data e of
          OrderCancelled i _ \<Rightarrow> Some (remove_order i b)
        | OrderExpired i \<Rightarrow> Some (remove_order i b)
        | OrderMatched _ bid ask _ _ \<Rightarrow> do { b' \<leftarrow> apply_fill D bid b; apply_fill D ask b' }
        | _ \<Rightarrow> Some b)"

fun book_apply_all :: "dec_ops \<Rightarrow> event list \<Rightarrow> book \<Rightarrow> book option" where
  "book_apply_all D [] b = Some b"
| "book_apply_all D (e # es) b = do { b' \<leftarrow> book_apply D e b; book_apply_all D es b' }"

text \<open>
  \<^verbatim>\<open>OrderBook::replay\<close>, with fuel for its loop: the outer \<open>None\<close> is no fuel left, the next \<open>None\<close> a panic.
\<close>

fun book_replay ::
  "nat \<Rightarrow> dec_ops \<Rightarrow> 'st store_ops \<Rightarrow> 'st \<Rightarrow> book \<Rightarrow> (event_error + book) option option" where
  "book_replay 0 D ops st b = None"
| "book_replay (Suc n) D ops st b =
     (case st_read_from ops (book_seq b) 1024 st of
        Inl e \<Rightarrow> Some (Some (Inl e))
      | Inr es \<Rightarrow>
          if es = [] then Some (Some (Inr b))
          else (case book_apply_all D es b of
                  None \<Rightarrow> Some None
                | Some b' \<Rightarrow> book_replay n D ops st b'))"

section \<open>The book as one map\<close>

definition flat :: "(string, per_pair_book) hash_map \<Rightarrow> (uuid, order) hash_map" where
  "flat bs = concat (map (\<lambda>(p, pb). pb_bids pb @ pb_asks pb) bs)"

definition entry_ok :: "string \<Rightarrow> side \<Rightarrow> uuid \<times> order \<Rightarrow> bool" where
  "entry_ok p s e \<longleftrightarrow> order_id (snd e) = fst e \<and> order_pair (snd e) = p \<and> order_side (snd e) = s \<and> 0 < remaining_size (snd e)"

definition sub_book_ok :: "string \<times> per_pair_book \<Rightarrow> bool" where
  "sub_book_ok e \<longleftrightarrow> list_all (entry_ok (fst e) Buy) (pb_bids (snd e)) \<and>
     list_all (entry_ok (fst e) Sell) (pb_asks (snd e)) \<and> \<not> pb_is_empty (snd e)"

definition book_ok :: "book \<Rightarrow> bool" where
  "book_ok b \<longleftrightarrow> hm_ok (books b) \<and> hm_ok (flat (books b)) \<and> list_all sub_book_ok (books b)"

lemma flat_simps [simp]:
  "flat [] = []" "flat ((p, pb) # bs) = pb_bids pb @ pb_asks pb @ flat bs" "flat (bs @ cs) = flat bs @ flat cs"
  by (simp_all add: flat_def)

lemma find_in_flat: "find_in (hm_values bs) i = hm_get (flat bs) i"
  by (induction bs) (auto simp: map_add_def split: option.splits)

lemma find_order_flat: "find_order b i = hm_get (flat (books b)) i"
  by (simp add: find_order_def find_in_flat)

definition books_ok :: "(string, per_pair_book) hash_map \<Rightarrow> bool" where
  "books_ok bs \<longleftrightarrow> hm_ok bs \<and> hm_ok (flat bs) \<and> list_all sub_book_ok bs"

lemma book_ok_books: "book_ok b \<longleftrightarrow> books_ok (books b)"
  by (simp add: book_ok_def books_ok_def)

text \<open>
  Both loops change at most the first sub-book that holds the order. \<open>swap_sub\<close> is the list of
  sub-books after its replacement, the pair dropped when nothing is left in it.
\<close>

definition swap_sub ::
  "(string, per_pair_book) hash_map \<Rightarrow> string \<Rightarrow> per_pair_book \<Rightarrow> (string, per_pair_book) hash_map
   \<Rightarrow> (string, per_pair_book) hash_map" where
  "swap_sub pre p pb post = (if pb_is_empty pb then pre @ post else pre @ (p, pb) # post)"

lemma drop_emptied_swap:
  assumes "hm_ok (pre @ (p, pb) # post)"
  shows "drop_emptied (pre @ (p, pb') # post, if pb_is_empty pb' then Some p else None) = swap_sub pre p pb' post"
proof -
  have "p \<notin> hm_dom pre" "p \<notin> hm_dom post" using assms by (auto simp: hm_dom_def)
  then show ?thesis by (simp add: drop_emptied_def swap_sub_def hm_remove_append hm_remove_other)
qed

lemma flat_swap: "flat (swap_sub pre p pb post) = flat pre @ (pb_bids pb @ pb_asks pb) @ flat post"
  by (simp add: swap_sub_def pb_is_empty_def)

lemma books_ok_swap:
  assumes "books_ok (pre @ (p, pb) # post)"
    and "hm_dom (pb_bids pb' @ pb_asks pb') \<subseteq> hm_dom (pb_bids pb @ pb_asks pb)"
    and "hm_ok (pb_bids pb' @ pb_asks pb')"
    and "list_all (entry_ok p Buy) (pb_bids pb')" and "list_all (entry_ok p Sell) (pb_asks pb')"
  shows "books_ok (swap_sub pre p pb' post)"
proof -
  have d: "hm_ok (flat pre @ (pb_bids pb @ pb_asks pb) @ flat post)" using assms(1) by (simp add: books_ok_def)
  have "hm_ok (flat (swap_sub pre p pb' post))"
    using d assms(2,3) unfolding flat_swap hm_ok_append hm_dom_append by blast
  moreover have "hm_ok (swap_sub pre p pb' post)" using assms(1) by (auto simp: books_ok_def swap_sub_def)
  moreover have "list_all sub_book_ok (swap_sub pre p pb' post)"
    using assms(1,4,5) by (auto simp: books_ok_def swap_sub_def sub_book_ok_def)
  ultimately show ?thesis by (simp add: books_ok_def)
qed

lemma flat_split:
  assumes "i \<in> hm_dom (flat bs)"
  obtains pre p pb post where "bs = pre @ (p, pb) # post" and "i \<notin> hm_dom (flat pre)"
    and "i \<in> hm_dom (pb_bids pb) \<or> i \<in> hm_dom (pb_asks pb)"
proof -
  have "\<exists>e\<in>set bs. i \<in> hm_dom (pb_bids (snd e) @ pb_asks (snd e))"
    using assms by (induction bs) auto
  then obtain pre e post where s: "bs = pre @ e # post" "i \<in> hm_dom (pb_bids (snd e) @ pb_asks (snd e))"
    "\<forall>e\<in>set pre. i \<notin> hm_dom (pb_bids (snd e) @ pb_asks (snd e))"
    by (rule split_list_first_propE)
  have "i \<notin> hm_dom (flat pre)" using s(3) by (induction pre) auto
  with s that [of pre "fst e" "snd e" post] show ?thesis by auto
qed

definition remove_sub :: "uuid \<Rightarrow> per_pair_book \<Rightarrow> per_pair_book" where
  "remove_sub i pb =
     (if hm_contains (pb_bids pb) i then pb\<lparr>pb_bids := hm_remove i (pb_bids pb)\<rparr>
      else pb\<lparr>pb_asks := hm_remove i (pb_asks pb)\<rparr>)"

lemma remove_loop_hit:
  assumes "i \<notin> hm_dom (flat pre)" and "i \<in> hm_dom (pb_bids pb) \<or> i \<in> hm_dom (pb_asks pb)"
  shows "remove_loop i (pre @ (p, pb) # post) =
    (pre @ (p, remove_sub i pb) # post, if pb_is_empty (remove_sub i pb) then Some p else None)"
  using assms by (induction pre) (auto simp: remove_sub_def hm_dom_get Let_def simp del: not_None_eq)

lemma remove_loop_miss: "i \<notin> hm_dom (flat bs) \<Longrightarrow> remove_loop i bs = (bs, None)"
  by (induction bs) (auto simp: hm_dom_get simp del: not_None_eq)

lemma sub_book_at:
  assumes "books_ok (pre @ (p, pb) # post)"
  shows "hm_ok (pb_bids pb @ pb_asks pb)" and "sub_book_ok (p, pb)"
    and "hm_dom (pb_bids pb @ pb_asks pb) \<inter> hm_dom (flat post) = {}"
    and "hm_ok (pre @ (p, pb) # post)"
  using assms by (auto simp: books_ok_def hm_ok_append disjoint_iff simp del: map_append)

lemma remove_books:
  assumes "books_ok bs"
  shows "flat (drop_emptied (remove_loop i bs)) = hm_remove i (flat bs) \<and> books_ok (drop_emptied (remove_loop i bs))"
proof (cases "i \<in> hm_dom (flat bs)")
  case True
  then obtain pre p pb post where s: "bs = pre @ (p, pb) # post" and i: "i \<notin> hm_dom (flat pre)"
    "i \<in> hm_dom (pb_bids pb) \<or> i \<in> hm_dom (pb_asks pb)" by (rule flat_split)
  note at = sub_book_at [OF assms [unfolded s]]
  have r: "drop_emptied (remove_loop i bs) = swap_sub pre p (remove_sub i pb) post"
    unfolding s remove_loop_hit [OF i] by (rule drop_emptied_swap [OF at(4)])
  have e: "pb_bids (remove_sub i pb) @ pb_asks (remove_sub i pb) = hm_remove i (pb_bids pb @ pb_asks pb)"
  proof (cases "i \<in> hm_dom (pb_bids pb)")
    case True
    then have "i \<notin> hm_dom (pb_asks pb)" using at(1) unfolding hm_ok_append by blast
    with True show ?thesis by (simp add: remove_sub_def hm_dom_get hm_remove_append hm_remove_other del: not_None_eq)
  qed (simp add: remove_sub_def hm_dom_get hm_remove_append hm_remove_other del: not_None_eq)
  have "i \<notin> hm_dom (flat post)" using at(3) i(2) by auto
  then have "flat (swap_sub pre p (remove_sub i pb) post) = hm_remove i (flat bs)"
    unfolding flat_swap e using i(1) by (simp add: s hm_remove_append hm_remove_other)
  moreover have "books_ok (swap_sub pre p (remove_sub i pb) post)"
  proof (rule books_ok_swap [OF assms [unfolded s]], unfold e)
    show "hm_ok (hm_remove i (pb_bids pb @ pb_asks pb))" using at(1) by (rule hm_ok_remove)
    show "hm_dom (hm_remove i (pb_bids pb @ pb_asks pb)) \<subseteq> hm_dom (pb_bids pb @ pb_asks pb)" by auto
  qed (use at(2) in \<open>auto simp: sub_book_ok_def remove_sub_def intro: list_all_hm_remove\<close>)
  ultimately show ?thesis by (simp add: r)
qed (simp add: remove_loop_miss drop_emptied_def hm_remove_other assms)

definition fill_sub :: "dec_ops \<Rightarrow> fill \<Rightarrow> per_pair_book \<Rightarrow> per_pair_book option" where
  "fill_sub D f pb =
     (case hm_get (pb_bids pb) (fill_order_id f) of
        Some ord \<Rightarrow> map_option (\<lambda>m. pb\<lparr>pb_bids := m\<rparr>) (fill_side D f ord (pb_bids pb))
      | None \<Rightarrow> (case hm_get (pb_asks pb) (fill_order_id f) of
          Some ord \<Rightarrow> map_option (\<lambda>m. pb\<lparr>pb_asks := m\<rparr>) (fill_side D f ord (pb_asks pb))
        | None \<Rightarrow> Some pb))"

definition fill_map :: "dec_ops \<Rightarrow> fill \<Rightarrow> (uuid, order) hash_map \<Rightarrow> (uuid, order) hash_map option" where
  "fill_map D f m = (case hm_get m (fill_order_id f) of None \<Rightarrow> Some m | Some ord \<Rightarrow> fill_side D f ord m)"

lemma fill_loop_hit:
  assumes "fill_order_id f \<notin> hm_dom (flat pre)"
    and "fill_order_id f \<in> hm_dom (pb_bids pb) \<or> fill_order_id f \<in> hm_dom (pb_asks pb)"
  shows "fill_loop D f (pre @ (p, pb) # post) =
    map_option (\<lambda>pb'. (pre @ (p, pb') # post, if pb_is_empty pb' then Some p else None)) (fill_sub D f pb)"
  using assms
proof (induction pre)
  case Nil
  then have "hm_get (pb_bids pb) (fill_order_id f) \<noteq> None \<or> hm_get (pb_asks pb) (fill_order_id f) \<noteq> None"
    by (simp add: hm_dom_get del: not_None_eq)
  then show ?case
    by (cases "hm_get (pb_bids pb) (fill_order_id f)"; cases "hm_get (pb_asks pb) (fill_order_id f)")
       (simp_all add: fill_sub_def Let_def map_conv_bind_option)
next
  case (Cons e pre)
  obtain q c where e: "e = (q, c)" by (cases e)
  have "hm_get (pb_bids c) (fill_order_id f) = None" "hm_get (pb_asks c) (fill_order_id f) = None"
    using Cons.prems(1) by (simp_all add: e hm_dom_get)
  with Cons show ?case by (cases "fill_sub D f pb") (simp_all add: e)
qed

lemma fill_loop_miss: "fill_order_id f \<notin> hm_dom (flat bs) \<Longrightarrow> fill_loop D f bs = Some (bs, None)"
  by (induction bs) (auto simp: hm_dom_get [THEN iffD2])

lemma fill_side_append:
  "fill_order_id f \<in> hm_dom m \<Longrightarrow> fill_order_id f \<notin> hm_dom m' \<Longrightarrow>
     fill_side D f ord (m @ m') = map_option (\<lambda>x. x @ m') (fill_side D f ord m)"
  "fill_order_id f \<notin> hm_dom m \<Longrightarrow> fill_side D f ord (m @ m') = map_option (\<lambda>x. m @ x) (fill_side D f ord m')"
  by (auto simp: fill_side_def hm_remove_append hm_remove_other hm_insert_append split: bind_splits)

lemma hm_get_append:
  "hm_get (m @ m') k = (if k \<in> hm_dom m then hm_get m k else hm_get m' k)"
  using hm_dom_get(1) [of m k] by (auto simp: map_add_def split: option.splits)

lemma fill_side_ok:
  assumes "fill_side D f ord m = Some m'" and "hm_get m (fill_order_id f) = Some ord" and "hm_ok m"
    and "list_all (entry_ok p s) m"
  shows "hm_ok m'" and "hm_dom m' \<subseteq> hm_dom m" and "list_all (entry_ok p s) m'"
proof -
  have k: "fill_order_id f \<in> hm_dom m" using assms(2) hm_dom_get(1) [of m "fill_order_id f"] by auto
  have e: "entry_ok p s (fill_order_id f, ord)" using assms(4,2) by (rule list_all_hm_get)
  show "hm_ok m'" "hm_dom m' \<subseteq> hm_dom m" "list_all (entry_ok p s) m'"
    using assms(1,3,4) k e
    by (auto simp: fill_side_def entry_ok_def intro: list_all_hm_insert list_all_hm_remove distinct_update distinct_delete
        split: if_splits bind_splits)
qed

lemma fill_sub_flat:
  assumes "hm_ok (pb_bids pb @ pb_asks pb)" and "sub_book_ok (p, pb)"
  shows "map_option (\<lambda>pb. pb_bids pb @ pb_asks pb) (fill_sub D f pb) = fill_map D f (pb_bids pb @ pb_asks pb)"
    and "fill_sub D f pb = Some pb' \<Longrightarrow>
      hm_ok (pb_bids pb' @ pb_asks pb') \<and> hm_dom (pb_bids pb' @ pb_asks pb') \<subseteq> hm_dom (pb_bids pb @ pb_asks pb) \<and>
      list_all (entry_ok p Buy) (pb_bids pb') \<and> list_all (entry_ok p Sell) (pb_asks pb')"
proof -
  let ?i = "fill_order_id f"
  have d: "hm_ok (pb_bids pb)" "hm_ok (pb_asks pb)" "hm_dom (pb_bids pb) \<inter> hm_dom (pb_asks pb) = {}"
    using assms(1) unfolding hm_ok_append by blast+
  have l: "list_all (entry_ok p Buy) (pb_bids pb)" "list_all (entry_ok p Sell) (pb_asks pb)"
    using assms(2) by (simp_all add: sub_book_ok_def)
  consider ord where "hm_get (pb_bids pb) ?i = Some ord" "?i \<in> hm_dom (pb_bids pb)" "?i \<notin> hm_dom (pb_asks pb)"
    | ord where "hm_get (pb_asks pb) ?i = Some ord" "?i \<in> hm_dom (pb_asks pb)" "?i \<notin> hm_dom (pb_bids pb)"
    | "?i \<notin> hm_dom (pb_bids pb)" "?i \<notin> hm_dom (pb_asks pb)"
    using d(3) hm_get_dom by (metis disjoint_iff)
  note cs = this
  show "map_option (\<lambda>pb. pb_bids pb @ pb_asks pb) (fill_sub D f pb) = fill_map D f (pb_bids pb @ pb_asks pb)"
    by (cases rule: cs)
       (simp_all add: fill_sub_def fill_map_def hm_get_append fill_side_append option.map_comp o_def hm_dom_get [THEN iffD2]
          del: map_of_append)
  assume "fill_sub D f pb = Some pb'"
  then show "hm_ok (pb_bids pb' @ pb_asks pb') \<and> hm_dom (pb_bids pb' @ pb_asks pb') \<subseteq> hm_dom (pb_bids pb @ pb_asks pb) \<and>
      list_all (entry_ok p Buy) (pb_bids pb') \<and> list_all (entry_ok p Sell) (pb_asks pb')"
  proof (cases rule: cs)
    case (1 ord)
    with \<open>fill_sub D f pb = Some pb'\<close> obtain m where "fill_side D f ord (pb_bids pb) = Some m" "pb' = pb\<lparr>pb_bids := m\<rparr>"
      by (auto simp: fill_sub_def)
    with fill_side_ok [OF this(1) 1(1) d(1) l(1)] d l show ?thesis unfolding hm_ok_append by (auto simp: disjoint_iff)
  next
    case (2 ord)
    with \<open>fill_sub D f pb = Some pb'\<close> obtain m where "fill_side D f ord (pb_asks pb) = Some m" "pb' = pb\<lparr>pb_asks := m\<rparr>"
      by (auto simp: fill_sub_def hm_dom_get [THEN iffD2])
    with fill_side_ok [OF this(1) 2(1) d(2) l(2)] d l show ?thesis unfolding hm_ok_append by (auto simp: disjoint_iff)
  next
    case 3
    with \<open>fill_sub D f pb = Some pb'\<close> show ?thesis using assms(1) l by (simp add: fill_sub_def hm_dom_get [THEN iffD2])
  qed
qed

lemma fill_map_middle:
  assumes "fill_order_id f \<notin> hm_dom m" and "fill_order_id f \<notin> hm_dom m'" and "fill_order_id f \<in> hm_dom x"
  shows "fill_map D f (m @ x @ m') = map_option (\<lambda>y. m @ y @ m') (fill_map D f x)"
proof -
  obtain ord where "hm_get x (fill_order_id f) = Some ord" using hm_get_dom [OF assms(3)] by blast
  then show ?thesis
    using assms by (simp add: fill_map_def hm_get_append fill_side_append option.map_comp o_def del: map_of_append)
qed

lemma fill_books:
  assumes "books_ok bs"
  shows "map_option (\<lambda>r. flat (drop_emptied r)) (fill_loop D f bs) = fill_map D f (flat bs)"
    and "fill_loop D f bs = Some r \<Longrightarrow> books_ok (drop_emptied r)"
proof -
  let ?i = "fill_order_id f"
  have "map_option (\<lambda>r. flat (drop_emptied r)) (fill_loop D f bs) = fill_map D f (flat bs) \<and>
    (fill_loop D f bs = Some r \<longrightarrow> books_ok (drop_emptied r))"
  proof (cases "?i \<in> hm_dom (flat bs)")
    case True
    then obtain pre p pb post where s: "bs = pre @ (p, pb) # post" and i: "?i \<notin> hm_dom (flat pre)"
      "?i \<in> hm_dom (pb_bids pb) \<or> ?i \<in> hm_dom (pb_asks pb)" by (rule flat_split)
    note at = sub_book_at [OF assms [unfolded s]]
    note sub = fill_sub_flat [OF at(1,2), of D f]
    have "?i \<notin> hm_dom (flat post)" using at(3) i(2) by auto
    moreover have "?i \<in> hm_dom (pb_bids pb @ pb_asks pb)" using i(2) by simp
    ultimately have m: "fill_map D f (flat bs) =
        map_option (\<lambda>y. flat pre @ y @ flat post) (fill_map D f (pb_bids pb @ pb_asks pb))"
      using fill_map_middle [OF i(1), of "flat post" "pb_bids pb @ pb_asks pb" D] by (simp add: s)
    have l: "fill_loop D f bs =
        map_option (\<lambda>pb'. (pre @ (p, pb') # post, if pb_is_empty pb' then Some p else None)) (fill_sub D f pb)"
      unfolding s using i by (rule fill_loop_hit)
    show ?thesis
    proof (cases "fill_sub D f pb")
      case None
      then show ?thesis using m l sub(1) by simp
    next
      case (Some pb')
      then have x: "fill_map D f (pb_bids pb @ pb_asks pb) = Some (pb_bids pb' @ pb_asks pb')" using sub(1) by simp
      have "drop_emptied (pre @ (p, pb') # post, if pb_is_empty pb' then Some p else None) = swap_sub pre p pb' post"
        by (rule drop_emptied_swap [OF at(4)])
      moreover have "books_ok (swap_sub pre p pb' post)"
        using sub(2) [OF Some] by (intro books_ok_swap [OF assms [unfolded s]]) simp_all
      ultimately show ?thesis using m l Some x by (auto simp: flat_swap)
    qed
  qed (use assms in \<open>auto simp: fill_loop_miss fill_map_def hm_dom_get [THEN iffD2] drop_emptied_def\<close>)
  then show "map_option (\<lambda>r. flat (drop_emptied r)) (fill_loop D f bs) = fill_map D f (flat bs)"
    and "fill_loop D f bs = Some r \<Longrightarrow> books_ok (drop_emptied r)" by blast+
qed

text \<open>Insertion of a fresh order.\<close>

lemma hm_insert_split:
  assumes "hm_get m k = Some v"
  obtains pre post where "m = pre @ (k, v) # post" and "hm_insert k v' m = pre @ (k, v') # post"
proof -
  have "(k, v) \<in> set m" using assms by (rule map_of_SomeD)
  then have "\<exists>e\<in>set m. fst e = k" by force
  then obtain pre e post where s: "m = pre @ e # post" "fst e = k" "\<forall>e\<in>set pre. fst e \<noteq> k"
    by (rule split_list_first_propE)
  then have n: "k \<notin> hm_dom pre" by (auto simp: hm_dom_def)
  then have "e = (k, v)" using assms s(1,2) by (cases e) (simp add: hm_get_append del: map_of_append)
  with n s(1) show ?thesis by (intro that) (simp_all add: hm_insert_append)
qed

lemma insert_books:
  assumes "book_ok b" and "find_order b (order_id ord) = None" and "0 < remaining_size ord"
  shows "mset (flat (books (insert_order ord b))) = add_mset (order_id ord, ord) (mset (flat (books b)))"
    and "book_ok (insert_order ord b)"
proof -
  let ?i = "order_id ord" and ?p = "order_pair ord"
  define pb where "pb = (case hm_get (books b) ?p of Some pb \<Rightarrow> pb | None \<Rightarrow> pb_default)"
  define pb' where "pb' = (case order_side ord of
      Buy \<Rightarrow> pb\<lparr>pb_bids := hm_insert ?i ord (pb_bids pb)\<rparr> | Sell \<Rightarrow> pb\<lparr>pb_asks := hm_insert ?i ord (pb_asks pb)\<rparr>)"
  have b': "books (insert_order ord b) = hm_insert ?p pb' (books b)"
    unfolding insert_order_def pb'_def pb_def Let_def by simp
  have fresh: "?i \<notin> hm_dom (flat (books b))" using assms(2) by (simp add: find_order_flat hm_dom_get)
  have mem: "hm_get (books b) ?p = Some pb \<or> (hm_get (books b) ?p = None \<and> pb = pb_default)"
    by (auto simp: pb_def split: option.splits)
  then have pbd: "?i \<notin> hm_dom (pb_bids pb)" "?i \<notin> hm_dom (pb_asks pb)" and
    le: "list_all (entry_ok ?p Buy) (pb_bids pb)" "list_all (entry_ok ?p Sell) (pb_asks pb)"
  proof -
    have "pb_default = pb \<or> (\<exists>pre post. books b = pre @ (?p, pb) # post)"
      using mem by (metis hm_insert_split)
    then show "?i \<notin> hm_dom (pb_bids pb)" "?i \<notin> hm_dom (pb_asks pb)"
      "list_all (entry_ok ?p Buy) (pb_bids pb)" "list_all (entry_ok ?p Sell) (pb_asks pb)"
      using fresh assms(1) by (auto simp: pb_default_def book_ok_def sub_book_ok_def)
  qed
  have ins: "hm_insert ?i ord (pb_bids pb) = pb_bids pb @ [(?i, ord)]" "hm_insert ?i ord (pb_asks pb) = pb_asks pb @ [(?i, ord)]"
    using pbd by (simp_all add: hm_insert_fresh hm_dom_def)
  have m': "mset (pb_bids pb' @ pb_asks pb') = add_mset (?i, ord) (mset (pb_bids pb @ pb_asks pb))"
    by (simp add: pb'_def ins split: side.split)
  have s': "sub_book_ok (?p, pb')"
    using le assms(3) by (auto simp: sub_book_ok_def pb'_def ins entry_ok_def pb_is_empty_def split: side.split)
  show ms: "mset (flat (books (insert_order ord b))) = add_mset (?i, ord) (mset (flat (books b)))"
    and "book_ok (insert_order ord b)"
  proof -
    have "mset (flat (books (insert_order ord b))) = add_mset (?i, ord) (mset (flat (books b))) \<and>
        hm_ok (books (insert_order ord b)) \<and> list_all sub_book_ok (books (insert_order ord b))"
    proof (cases "hm_get (books b) ?p")
      case None
      then have "?p \<notin> set (hm_keys (books b))" and "pb = pb_default"
        using hm_dom_get(1) [of "books b" ?p] by (simp_all add: pb_def hm_dom_def)
      moreover from this have "books (insert_order ord b) = books b @ [(?p, pb')]"
        unfolding b' by (simp add: hm_insert_fresh)
      ultimately show ?thesis using m' s' assms(1) by (simp add: pb_default_def book_ok_def)
    next
      case (Some q)
      then have "hm_get (books b) ?p = Some pb" using mem by simp
      then obtain pre post where p: "books b = pre @ (?p, pb) # post" "books (insert_order ord b) = pre @ (?p, pb') # post"
        unfolding b' by (rule hm_insert_split)
      then show ?thesis using m' s' assms(1) by (simp add: book_ok_def)
    qed
    moreover from this have "hm_ok (flat (books (insert_order ord b)))"
    proof -
      have "mset (hm_keys (flat (books (insert_order ord b)))) = add_mset ?i (mset (hm_keys (flat (books b))))"
        using calculation by (metis fst_conv image_mset_add_mset mset_map)
      then have "mset (hm_keys (flat (books (insert_order ord b)))) = mset (?i # hm_keys (flat (books b)))" by simp
      moreover have "distinct (?i # hm_keys (flat (books b)))" using fresh assms(1) by (simp add: hm_dom_def book_ok_def)
      ultimately show ?thesis by (metis mset_eq_imp_distinct_iff)
    qed
    ultimately show "mset (flat (books (insert_order ord b))) = add_mset (?i, ord) (mset (flat (books b)))"
      and "book_ok (insert_order ord b)" by (simp_all add: book_ok_def)
  qed
qed

section \<open>The contract of the book\<close>

text \<open>
  What the engine relies on: a table of orders with a lookup, where a fill larger than the
  remaining size is refused and one that exhausts the order removes it.
\<close>

definition fill_lookup :: "dec_ops \<Rightarrow> fill \<Rightarrow> (uuid \<Rightarrow> order option) \<Rightarrow> (uuid \<Rightarrow> order option) option" where
  "fill_lookup D f l =
     (case l (fill_order_id f) of
        None \<Rightarrow> Some l
      | Some ord \<Rightarrow>
          if remaining_size ord < fill_size f then Some l
          else do {
            r \<leftarrow> d_sub D (remaining_size ord) (fill_size f);
            Some (l(fill_order_id f := if r \<le> 0 then None else Some (ord\<lparr>remaining_size := r\<rparr>)))
          })"

definition total_fills :: "fill list \<Rightarrow> uuid \<Rightarrow> decimal" where
  "total_fills fs i = sum_list (map fill_size (filter (\<lambda>f. fill_order_id f = i) fs))"

fun seq_opt :: "('a \<Rightarrow> 't \<Rightarrow> 't option) \<Rightarrow> 'a list \<Rightarrow> 't \<Rightarrow> 't option" where
  "seq_opt f [] t = Some t"
| "seq_opt f (x # xs) t = do { t' \<leftarrow> f x t; seq_opt f xs t' }"

lemma seq_opt_append: "seq_opt f (xs @ ys) t = do { t' \<leftarrow> seq_opt f xs t; seq_opt f ys t' }"
proof (induction xs arbitrary: t)
  case (Cons x xs)
  then show ?case by (cases "f x t") simp_all
qed simp

definition debit_lookup :: "(uuid \<Rightarrow> decimal) \<Rightarrow> (uuid \<Rightarrow> order option) \<Rightarrow> uuid \<Rightarrow> order option" where
  "debit_lookup q l i =
     (case l i of
        None \<Rightarrow> None
      | Some ord \<Rightarrow> if q i = remaining_size ord then None
                   else Some (ord\<lparr>remaining_size := remaining_size ord - q i\<rparr>))"

locale order_table =
  fixes D :: dec_ops and lookup :: "'t \<Rightarrow> uuid \<Rightarrow> order option" and ins :: "order \<Rightarrow> 't \<Rightarrow> 't"
    and rem :: "uuid \<Rightarrow> 't \<Rightarrow> 't" and fil :: "fill \<Rightarrow> 't \<Rightarrow> 't option" and ok :: "'t \<Rightarrow> bool"
  assumes ins_law: "ok t \<Longrightarrow> lookup t (order_id ord) = None \<Longrightarrow> 0 < remaining_size ord \<Longrightarrow>
      ok (ins ord t) \<and> lookup (ins ord t) = (lookup t)(order_id ord := Some ord)"
    and rem_law: "ok t \<Longrightarrow> ok (rem i t) \<and> lookup (rem i t) = (lookup t)(i := None)"
    and fil_law: "ok t \<Longrightarrow> map_option lookup (fil f t) = fill_lookup D f (lookup t)"
    and fil_ok: "ok t \<Longrightarrow> fil f t = Some t' \<Longrightarrow> ok t'"
    and entry_law: "ok t \<Longrightarrow> lookup t i = Some ord \<Longrightarrow> order_id ord = i \<and> 0 < remaining_size ord"
begin

lemma fill_once:
  assumes "dec_exact D" and "ok t" and "lookup t (fill_order_id f) = Some ord"
    and "encodable (remaining_size ord)" and "encodable (fill_size f)" and "fill_size f \<le> remaining_size ord"
  obtains t' where "fil f t = Some t'" and "ok t'"
    and "lookup t' = (lookup t)(fill_order_id f := if fill_size f = remaining_size ord then None
                        else Some (ord\<lparr>remaining_size := remaining_size ord - fill_size f\<rparr>))"
proof -
  have "encodable (remaining_size ord - fill_size f)" using assms(4-6) by (rule encodable_diff)
  then have "d_sub D (remaining_size ord) (fill_size f) = Some (remaining_size ord - fill_size f)"
    using d_sub_exact [OF assms(1)] encodable_fits8 by blast
  then have l: "fill_lookup D f (lookup t) = Some ((lookup t)(fill_order_id f :=
      if fill_size f = remaining_size ord then None else Some (ord\<lparr>remaining_size := remaining_size ord - fill_size f\<rparr>)))"
    using assms(3,6) by (simp add: fill_lookup_def not_less)
  with fil_law [OF assms(2), of f] obtain t' where t': "fil f t = Some t'" by (cases "fil f t") auto
  with l fil_law [OF assms(2), of f] fil_ok [OF assms(2) t'] show ?thesis by (intro that) simp_all
qed

text \<open>A run of fills that never asks for more than an order has left debits each order by its total.\<close>

lemma fills_debit:
  assumes "dec_exact D" and "ok t" and "\<And>f. f \<in> set fs \<Longrightarrow> encodable (fill_size f) \<and> 0 < fill_size f"
    and "\<And>f. f \<in> set fs \<Longrightarrow> lookup t (fill_order_id f) \<noteq> None"
    and "\<And>i ord. lookup t i = Some ord \<Longrightarrow> encodable (remaining_size ord) \<and> total_fills fs i \<le> remaining_size ord"
  shows "\<exists>t'. seq_opt fil fs t = Some t' \<and> ok t' \<and> lookup t' = debit_lookup (total_fills fs) (lookup t)"
  using assms(2-5)
proof (induction fs arbitrary: t)
  case Nil
  have "debit_lookup (total_fills []) (lookup t) i = lookup t i" for i
    using entry_law [OF Nil.prems(1), of i] by (auto simp: debit_lookup_def total_fills_def split: option.split)
  with Nil show ?case by auto
next
  case (Cons f fs)
  let ?i = "fill_order_id f"
  obtain ord where ord: "lookup t ?i = Some ord" using Cons.prems(3) [of f] by auto
  have tot: "total_fills (f # fs) i = (if i = ?i then fill_size f else 0) + total_fills fs i" for i
    by (simp add: total_fills_def)
  have nn: "0 \<le> total_fills fs i" for i
    unfolding total_fills_def using Cons.prems(2) by (intro sum_list_nonneg_rat) (force simp: less_imp_le)
  have enc: "encodable (remaining_size ord)" "encodable (fill_size f)" "0 < fill_size f"
    and le: "fill_size f + total_fills fs ?i \<le> remaining_size ord"
    using Cons.prems(2) [of f] Cons.prems(4) [OF ord] by (simp_all add: tot)
  then obtain t' where t': "fil f t = Some t'" "ok t'"
    and l': "lookup t' = (lookup t)(?i := if fill_size f = remaining_size ord then None
                        else Some (ord\<lparr>remaining_size := remaining_size ord - fill_size f\<rparr>))"
    using fill_once [OF assms(1) Cons.prems(1) ord enc(1,2)] nn [of ?i] by force
  have "\<exists>t''. seq_opt fil fs t' = Some t'' \<and> ok t'' \<and> lookup t'' = debit_lookup (total_fills fs) (lookup t')"
  proof (rule Cons.IH [OF t'(2)])
    fix g
    assume g: "g \<in> set fs"
    then show "encodable (fill_size g) \<and> 0 < fill_size g" using Cons.prems(2) by simp
    show "lookup t' (fill_order_id g) \<noteq> None"
    proof (cases "fill_order_id g = ?i \<and> fill_size f = remaining_size ord")
      case True
      have "fill_size g \<le> total_fills fs ?i"
        unfolding total_fills_def using g True Cons.prems(2)
        by (intro member_le_sum_list) (auto simp: less_imp_le)
      then show ?thesis using True le Cons.prems(2) [of g] g by simp
    qed (use Cons.prems(3) [of g] g in \<open>auto simp: l'\<close>)
  next
    fix i x
    assume x: "lookup t' i = Some x"
    show "encodable (remaining_size x) \<and> total_fills fs i \<le> remaining_size x"
    proof (cases "i = ?i")
      case True
      then have "x = ord\<lparr>remaining_size := remaining_size ord - fill_size f\<rparr>" using x l' by (auto split: if_splits)
      then show ?thesis using True le enc(1,2) nn [of ?i] by (auto intro!: encodable_diff)
    next
      case False
      then show ?thesis using x Cons.prems(4) [of i x] by (simp add: l' tot)
    qed
  qed
  then obtain t'' where t'': "seq_opt fil fs t' = Some t''" "ok t''" "lookup t'' = debit_lookup (total_fills fs) (lookup t')"
    by blast
  have "debit_lookup (total_fills fs) (lookup t') i = debit_lookup (total_fills (f # fs)) (lookup t) i" for i
    using ord le nn [of ?i] by (auto simp: debit_lookup_def l' tot split: option.split)
  then have "lookup t'' = debit_lookup (total_fills (f # fs)) (lookup t)" using t''(3) by auto
  with t' t'' show ?case by auto
qed

end

section \<open>The book keeps the contract\<close>

lemma map_of_add_mset:
  assumes "mset m' = add_mset (k, v) (mset m)" and "hm_ok m'" and "hm_ok m"
  shows "hm_get m' = (hm_get m)(k := Some v)"
proof
  fix i
  have st: "set m' = insert (k, v) (set m)" using assms(1) by (metis set_mset_add_mset_insert set_mset_mset)
  have "mset (hm_keys m') = mset (k # hm_keys m)" using assms(1) by simp
  then have "k \<notin> fst ` set m" using assms(2) by (metis distinct.simps(2) mset_eq_imp_distinct_iff set_map)
  then have "hm_get m' i = Some w \<longleftrightarrow> ((hm_get m)(k := Some v)) i = Some w" for w
    unfolding hm_get_mem [OF assms(2)] st using hm_get_mem [OF assms(3), of i w] by force
  then show "hm_get m' i = ((hm_get m)(k := Some v)) i" by (metis not_Some_eq)
qed

lemma insert_order_law [book_simps]:
  assumes "book_ok b" and "find_order b (order_id ord) = None" and "0 < remaining_size ord"
  shows "find_order (insert_order ord b) = (find_order b)(order_id ord := Some ord)"
  using map_of_add_mset [OF insert_books(1) [OF assms]] insert_books(2) [OF assms] assms(1)
  by (auto simp: book_ok_def find_order_flat fun_eq_iff)

lemma remove_order_law [book_simps]: "book_ok b \<Longrightarrow> find_order (remove_order i b) = (find_order b)(i := None)"
  using remove_books [of "books b" i]
  by (auto simp: book_ok_books remove_order_def find_order_flat fun_eq_iff hm_simps)

lemma remove_order_ok [inv_intros]: "book_ok b \<Longrightarrow> book_ok (remove_order i b)"
  using remove_books [of "books b" i] by (simp add: book_ok_books remove_order_def)

lemma fill_map_lookup: "map_option hm_get (fill_map D f m) = fill_lookup D f (hm_get m)"
proof (cases "hm_get m (fill_order_id f)")
  case (Some ord)
  have upd: "hm_get (hm_remove k m) = (hm_get m)(k := None)" "hm_get (hm_insert k v m) = (hm_get m)(k := Some v)" for k v
    by (simp_all add: fun_eq_iff hm_simps)
  show ?thesis
    by (cases "d_sub D (remaining_size ord) (fill_size f)")
       (simp_all add: fill_map_def fill_side_def fill_lookup_def Some upd)
qed (simp add: fill_map_def fill_lookup_def)

lemma apply_fill_law:
  assumes "book_ok b"
  shows "map_option find_order (apply_fill D f b) = fill_lookup D f (find_order b)"
proof -
  have "find_order b' = hm_get (flat (books b'))" for b' by (simp add: fun_eq_iff find_order_flat)
  then show ?thesis
    using fill_books(1) [of "books b" D f, symmetric] assms fill_map_lookup [of D f "flat (books b)"]
    by (cases "fill_loop D f (books b)") (simp_all add: apply_fill_def book_ok_books)
qed

lemma apply_fill_ok [inv_intros]: "book_ok b \<Longrightarrow> apply_fill D f b = Some b' \<Longrightarrow> book_ok b'"
  using fill_books(2) [of "books b" D f] by (auto simp: apply_fill_def book_ok_books split: bind_splits)

lemma book_entry:
  assumes "book_ok b" and "(i, ord) \<in> set (flat (books b))"
  shows "order_id ord = i \<and> 0 < remaining_size ord"
proof -
  from assms(2) obtain p pb where "(p, pb) \<in> set (books b)" "(i, ord) \<in> set (pb_bids pb @ pb_asks pb)"
    by (auto simp: flat_def)
  then show ?thesis using assms(1) by (fastforce simp: book_ok_def sub_book_ok_def entry_ok_def list_all_iff)
qed

interpretation bk: order_table D find_order insert_order remove_order "apply_fill D" book_ok for D
proof
  show "order_id ord = i \<and> 0 < remaining_size ord" if "book_ok b" "find_order b i = Some ord" for b i ord
    using that book_entry by (auto simp: find_order_flat dest: map_of_SomeD)
qed (simp_all add: insert_order_law remove_order_law remove_order_ok insert_books(2) apply_fill_law apply_fill_ok)

text \<open>The queries, over the flat map.\<close>

lemma iter_all_flat: "iter_all b = hm_values (flat (books b))"
  by (simp add: iter_all_def flat_def map_concat o_def case_prod_unfold)

lemma has_order_find: "has_order b i \<longleftrightarrow> find_order b i \<noteq> None"
proof -
  have "list_ex (\<lambda>pb. hm_contains (pb_bids pb) i \<or> hm_contains (pb_asks pb) i) (hm_values bs) \<longleftrightarrow> i \<in> hm_dom (flat bs)" for bs
    by (induction bs) (auto simp: hm_dom_get simp del: not_None_eq)
  then show ?thesis by (simp add: has_order_def find_order_flat hm_dom_get del: not_None_eq)
qed

lemma active_order_count_flat: "active_order_count b = length (iter_all b)"
  by (simp add: active_order_count_def iter_all_def length_concat o_def)

lemma active_order_count_for_trader_flat:
  "active_order_count_for_trader b t = length (filter (\<lambda>ord. trader ord = t) (iter_all b))"
  by (simp add: active_order_count_for_trader_def iter_all_def filter_concat length_concat o_def)

lemma collect_expired_flat:
  "collect_expired now b = map (\<lambda>ord. new_event (OrderExpired (order_id ord)))
     (filter (\<lambda>ord. expires_at ord \<noteq> 0 \<and> expires_at ord \<le> now) (iter_all b))"
  by (simp add: collect_expired_def iter_all_def filter_concat map_concat o_def)

lemma set_iter_all:
  assumes "book_ok b"
  shows "set (iter_all b) = ran (find_order b)" and "distinct (map order_id (iter_all b))"
proof -
  have ok: "hm_ok (flat (books b))" using assms by (simp add: book_ok_def)
  show "set (iter_all b) = ran (find_order b)"
    using ok by (force simp: iter_all_flat find_order_flat ran_def)
  have "map order_id (iter_all b) = hm_keys (flat (books b))"
    using book_entry [OF assms] by (auto simp: iter_all_flat)
  then show "distinct (map order_id (iter_all b))" using ok by simp
qed

text \<open>A side of one pair is the sorted list of its resting orders.\<close>

lemma filter_sub_book:
  assumes "sub_book_ok (q, pb)"
  shows "filter (\<lambda>ord. order_pair ord = p \<and> order_side ord = Buy) (hm_values (pb_bids pb @ pb_asks pb)) =
           (if q = p then hm_values (pb_bids pb) else [])"
    and "filter (\<lambda>ord. order_pair ord = p \<and> order_side ord = Sell) (hm_values (pb_bids pb @ pb_asks pb)) =
           (if q = p then hm_values (pb_asks pb) else [])"
  using assms by (auto simp: sub_book_ok_def entry_ok_def list_all_iff filter_empty_conv filter_id_conv)

lemma filter_flat:
  assumes "hm_ok bs" and "list_all sub_book_ok bs"
  shows "filter (\<lambda>ord. order_pair ord = p \<and> order_side ord = Buy) (hm_values (flat bs)) =
           (case hm_get bs p of None \<Rightarrow> [] | Some pb \<Rightarrow> hm_values (pb_bids pb))"
    and "filter (\<lambda>ord. order_pair ord = p \<and> order_side ord = Sell) (hm_values (flat bs)) =
           (case hm_get bs p of None \<Rightarrow> [] | Some pb \<Rightarrow> hm_values (pb_asks pb))"
proof -
  have "filter (\<lambda>ord. order_pair ord = p \<and> order_side ord = Buy) (hm_values (flat bs)) =
           (case hm_get bs p of None \<Rightarrow> [] | Some pb \<Rightarrow> hm_values (pb_bids pb)) \<and>
        filter (\<lambda>ord. order_pair ord = p \<and> order_side ord = Sell) (hm_values (flat bs)) =
           (case hm_get bs p of None \<Rightarrow> [] | Some pb \<Rightarrow> hm_values (pb_asks pb))"
    using assms
  proof (induction bs)
    case (Cons e bs)
    obtain q pb where e: "e = (q, pb)" by (cases e)
    have "hm_get bs p = None" if "q = p" using Cons.prems(1) that by (simp add: e map_of_eq_None_iff)
    with Cons filter_sub_book [of q pb p] show ?case by (auto simp: e)
  qed simp
  then show "filter (\<lambda>ord. order_pair ord = p \<and> order_side ord = Buy) (hm_values (flat bs)) =
           (case hm_get bs p of None \<Rightarrow> [] | Some pb \<Rightarrow> hm_values (pb_bids pb))"
    and "filter (\<lambda>ord. order_pair ord = p \<and> order_side ord = Sell) (hm_values (flat bs)) =
           (case hm_get bs p of None \<Rightarrow> [] | Some pb \<Rightarrow> hm_values (pb_asks pb))" by blast+
qed

lemma book_sides:
  assumes "book_ok b"
  shows "book_bids b p = sort_bids (filter (\<lambda>ord. order_pair ord = p \<and> order_side ord = Buy) (iter_all b))"
    and "book_asks b p = sort_asks (filter (\<lambda>ord. order_pair ord = p \<and> order_side ord = Sell) (iter_all b))"
  using assms filter_flat [of "books b" p]
  by (auto simp: book_bids_def book_asks_def iter_all_flat book_ok_def sort_bids_def sort_asks_def split: option.split)

lemma book_sides_facts:
  assumes "book_ok b"
  shows "set (book_bids b p) = {ord. find_order b (order_id ord) = Some ord \<and> order_pair ord = p \<and> order_side ord = Buy}"
    and "set (book_asks b p) = {ord. find_order b (order_id ord) = Some ord \<and> order_pair ord = p \<and> order_side ord = Sell}"
    and "sorted (map bid_priority (book_bids b p))" and "sorted (map ask_priority (book_asks b p))"
    and "distinct (map order_id (book_bids b p))" and "distinct (map order_id (book_asks b p))"
proof -
  have r: "ord \<in> set (iter_all b) \<longleftrightarrow> find_order b (order_id ord) = Some ord" for ord
    using set_iter_all(1) [OF assms] bk.entry_law [OF assms] by (auto simp: ran_def)
  show "set (book_bids b p) = {ord. find_order b (order_id ord) = Some ord \<and> order_pair ord = p \<and> order_side ord = Buy}"
    "set (book_asks b p) = {ord. find_order b (order_id ord) = Some ord \<and> order_pair ord = p \<and> order_side ord = Sell}"
    by (auto simp: book_sides [OF assms] r)
  show "sorted (map bid_priority (book_bids b p))" "sorted (map ask_priority (book_asks b p))"
    by (simp_all add: book_sides [OF assms] sort_bids_def sort_asks_def)
  have "distinct (map order_id (filter P (iter_all b)))" for P
    using set_iter_all(2) [OF assms] by (rule distinct_map_filter)
  then show "distinct (map order_id (book_bids b p))" "distinct (map order_id (book_asks b p))"
    by (simp_all add: book_sides [OF assms] sort_bids_def sort_asks_def distinct_map)
qed

section \<open>Applying events\<close>

lemma book_apply_seen: "0 < ev_seq e \<Longrightarrow> ev_seq e \<le> book_seq b \<Longrightarrow> book_apply D e b = Some b"
  by (simp add: book_apply_def)

lemma remove_order_seq [simp]: "book_seq (remove_order i b) = book_seq b"
  by (simp add: remove_order_def)

lemma apply_fill_seq: "apply_fill D f b = Some b' \<Longrightarrow> book_seq b' = book_seq b"
  by (auto simp: apply_fill_def split: bind_splits)

lemma book_apply_seq: "book_apply D e b = Some b' \<Longrightarrow> book_seq b' = max (book_seq b) (ev_seq e)"
  by (cases "ev_data e")
     (auto simp: book_apply_def Let_def max_def dest!: apply_fill_seq split: if_splits bind_splits)

lemma book_ok_seq [simp]: "book_ok (b\<lparr>book_seq := n\<rparr>) = book_ok b"
  by (simp add: book_ok_def)

lemma book_apply_ok [inv_intros]: "book_ok b \<Longrightarrow> book_apply D e b = Some b' \<Longrightarrow> book_ok b'"
  by (cases "ev_data e")
     (auto simp: book_apply_def Let_def intro: remove_order_ok dest!: apply_fill_ok [rotated] split: if_splits bind_splits)

lemma book_apply_all_seq:
  "book_apply_all D es b = Some b' \<Longrightarrow> book_seq b' = fold max (map ev_seq es) (book_seq b)"
proof (induction es arbitrary: b)
  case (Cons e es)
  then obtain b1 where "book_apply D e b = Some b1" "book_apply_all D es b1 = Some b'" by (auto split: bind_splits)
  with Cons.IH book_apply_seq show ?case by (fastforce simp: max.commute)
qed simp

lemma book_apply_all_append: "book_apply_all D (xs @ ys) b = do { b' \<leftarrow> book_apply_all D xs b; book_apply_all D ys b' }"
proof (induction xs arbitrary: b)
  case (Cons x xs)
  then show ?case by (cases "book_apply D x b") simp_all
qed simp

lemma book_apply_all_seen:
  "\<forall>e\<in>set es. 0 < ev_seq e \<and> ev_seq e \<le> book_seq b \<Longrightarrow> book_apply_all D es b = Some b"
  by (induction es) (simp_all add: book_apply_seen)

lemma fold_max_ge: "x \<in> set xs \<Longrightarrow> x \<le> fold max xs (a :: nat)"
proof (induction xs arbitrary: a)
  case (Cons y ys)
  have "b \<le> fold max zs b" for b :: nat and zs by (induction zs arbitrary: b) (auto intro: order_trans [OF max.cobounded2])
  from this [of "max y a" ys] Cons show ?case by auto
qed simp

lemma fold_max_le: "\<forall>x\<in>set xs. x \<le> m \<Longrightarrow> a \<le> m \<Longrightarrow> fold max xs a \<le> (m :: nat)"
  by (induction xs arbitrary: a) auto

context event_store
begin

text \<open>The replay loop ends after as many pages as there are events, and applies all of them.\<close>

lemma replay_drains:
  assumes "inv st" and "length (filter (\<lambda>e. book_seq b < ev_seq e) (log st)) < n"
  shows "book_replay n D ops st b =
    Some (map_option Inr (book_apply_all D (filter (\<lambda>e. book_seq b < ev_seq e) (log st)) b))"
  using assms(2)
proof (induction n arbitrary: b)
  case (Suc n)
  let ?rest = "filter (\<lambda>e. book_seq b < ev_seq e) (log st)"
  have r: "st_read_from ops (book_seq b) 1024 st = Inr (take 1024 ?rest)" using read_law [OF assms(1)] by simp
  show ?case
  proof (cases "?rest = []")
    case False
    let ?es = "take 1024 ?rest"
    have ne: "?es \<noteq> []" using False by simp
    note np = next_page [OF assms(1) _ r ne]
    show ?thesis
    proof (cases "book_apply_all D ?es b")
      case None
      then have "book_apply_all D ?rest b = None" using book_apply_all_append [of D ?es "drop 1024 ?rest" b] by simp
      with None ne r show ?thesis by simp
    next
      case (Some b')
      have "sorted_wrt (<) (map ev_seq ?es)"
        using log_ok_filter [OF log_wf [OF assms(1)]] by (simp add: log_ok_def sorted_wrt_take flip: take_map)
      then have "fold max (map ev_seq ?es) (book_seq b) = ev_seq (last ?es)"
        using ne np(2) by (intro antisym fold_max_le fold_max_ge) (auto dest: sorted_le_last [rotated])
      then have s: "book_seq b' = ev_seq (last ?es)" using book_apply_all_seq [OF Some] by simp
      have "length (filter (\<lambda>e. book_seq b' < ev_seq e) (log st)) < length ?rest"
        using arg_cong [OF np(1), of length] ne unfolding s length_append by (simp only: length_greater_0_conv [symmetric])
      then have "book_replay n D ops st b' =
          Some (map_option Inr (book_apply_all D (filter (\<lambda>e. book_seq b' < ev_seq e) (log st)) b'))"
        using Suc by simp
      moreover have "book_apply_all D ?rest b = book_apply_all D (filter (\<lambda>e. book_seq b' < ev_seq e) (log st)) b'"
        unfolding s using Some book_apply_all_append [of D ?es _ b] by (subst np(1)) simp_all
      ultimately show ?thesis using Some ne r by simp
    qed
  qed (simp add: r)
qed simp

end

section \<open>The promises of the book\<close>

definition sample_book :: book where
  "sample_book = fold insert_order
     [sample_order 1 11 Buy 100 5 1, sample_order 2 12 Buy 101 3 2, sample_order 3 13 Sell 99 4 3] book_new"

lemma sample_book_ok: "book_ok sample_book"
  by code_simp

definition sample_match :: event where
  "sample_match = (new_event (OrderMatched 9 \<lparr>fill_order_id = 2, fill_size = 3\<rparr> \<lparr>fill_order_id = 3, fill_size = 3\<rparr> 100 3))\<lparr>ev_seq := 5\<rparr>"

text \<open>C20. The book is a table of orders: inserting a fresh order, removing one, and filling one change the
  lookup exactly as in a map from id to order, where a fill larger than the remaining size changes nothing
  and one that exhausts the order deletes it; all three keep the invariant that every order is stored once,
  under its own id, pair and side, with a positive remaining size, and no sub-book is empty.\<close>

theorem book_refines_order_table:
  assumes "book_ok b"
  shows "(\<forall>ord. find_order b (order_id ord) = None \<and> 0 < remaining_size ord \<longrightarrow>
            book_ok (insert_order ord b) \<and> find_order (insert_order ord b) = (find_order b)(order_id ord := Some ord)) \<and>
         (\<forall>i. book_ok (remove_order i b) \<and> find_order (remove_order i b) = (find_order b)(i := None)) \<and>
         (\<forall>f. map_option find_order (apply_fill D f b) = fill_lookup D f (find_order b) \<and>
              pred_option book_ok (apply_fill D f b))"
  using assms bk.ins_law [OF assms] bk.rem_law [OF assms] bk.fil_law [OF assms] bk.fil_ok [OF assms]
  by (auto simp: pred_option_def)

theorem book_refines_order_table_witness:
  "book_ok sample_book \<and> find_order (remove_order 1 sample_book) = (find_order sample_book)(1 := None) \<and>
   map_option find_order (apply_fill dec_ref \<lparr>fill_order_id = 1, fill_size = 2\<rparr> sample_book) =
     fill_lookup dec_ref \<lparr>fill_order_id = 1, fill_size = 2\<rparr> (find_order sample_book)"
  using book_refines_order_table [OF sample_book_ok] sample_book_ok by blast

text \<open>The two sides the auction reads are complete and in priority order: a pair's bids are exactly its resting
  buy orders, each once, best price first and the earlier sequence number first among equal prices; its asks
  likewise from the lowest price.\<close>

theorem book_sides_complete_and_sorted:
  assumes "book_ok b"
  shows "set (book_bids b p) = {ord. find_order b (order_id ord) = Some ord \<and> order_pair ord = p \<and> order_side ord = Buy} \<and>
         set (book_asks b p) = {ord. find_order b (order_id ord) = Some ord \<and> order_pair ord = p \<and> order_side ord = Sell} \<and>
         distinct (map order_id (book_bids b p)) \<and> distinct (map order_id (book_asks b p)) \<and>
         sorted_wrt (\<lambda>x y. price y < price x \<or> price x = price y \<and> order_seq x \<le> order_seq y) (book_bids b p) \<and>
         sorted_wrt (\<lambda>x y. price x < price y \<or> price x = price y \<and> order_seq x \<le> order_seq y) (book_asks b p)"
proof -
  have "sorted_wrt (\<lambda>x y. bid_priority x \<le> bid_priority y) (book_bids b p)"
    "sorted_wrt (\<lambda>x y. ask_priority x \<le> ask_priority y) (book_asks b p)"
    using book_sides_facts(3,4) [OF assms, of p] by (simp_all add: sorted_map)
  then show ?thesis
    using book_sides_facts(1,2,5,6) [OF assms, of p] by (simp add: bid_priority_le ask_priority_le conj_commute)
qed

theorem book_sides_complete_and_sorted_witness:
  "book_ok sample_book \<and> distinct (map order_id (book_bids sample_book ''A/B'')) \<and>
   map order_id (book_bids sample_book ''A/B'') = [2, 1] \<and>
   sorted_wrt (\<lambda>x y. price y < price x \<or> price x = price y \<and> order_seq x \<le> order_seq y) (book_bids sample_book ''A/B'')"
proof -
  have "map order_id (book_bids sample_book ''A/B'') = [2, 1]" by code_simp
  then show ?thesis using book_sides_complete_and_sorted [OF sample_book_ok, of "''A/B''"] sample_book_ok by simp
qed

text \<open>Applying events is idempotent: once a list of persisted events has been applied, applying any of them
  again, in any order and number, leaves the book as it is, so no fill is ever subtracted twice.\<close>

theorem replayed_events_change_nothing:
  assumes "book_apply_all D es b = Some b'" and "set es' \<subseteq> set es" and "\<forall>e\<in>set es. 0 < ev_seq e"
  shows "book_apply_all D es' b' = Some b'"
proof (rule book_apply_all_seen)
  show "\<forall>e\<in>set es'. 0 < ev_seq e \<and> ev_seq e \<le> book_seq b'"
    using assms(2,3) fold_max_ge [of _ "map ev_seq es" "book_seq b"] by (auto simp: book_apply_all_seq [OF assms(1)])
qed

theorem replayed_events_change_nothing_witness:
  "book_apply_all dec_ref [sample_match, sample_match] (the (book_apply_all dec_ref [sample_match] sample_book)) =
   book_apply_all dec_ref [sample_match] sample_book"
proof -
  have "\<exists>b'. book_apply_all dec_ref [sample_match] sample_book = Some b'" by (simp only: option.distinct not_None_eq [symmetric]) code_simp
  then obtain b' where b': "book_apply_all dec_ref [sample_match] sample_book = Some b'" by blast
  have "book_apply_all dec_ref [sample_match, sample_match] b' = Some b'"
    using b' by (rule replayed_events_change_nothing) (simp_all add: sample_match_def)
  with b' show ?thesis by simp
qed

text \<open>Replaying a log into a book reads every page and stops: with one step of fuel more than there are
  events after the book's position, the loop returns, and the result is that of applying exactly those events.\<close>

theorem replay_applies_whole_log:
  assumes "mem_inv st" and "length (filter (\<lambda>e. book_seq b < ev_seq e) (ms_events st)) < n"
  shows "book_replay n D mem_ops st b =
    Some (map_option Inr (book_apply_all D (filter (\<lambda>e. book_seq b < ev_seq e) (ms_events st)) b))"
  using assms by (rule mem.replay_drains)

theorem replay_applies_whole_log_witness:
  "mem_inv \<lparr>ms_events = [sample_match], ms_seq = 5\<rparr> \<and>
   book_replay 2 dec_ref mem_ops \<lparr>ms_events = [sample_match], ms_seq = 5\<rparr> sample_book =
     Some (map_option Inr (book_apply_all dec_ref [sample_match] sample_book))"
proof -
  have i: "mem_inv \<lparr>ms_events = [sample_match], ms_seq = 5\<rparr>"
    by (simp add: mem_inv_def log_ok_def sample_match_def)
  have s: "book_seq sample_book = 0" by code_simp
  show ?thesis
    using replay_applies_whole_log [OF i, of sample_book 2 dec_ref] i by (simp add: s sample_match_def new_event_def)
qed

end
