(* ===== verification/Encoding.thy ===== *)
theory Encoding
  imports Decimals
begin

text \<open>
  Field elements, scalar encodings and commitments (\<^verbatim>\<open>dp-zk/src/encoding.rs\<close>,
  \<^verbatim>\<open>dp-zk/src/pedersen.rs\<close> and the native part of \<^verbatim>\<open>dp-zk/src/commitment_circuit.rs\<close>).

  An element of the scalar field of BN254 is its canonical representative, a natural number below
  \<open>FR_MODULUS\<close>. The Poseidon sponge of arkworks is a parameter \<open>sp\<close>: \<open>sp xs\<close> is the first element
  squeezed from a fresh sponge that absorbed the list \<open>xs\<close>.

  The lemmas show which decimals the encoder accepts and that it loses nothing, and that the
  canonical 32-byte encoding of a field element is the only one the decoder accepts.
\<close>

section \<open>The field\<close>

type_synonym fr = nat
type_synonym sponge = "fr list \<Rightarrow> fr"

definition FR_MODULUS :: nat where
  "FR_MODULUS = 21888242871839275222246405745257275088548364400416034343698204186575808495617"

definition fr_from :: "nat \<Rightarrow> fr" where
  "fr_from n = n mod FR_MODULUS"

definition fr_neg :: "fr \<Rightarrow> fr" where
  "fr_neg a = (FR_MODULUS - a) mod FR_MODULUS"

definition fr_mul :: "fr \<Rightarrow> fr \<Rightarrow> fr" where
  "fr_mul a b = a * b mod FR_MODULUS"

definition fr_sub :: "fr \<Rightarrow> fr \<Rightarrow> fr" where
  "fr_sub a b = (a + fr_neg b) mod FR_MODULUS"

section \<open>Scalar encodings\<close>

datatype encoding_error =
    Negative decimal
  | Overflow decimal
  | Precision decimal
  | FieldElementTooLong nat
  | InvalidFieldElementLength nat
  | NonCanonicalFieldElement

definition SCALE_FACTOR_I128 :: int where
  "SCALE_FACTOR_I128 = 100000000"

definition MAX_ENCODED :: int where
  "MAX_ENCODED = 2 ^ 60"

text \<open>A value with a fractional part has a positive scale, so the test of the code is the one below.\<close>

definition decimal_to_scalar :: "dec_ops \<Rightarrow> decimal \<Rightarrow> encoding_error + fr" where
  "decimal_to_scalar D d =
     (if d < 0 then Inl (Negative d)
      else case d_mul D d (of_int SCALE_FACTOR_I128) of
        None \<Rightarrow> Inl (Overflow d)
      | Some scaled \<Rightarrow>
          if scaled \<noteq> of_int \<lfloor>scaled\<rfloor> then Inl (Precision d)
          else let n = \<lfloor>scaled\<rfloor> in
            if \<not> (0 \<le> n \<and> n < MAX_ENCODED) then Inl (Overflow d)
            else Inr (fr_from (nat n)))"

text \<open>
  The release build of the signed encoder: \<open>abs\<close> and negation of the least \<^verbatim>\<open>i128\<close> wrap, and
  \<^verbatim>\<open>Decimal::from\<close> panics (\<open>None\<close>) on a magnitude of \<open>2 ^ 96\<close> or more.
\<close>

definition i128_abs :: "int \<Rightarrow> int" where
  "i128_abs x = (if x = - (2 ^ 127) then x else \<bar>x\<bar>)"

definition signed_to_scalar :: "int \<Rightarrow> (encoding_error + fr) option" where
  "signed_to_scalar x =
     (if MAX_ENCODED \<le> i128_abs x then
        (if 2 ^ 96 \<le> \<bar>x\<bar> then None else Some (Inl (Overflow (of_int x))))
      else if 0 \<le> x then Some (Inr (fr_from (nat x)))
      else Some (Inr (fr_neg (fr_from (nat (- x))))))"

section \<open>Bytes\<close>

fun to_le_bytes :: "nat \<Rightarrow> nat \<Rightarrow> bytes" where
  "to_le_bytes 0 n = []"
| "to_le_bytes (Suc k) n = of_nat (n mod 256) # to_le_bytes k (n div 256)"

definition be_bytes :: "nat \<Rightarrow> nat \<Rightarrow> bytes" where
  "be_bytes k n = rev (to_le_bytes k n)"

definition ascii :: "string \<Rightarrow> bytes" where
  "ascii s = map (\<lambda>c. of_nat (of_char c)) s"

definition be_nat :: "bytes \<Rightarrow> nat" where
  "be_nat bs = foldl (\<lambda>acc b. acc * 256 + unat b) 0 bs"

definition from_be_bytes_mod_order :: "bytes \<Rightarrow> fr" where
  "from_be_bytes_mod_order bs = fr_from (be_nat bs)"

definition fr_to_bytes32 :: "fr \<Rightarrow> bytes" where
  "fr_to_bytes32 f = (let le = to_le_bytes 32 f in map (\<lambda>i. le ! (31 - i)) [0..<32])"

definition bytes_to_scalar :: "bytes \<Rightarrow> encoding_error + fr" where
  "bytes_to_scalar b =
     (if 32 < length b then Inl (FieldElementTooLong (length b))
      else let scalar = from_be_bytes_mod_order b in
        if length b = 32 \<and> fr_to_bytes32 scalar \<noteq> b then Inl NonCanonicalFieldElement
        else Inr scalar)"

definition bytes32_to_scalar :: "bytes \<Rightarrow> encoding_error + fr" where
  "bytes32_to_scalar b =
     (if length b \<noteq> 32 then Inl (InvalidFieldElementLength (length b)) else bytes_to_scalar b)"

section \<open>Commitments\<close>

record order_commitment_input =
  ci_trader_id :: fr
  ci_side :: fr
  ci_limit_price :: fr
  ci_size :: fr
  ci_salt :: fr

definition from_decimals ::
  "dec_ops \<Rightarrow> fr \<Rightarrow> nat \<Rightarrow> decimal \<Rightarrow> decimal \<Rightarrow> fr \<Rightarrow> encoding_error + order_commitment_input" where
  "from_decimals D trader sd limit sz salt =
     (case decimal_to_scalar D limit of
        Inl e \<Rightarrow> Inl e
      | Inr l \<Rightarrow> (case decimal_to_scalar D sz of
          Inl e \<Rightarrow> Inl e
        | Inr s \<Rightarrow> Inr \<lparr>ci_trader_id = trader, ci_side = (if sd = 0 then 0 else 1),
                         ci_limit_price = l, ci_size = s, ci_salt = salt\<rparr>))"

definition as_field_elements :: "order_commitment_input \<Rightarrow> fr list" where
  "as_field_elements i = [ci_trader_id i, ci_side i, ci_limit_price i, ci_size i, ci_salt i]"

definition commit_native :: "sponge \<Rightarrow> order_commitment_input \<Rightarrow> fr" where
  "commit_native sp i = sp (as_field_elements i)"

definition hash_two_native :: "sponge \<Rightarrow> fr \<Rightarrow> fr \<Rightarrow> fr" where
  "hash_two_native sp a b = sp [a, b]"

definition hash_root_native :: "sponge \<Rightarrow> fr list \<Rightarrow> fr" where
  "hash_root_native sp xs = sp xs"

record settlement_row =
  sr_bid_addr :: fr
  sr_ask_addr :: fr
  sr_price :: fr
  sr_size :: fr

fun settlement_chain :: "sponge \<Rightarrow> fr \<Rightarrow> settlement_row list \<Rightarrow> fr" where
  "settlement_chain sp acc [] = acc"
| "settlement_chain sp acc (r # rs) =
     settlement_chain sp (sp [acc, sr_bid_addr r, sr_ask_addr r, sr_price r, sr_size r]) rs"

definition derive_trader_id :: "sponge \<Rightarrow> bytes \<Rightarrow> encoding_error + fr" where
  "derive_trader_id sp key =
     (case bytes_to_scalar key of Inl e \<Rightarrow> Inl e | Inr s \<Rightarrow> Inr (sp [s]))"

definition derive_trader_id_bytes :: "sponge \<Rightarrow> bytes \<Rightarrow> encoding_error + bytes" where
  "derive_trader_id_bytes sp key =
     (case derive_trader_id sp key of Inl e \<Rightarrow> Inl e | Inr f \<Rightarrow> Inr (rev (to_le_bytes 32 f)))"

definition notional_scalar :: "dec_ops \<Rightarrow> decimal \<Rightarrow> decimal \<Rightarrow> encoding_error + fr" where
  "notional_scalar D p s =
     (case decimal_to_scalar D p of
        Inl e \<Rightarrow> Inl e
      | Inr a \<Rightarrow> (case decimal_to_scalar D s of Inl e \<Rightarrow> Inl e | Inr b \<Rightarrow> Inr (fr_mul a b)))"

text \<open>The tag is the ASCII text \<^verbatim>\<open>DP/order-nullifier/v1\<close>.\<close>

definition nullifier_domain :: "encoding_error + fr" where
  "nullifier_domain = bytes_to_scalar
     (map (\<lambda>c. of_nat (of_char c)) ''DP/order-nullifier/v1'')"

text \<open>The \<^verbatim>\<open>expect\<close> of the source is the \<open>None\<close> below.\<close>

definition compute_nullifier_native :: "sponge \<Rightarrow> fr \<Rightarrow> fr \<Rightarrow> fr option" where
  "compute_nullifier_native sp commitment salt =
     (case nullifier_domain of Inl _ \<Rightarrow> None | Inr tag \<Rightarrow> Some (sp [tag, commitment, salt]))"

section \<open>The encoder accepts exactly the encodable decimals\<close>

text \<open>
  \<^verbatim>\<open>checked_mul\<close> documents \<open>None\<close> on overflow: no \<^verbatim>\<open>Decimal\<close> has a magnitude of \<open>2 ^ 96\<close> or more.
\<close>

definition dec_checked :: "dec_ops \<Rightarrow> bool" where
  "dec_checked D \<longleftrightarrow> (\<forall>a b. 2 ^ 96 \<le> \<bar>a * b\<bar> \<longrightarrow> d_mul D a b = None)"

lemma representable_lt: "representable x \<Longrightarrow> \<bar>x\<bar> < 2 ^ 96"
proof -
  assume "representable x"
  then obtain e where e: "e < 29" "of_int \<lfloor>x * 10 ^ e\<rfloor> = x * 10 ^ e" "\<bar>\<lfloor>x * 10 ^ e\<rfloor>\<bar> < 2 ^ 96"
    by (auto simp: representable_def representable_at_def list_ex_iff)
  have "\<bar>x\<bar> * 1 \<le> \<bar>x\<bar> * 10 ^ e" by (intro mult_left_mono) simp_all
  also have "\<dots> = \<bar>of_int \<lfloor>x * 10 ^ e\<rfloor>\<bar>" by (simp add: e(2) abs_mult)
  also have "\<dots> < 2 ^ 96" using e(3) by (metis of_int_abs of_int_less_iff of_int_numeral of_int_power)
  finally show ?thesis by simp
qed

lemma dec_checked_ref: "dec_checked dec_ref"
  using representable_lt by (force simp: dec_checked_def dec_ref_def fit_ref_def)

lemma scaled_representable:
  assumes "representable d" and "\<bar>d * 10 ^ 8\<bar> < 2 ^ 96"
  shows "representable (d * 10 ^ 8)"
proof -
  obtain e where e: "e < 29" "of_int \<lfloor>d * 10 ^ e\<rfloor> = d * 10 ^ e" "\<bar>\<lfloor>d * 10 ^ e\<rfloor>\<bar> < 2 ^ 96"
    using assms(1) by (auto simp: representable_def representable_at_def list_ex_iff)
  let ?m = "\<lfloor>d * 10 ^ e\<rfloor>"
  show ?thesis
  proof (cases "8 \<le> e")
    case True
    have "d * 10 ^ 8 * 10 ^ (e - 8) = d * 10 ^ (8 + (e - 8))"
      by (simp only: mult.assoc power_add)
    also have "\<dots> = of_int ?m" by (simp only: e(2) le_add_diff_inverse [OF True])
    finally have "d * 10 ^ 8 * 10 ^ (e - 8) = of_int ?m" .
    then show ?thesis by (rule representableI [rotated]) (use e in simp_all)
  next
    case False
    then have "d * 10 ^ 8 = d * 10 ^ (e + (8 - e))" by simp
    then have "d * 10 ^ 8 = of_int ?m * 10 ^ (8 - e)" by (simp only: e(2) mult.assoc power_add)
    then have q: "d * 10 ^ 8 = of_int (?m * 10 ^ (8 - e))" by simp
    have "\<bar>?m * 10 ^ (8 - e)\<bar> < 2 ^ 96"
      using assms(2) unfolding q
      by (metis of_int_abs of_int_less_iff of_int_numeral of_int_power)
    then show ?thesis using q by (intro representableI [of 0 _ "?m * 10 ^ (8 - e)"]) auto
  qed
qed

lemma scale_mul:
  assumes "dec_exact D" "dec_checked D" "representable d"
  shows "d_mul D d (of_int SCALE_FACTOR_I128) = (if \<bar>d * 10 ^ 8\<bar> < 2 ^ 96 then Some (d * 10 ^ 8) else None)"
proof -
  have s: "of_int SCALE_FACTOR_I128 = (10 ^ 8 :: rat)" by (simp add: SCALE_FACTOR_I128_def)
  show ?thesis
    using assms(1,2) scaled_representable [OF assms(3)]
    unfolding dec_exact_def dec_checked_def s by (simp add: not_less)
qed

lemma encodable_scaled:
  assumes "encodable d"
  shows "0 \<le> d" "\<bar>d * 10 ^ 8\<bar> < 2 ^ 96" "d * 10 ^ 8 = of_int \<lfloor>d * 10 ^ 8\<rfloor>"
    "0 \<le> \<lfloor>d * 10 ^ 8\<rfloor>" "\<lfloor>d * 10 ^ 8\<rfloor> < 2 ^ 60" "representable d"
proof -
  have d: "0 \<le> d" "of_int \<lfloor>d * 10 ^ 8\<rfloor> = d * 10 ^ 8" "d * 10 ^ 8 < 2 ^ 60"
    using assms by (auto simp: encodable_def is_multiple_def)
  show "0 \<le> d" by (rule d)
  show "d * 10 ^ 8 = of_int \<lfloor>d * 10 ^ 8\<rfloor>" by (rule d(2) [symmetric])
  show "0 \<le> \<lfloor>d * 10 ^ 8\<rfloor>" using d(1) by simp
  have "of_int \<lfloor>d * 10 ^ 8\<rfloor> < (2 ^ 60 :: rat)" using d(2,3) by simp
  then show lt: "\<lfloor>d * 10 ^ 8\<rfloor> < 2 ^ 60"
    by (metis of_int_less_iff of_int_numeral of_int_power)
  have "(2 ^ 60 :: rat) < 2 ^ 96" by simp
  with d show "\<bar>d * 10 ^ 8\<bar> < 2 ^ 96" by (simp add: abs_mult)
  have "(2 ^ 60 :: int) < 2 ^ 96" by simp
  with lt \<open>0 \<le> \<lfloor>d * 10 ^ 8\<rfloor>\<close> d(2) show "representable d"
    by (intro representableI [of 8 d "\<lfloor>d * 10 ^ 8\<rfloor>"]) auto
qed

lemma fr_from_small: "n < 2 ^ 253 \<Longrightarrow> fr_from n = n"
  by (simp add: fr_from_def FR_MODULUS_def)

lemma decimal_to_scalar_Inr:
  assumes "dec_exact D" "dec_checked D" "representable d"
  shows "decimal_to_scalar D d = Inr n \<longleftrightarrow> encodable d \<and> of_nat n = d * 10 ^ 8"
proof
  assume r: "decimal_to_scalar D d = Inr n"
  let ?k = "\<lfloor>d * 10 ^ 8\<rfloor>"
  from r have k: "0 \<le> d" "d * 10 ^ 8 = of_int ?k" "0 \<le> ?k" "?k < 2 ^ 60" "n = fr_from (nat ?k)"
    by (auto simp: decimal_to_scalar_def scale_mul [OF assms] MAX_ENCODED_def Let_def split: if_splits)
  have "of_int ?k < (2 ^ 60 :: rat)"
    using k(4) by (metis of_int_less_iff of_int_numeral of_int_power)
  moreover have "nat ?k < 2 ^ 253" using k(3,4) by (simp add: nat_less_iff)
  ultimately show "encodable d \<and> of_nat n = d * 10 ^ 8"
    using k by (auto simp: encodable_def is_multiple_def fr_from_small)
next
  assume "encodable d \<and> of_nat n = d * 10 ^ 8"
  then have e: "encodable d" and n: "of_nat n = d * 10 ^ 8" by auto
  note s = encodable_scaled [OF e]
  from n have "\<lfloor>d * 10 ^ 8\<rfloor> = int n" by (metis floor_of_nat)
  moreover from this s(5) have "n < 2 ^ 253" by simp
  ultimately show "decimal_to_scalar D d = Inr n"
    using s scale_mul [OF assms] by (simp add: decimal_to_scalar_def MAX_ENCODED_def fr_from_small)
qed

lemma decimal_to_scalar_encodable:
  assumes "dec_exact D" "encodable d"
  shows "decimal_to_scalar D d = Inr (nat \<lfloor>d * 10 ^ 8\<rfloor>)"
proof -
  note s = encodable_scaled [OF assms(2)]
  have "d_mul D d (of_int SCALE_FACTOR_I128) = Some (d * 10 ^ 8)"
    using assms(1) scaled_representable [OF s(6) s(2)]
    by (simp add: SCALE_FACTOR_I128_def dec_exact_def)
  moreover have "nat \<lfloor>d * 10 ^ 8\<rfloor> < 2 ^ 253" by (rule less_trans [of _ "2 ^ 60"]) (use s(4,5) in \<open>simp_all add: nat_less_iff\<close>)
  ultimately show ?thesis using s by (simp add: decimal_to_scalar_def MAX_ENCODED_def fr_from_small)
qed

section \<open>The canonical byte encoding\<close>

lemma length_to_le_bytes [simp]: "length (to_le_bytes k n) = k"
  by (induction k n rule: to_le_bytes.induct) simp_all

lemma be_nat_snoc [simp]: "be_nat (bs @ [b]) = be_nat bs * 256 + unat b" "be_nat [] = 0"
  by (simp_all add: be_nat_def)

lemma be_nat_to_le_bytes: "be_nat (rev (to_le_bytes k n)) = n mod 256 ^ k"
proof (induction k n rule: to_le_bytes.induct)
  case (2 k n)
  have u: "unat (of_nat (n mod 256) :: byte) = n mod 256"
    by (simp add: unat_of_nat)
  have "n mod (256 * 256 ^ k) = 256 * (n div 256 mod 256 ^ k) + n mod 256"
    by (rule mod_mult2_eq)
  with 2 show ?case by (simp add: u)
qed simp

lemma be_nat_less: "be_nat bs < 256 ^ length bs"
proof (induction bs rule: rev_induct)
  case (snoc b bs)
  have "unat b < 256" using unsigned_less [of b, where 'a = nat] by simp
  with snoc show ?case by simp
qed simp

lemma to_le_bytes_be_nat: "length bs = k \<Longrightarrow> to_le_bytes k (be_nat bs) = rev bs"
proof (induction k arbitrary: bs)
  case (Suc k)
  then obtain ys y where bs: "bs = ys @ [y]" by (cases bs rule: rev_exhaust) auto
  have "unat y < 256" using unsigned_less [of y, where 'a = nat] by simp
  then have "(be_nat ys * 256 + unat y) div 256 = be_nat ys"
    "(be_nat ys * 256 + unat y) mod 256 = unat y" by simp_all
  with Suc bs show ?case by simp
qed simp

lemma be_bytes_facts:
  "length (be_bytes k n) = k" "n < 256 ^ k \<Longrightarrow> be_nat (be_bytes k n) = n" "length bs = k \<Longrightarrow> be_bytes k (be_nat bs) = bs"
  by (simp_all add: be_bytes_def be_nat_to_le_bytes to_le_bytes_be_nat)

lemma fr_to_bytes32_rev: "fr_to_bytes32 f = rev (to_le_bytes 32 f)"
  by (rule nth_equalityI) (simp_all add: fr_to_bytes32_def Let_def rev_nth)

lemma length_fr_to_bytes32 [simp]: "length (fr_to_bytes32 f) = 32"
  by (simp add: fr_to_bytes32_rev)

lemma be_nat_fr_to_bytes32: "f < FR_MODULUS \<Longrightarrow> be_nat (fr_to_bytes32 f) = f"
  by (simp add: fr_to_bytes32_rev be_nat_to_le_bytes FR_MODULUS_def)

lemma fr_from_id: "f < FR_MODULUS \<Longrightarrow> fr_from f = f"
  by (simp add: fr_from_def)

lemma fr_from_less [simp]: "fr_from n < FR_MODULUS"
  by (simp add: fr_from_def FR_MODULUS_def)

lemma bytes32_to_scalar_Inr:
  "bytes32_to_scalar b = Inr f \<longleftrightarrow> f < FR_MODULUS \<and> b = fr_to_bytes32 f"
proof
  assume "f < FR_MODULUS \<and> b = fr_to_bytes32 f"
  then show "bytes32_to_scalar b = Inr f"
    by (simp add: bytes32_to_scalar_def bytes_to_scalar_def from_be_bytes_mod_order_def
        be_nat_fr_to_bytes32 fr_from_id)
next
  assume "bytes32_to_scalar b = Inr f"
  then show "f < FR_MODULUS \<and> b = fr_to_bytes32 f"
    using fr_from_less [of "be_nat b"]
    by (auto simp: bytes32_to_scalar_def bytes_to_scalar_def from_be_bytes_mod_order_def Let_def
        simp del: fr_from_less split: if_splits)
qed

lemma fr_to_bytes32_inj: "f < FR_MODULUS \<Longrightarrow> g < FR_MODULUS \<Longrightarrow> fr_to_bytes32 f = fr_to_bytes32 g \<Longrightarrow> f = g"
  using be_nat_fr_to_bytes32 by metis

lemma derive_trader_id_bytes_fr:
  "derive_trader_id_bytes sp key =
     (case bytes_to_scalar key of Inl e \<Rightarrow> Inl e | Inr s \<Rightarrow> Inr (fr_to_bytes32 (sp [s])))"
  by (simp add: derive_trader_id_bytes_def derive_trader_id_def fr_to_bytes32_rev split: sum.splits)

lemma nullifier_domain_ok:
  "nullifier_domain = Inr 99839888443581014330806585965497300342198672258609"
  by (simp add: nullifier_domain_def bytes_to_scalar_def from_be_bytes_mod_order_def be_nat_def
      fr_from_def FR_MODULUS_def)

section \<open>Properties\<close>

text \<open>The scalar encoder accepts a decimal exactly when it is non-negative, has at most eight
  decimal places and stays below \<open>2 ^ 60\<close> after scaling, and the scalar is then the decimal times
  \<open>10 ^ 8\<close>: no rounding, no wrap-around in the field, and two decimals never share a scalar.\<close>

theorem encoder_is_exact:
  assumes "dec_exact D" and "dec_checked D" and "representable d"
  shows "decimal_to_scalar D d = Inr n \<longleftrightarrow> encodable d \<and> of_nat n = d * 10 ^ 8"
  using assms by (rule decimal_to_scalar_Inr)

theorem encoder_is_exact_witness: "decimal_to_scalar dec_ref (3 / 2) = Inr 150000000"
  using encoder_is_exact [OF dec_exact_ref dec_checked_ref, of "3 / 2" 150000000]
    representableI [of 1 "3 / 2" 15]
  by (simp add: encodable_def is_multiple_def)

text \<open>A byte string decodes to a field element exactly when it is that element's canonical
  32-byte encoding: decoding after encoding is the identity, and no second byte string is accepted
  for the same element.\<close>

theorem field_bytes_are_canonical:
  "bytes32_to_scalar b = Inr f \<longleftrightarrow> f < FR_MODULUS \<and> b = fr_to_bytes32 f"
  by (rule bytes32_to_scalar_Inr)

end
