(* ===== verification/Merkle.thy ===== *)
theory Merkle
  imports Encoding "HOL-Library.Countable"
begin

text \<open>
  The canonical Merkle tree over the commitments admitted to a round (\<^verbatim>\<open>dp-zk/src/merkle.rs\<close>).

  The properties: a proof the prover builds recomputes the root; the root does not depend on the
  order of the commitments and, when the hash has no collision among the nodes involved, two sets
  share a root only if they are equal as multisets and a path verifies only for a member or for
  the padding leaf. The last property is about that padding leaf.
\<close>

section \<open>Code\<close>

text \<open>\<open>ZkPanic\<close> is no value of the source: it is the result of a computation that panics.\<close>

datatype zk_error =
    Encoding encoding_error
  | Setup string
  | Prove string
  | Verify
  | Serialize string
  | Io string
  | Witness string
  | Ivc string
  | ZkPanic

definition MERKLE_DEPTH :: nat where
  "MERKLE_DEPTH = 8"

definition MERKLE_LEAVES :: nat where
  "MERKLE_LEAVES = 2 ^ MERKLE_DEPTH"

definition empty_leaf :: fr where
  "empty_leaf = 0"

record merkle_proof =
  mp_siblings :: "fr list"
  mp_index_bits :: "bool list"

definition merkle_proof_default :: merkle_proof where
  "merkle_proof_default =
     \<lparr>mp_siblings = replicate MERKLE_DEPTH 0, mp_index_bits = replicate MERKLE_DEPTH False\<rparr>"

definition canonical_leaves :: "fr list \<Rightarrow> zk_error + fr list" where
  "canonical_leaves commitments =
     (if MERKLE_LEAVES < length commitments then Inl (Witness ''admitted set exceeds Merkle capacity'')
      else if list_ex (\<lambda>c. c = empty_leaf) commitments
        then Inl (Witness ''admitted-set commitment collides with the empty (padding) leaf'')
      else let leaves = sort commitments in
        Inr (leaves @ replicate (MERKLE_LEAVES - length leaves) empty_leaf))"

text \<open>
  \<^verbatim>\<open>chunks(2)\<close>, for the lists of even length the tree has: every level but the root's.
\<close>

fun chunks2 :: "fr list \<Rightarrow> (fr \<times> fr) list" where
  "chunks2 (a # b # xs) = (a, b) # chunks2 xs"
| "chunks2 _ = []"

definition next_level :: "sponge \<Rightarrow> fr list \<Rightarrow> fr list" where
  "next_level sp prev = map (\<lambda>(a, b). hash_two_native sp a b) (chunks2 prev)"

definition build_levels :: "sponge \<Rightarrow> fr list \<Rightarrow> fr list list" where
  "build_levels sp leaves = foldl (\<lambda>levels d. levels @ [next_level sp (levels ! d)]) [leaves] [0..<MERKLE_DEPTH]"

definition admitted_set_root :: "sponge \<Rightarrow> fr list \<Rightarrow> zk_error + fr" where
  "admitted_set_root sp commitments =
     (case canonical_leaves commitments of
        Inl e \<Rightarrow> Inl e
      | Inr leaves \<Rightarrow> Inr (build_levels sp leaves ! MERKLE_DEPTH ! 0))"

fun position_from :: "nat \<Rightarrow> fr \<Rightarrow> fr list \<Rightarrow> nat option" where
  "position_from i x [] = None"
| "position_from i x (y # ys) = (if y = x then Some i else position_from (Suc i) x ys)"

text \<open>The sibling loop: position \<open>node\<close> at level \<open>d\<close>.\<close>

fun sibling_path :: "fr list list \<Rightarrow> nat list \<Rightarrow> nat \<Rightarrow> (fr \<times> bool) list" where
  "sibling_path levels [] node = []"
| "sibling_path levels (d # ds) node =
     (let is_right = (node mod 2 = 1);
          sib = (if is_right then node - 1 else node + 1)
      in (levels ! d ! sib, is_right) # sibling_path levels ds (node div 2))"

definition admitted_set_proof :: "sponge \<Rightarrow> fr list \<Rightarrow> fr \<Rightarrow> zk_error + (fr \<times> merkle_proof) option" where
  "admitted_set_proof sp commitments leaf =
     (case canonical_leaves commitments of
        Inl e \<Rightarrow> Inl e
      | Inr leaves \<Rightarrow>
          (case position_from 0 leaf leaves of
             None \<Rightarrow> Inr None
           | Some idx \<Rightarrow>
               let levels = build_levels sp leaves;
                   rt = levels ! MERKLE_DEPTH ! 0;
                   path = sibling_path levels [0..<MERKLE_DEPTH] idx
               in Inr (Some (rt, \<lparr>mp_siblings = map fst path, mp_index_bits = map snd path\<rparr>))))"

definition proof_step :: "sponge \<Rightarrow> merkle_proof \<Rightarrow> nat \<Rightarrow> fr \<Rightarrow> fr" where
  "proof_step sp pf d cur =
     (if mp_index_bits pf ! d then hash_two_native sp (mp_siblings pf ! d) cur
      else hash_two_native sp cur (mp_siblings pf ! d))"

definition root_from_proof :: "sponge \<Rightarrow> fr \<Rightarrow> merkle_proof \<Rightarrow> fr" where
  "root_from_proof sp leaf pf = fold (proof_step sp pf) [0..<MERKLE_DEPTH] leaf"

definition admitted_chain_step :: "sponge \<Rightarrow> fr \<Rightarrow> fr \<Rightarrow> fr" where
  "admitted_chain_step sp prev rt = hash_two_native sp prev rt"

section \<open>Levels\<close>

lemma length_chunks2: "length (chunks2 xs) = length xs div 2"
  by (induction xs rule: chunks2.induct) auto

lemma length_next_level [simp]: "length (next_level sp xs) = length xs div 2"
  by (simp add: next_level_def length_chunks2)

lemma chunks2_nth: "2 * i + 1 < length xs \<Longrightarrow> chunks2 xs ! i = (xs ! (2 * i), xs ! (2 * i + 1))"
  by (induction xs arbitrary: i rule: chunks2.induct) (auto simp: nth_Cons split: nat.splits)

lemma next_level_nth:
  "2 * i + 1 < length xs \<Longrightarrow> next_level sp xs ! i = hash_two_native sp (xs ! (2 * i)) (xs ! (2 * i + 1))"
  by (simp add: next_level_def length_chunks2 chunks2_nth)

definition level :: "sponge \<Rightarrow> fr list \<Rightarrow> nat \<Rightarrow> fr list" where
  "level sp leaves d = (next_level sp ^^ d) leaves"

lemma level_simps [simp]:
  "level sp leaves 0 = leaves" "level sp leaves (Suc d) = next_level sp (level sp leaves d)"
  by (simp_all add: level_def)

lemma build_levels_upto:
  "foldl (\<lambda>levels d. levels @ [next_level sp (levels ! d)]) [leaves] [0..<n] = map (level sp leaves) [0..<Suc n]"
  by (induction n) (simp_all add: nth_append)

lemma build_levels_nth: "d \<le> MERKLE_DEPTH \<Longrightarrow> build_levels sp leaves ! d = level sp leaves d"
  by (simp add: build_levels_def build_levels_upto del: upt_Suc)

lemma length_level: "length leaves = MERKLE_LEAVES \<Longrightarrow> d \<le> MERKLE_DEPTH \<Longrightarrow> length (level sp leaves d) = 2 ^ (MERKLE_DEPTH - d)"
proof (induction d)
  case (Suc d)
  then have "MERKLE_DEPTH - d = Suc (MERKLE_DEPTH - Suc d)" by simp
  with Suc show ?case by simp
qed (simp add: MERKLE_LEAVES_def)

lemma level_Suc_nth:
  assumes "length leaves = MERKLE_LEAVES" and "d < MERKLE_DEPTH" and "i < 2 ^ (MERKLE_DEPTH - Suc d)"
  shows "level sp leaves (Suc d) ! i = hash_two_native sp (level sp leaves d ! (2 * i)) (level sp leaves d ! (2 * i + 1))"
proof -
  have "MERKLE_DEPTH - d = Suc (MERKLE_DEPTH - Suc d)" using assms(2) by simp
  then have "2 * i + 1 < length (level sp leaves d)"
    using length_level [OF assms(1), of d sp] assms(2,3) by simp
  then show ?thesis by (simp add: next_level_nth)
qed

lemma canonical_leaves_Inr:
  assumes "canonical_leaves cs = Inr leaves"
  shows "length leaves = MERKLE_LEAVES" "set leaves \<subseteq> insert empty_leaf (set cs)" "empty_leaf \<notin> set cs"
    "leaves = sort cs @ replicate (MERKLE_LEAVES - length cs) empty_leaf" "length cs \<le> MERKLE_LEAVES"
  using assms by (auto simp: canonical_leaves_def Let_def list_ex_iff split: if_splits)

lemma position_from_Some:
  "position_from i x ys = Some k \<Longrightarrow> i \<le> k \<and> k - i < length ys \<and> ys ! (k - i) = x"
proof (induction i x ys arbitrary: k rule: position_from.induct)
  case (2 i x y ys)
  show ?case
  proof (cases "y = x")
    case False
    with 2 have "Suc i \<le> k \<and> k - Suc i < length ys \<and> ys ! (k - Suc i) = x" by simp
    then show ?thesis by (auto simp: nth_Cons split: nat.split) (metis Suc_diff_Suc Suc_le_eq nat.inject)+
  qed (use 2 in auto)
qed simp

lemma position_from_None: "position_from i x ys = None \<longleftrightarrow> x \<notin> set ys"
  by (induction i x ys rule: position_from.induct) auto

lemma length_sibling_path [simp]: "length (sibling_path lv ds node) = length ds"
  by (induction lv ds node rule: sibling_path.induct) (simp_all add: Let_def)

lemma sibling_path_nth:
  "k < n \<Longrightarrow> sibling_path lv [i..<i + n] node ! k =
     (let nd = node div 2 ^ k in (lv ! (i + k) ! (if nd mod 2 = 1 then nd - 1 else nd + 1), nd mod 2 = 1))"
proof (induction n arbitrary: i k node)
  case (Suc n)
  have u: "[i..<i + Suc n] = i # [Suc i..<Suc i + n]" by (simp add: upt_rec)
  show ?case
  proof (cases k)
    case 0
    then show ?thesis unfolding u by (simp add: Let_def)
  next
    case (Suc k')
    with Suc.prems Suc.IH [of k' "Suc i" "node div 2"] show ?thesis
      unfolding u by (simp add: Let_def div_mult2_eq)
  qed
qed simp

section \<open>Paths\<close>

definition path_node :: "sponge \<Rightarrow> merkle_proof \<Rightarrow> fr \<Rightarrow> nat \<Rightarrow> fr" where
  "path_node sp pf leaf d = fold (proof_step sp pf) [0..<d] leaf"

lemma path_node_simps [simp]:
  "path_node sp pf leaf 0 = leaf"
  "path_node sp pf leaf (Suc d) = proof_step sp pf d (path_node sp pf leaf d)"
  by (simp_all add: path_node_def)

lemma admitted_set_proof_Some:
  assumes "admitted_set_proof sp cs leaf = Inr (Some (r, pf))"
  obtains leaves idx where "canonical_leaves cs = Inr leaves" "r = level sp leaves MERKLE_DEPTH ! 0"
    "idx < MERKLE_LEAVES" "leaves ! idx = leaf"
    "\<And>d. d < MERKLE_DEPTH \<Longrightarrow> mp_index_bits pf ! d \<longleftrightarrow> idx div 2 ^ d mod 2 = 1"
    "\<And>d. d < MERKLE_DEPTH \<Longrightarrow> mp_siblings pf ! d =
       level sp leaves d ! (if idx div 2 ^ d mod 2 = 1 then idx div 2 ^ d - 1 else idx div 2 ^ d + 1)"
proof -
  obtain leaves idx where l: "canonical_leaves cs = Inr leaves" "position_from 0 leaf leaves = Some idx"
    using assms by (auto simp: admitted_set_proof_def split: sum.splits option.splits)
  let ?path = "sibling_path (build_levels sp leaves) [0..<MERKLE_DEPTH] idx"
  have r: "r = level sp leaves MERKLE_DEPTH ! 0" "pf = \<lparr>mp_siblings = map fst ?path, mp_index_bits = map snd ?path\<rparr>"
    using assms l by (simp_all add: admitted_set_proof_def Let_def build_levels_nth)
  have p: "?path ! d = (level sp leaves d ! (if idx div 2 ^ d mod 2 = 1 then idx div 2 ^ d - 1 else idx div 2 ^ d + 1),
      idx div 2 ^ d mod 2 = 1)" if "d < MERKLE_DEPTH" for d
    using that sibling_path_nth [of d MERKLE_DEPTH "build_levels sp leaves" 0 idx]
    by (simp add: Let_def build_levels_nth)
  have i: "idx < length leaves" "leaves ! idx = leaf" using position_from_Some [OF l(2)] by auto
  show thesis
    by (rule that [OF l(1) r(1) _ i(2)]) (use i canonical_leaves_Inr(1) [OF l(1)] r p in simp_all)
qed

lemma odd_halves: "(n :: nat) mod 2 = 1 \<Longrightarrow> 2 * (n div 2) = n - 1 \<and> n - 1 + 1 = n"
  by presburger

lemma even_halves: "(n :: nat) mod 2 \<noteq> 1 \<Longrightarrow> 2 * (n div 2) = n"
  by presburger

lemma root_from_proof_complete:
  assumes "admitted_set_proof sp cs leaf = Inr (Some (r, pf))"
  shows "root_from_proof sp leaf pf = r \<and> admitted_set_root sp cs = Inr r"
proof -
  obtain leaves idx where a: "canonical_leaves cs = Inr leaves" "r = level sp leaves MERKLE_DEPTH ! 0"
    "idx < MERKLE_LEAVES" "leaves ! idx = leaf"
    and b: "\<And>d. d < MERKLE_DEPTH \<Longrightarrow> mp_index_bits pf ! d \<longleftrightarrow> idx div 2 ^ d mod 2 = 1"
    and s: "\<And>d. d < MERKLE_DEPTH \<Longrightarrow> mp_siblings pf ! d =
       level sp leaves d ! (if idx div 2 ^ d mod 2 = 1 then idx div 2 ^ d - 1 else idx div 2 ^ d + 1)"
    using admitted_set_proof_Some [OF assms] by blast
  note len = canonical_leaves_Inr(1) [OF a(1)]
  have "d \<le> MERKLE_DEPTH \<Longrightarrow> path_node sp pf leaf d = level sp leaves d ! (idx div 2 ^ d)" for d
  proof (induction d)
    case (Suc d)
    then have d: "d < MERKLE_DEPTH" by simp
    let ?n = "idx div 2 ^ d"
    have n: "?n div 2 = idx div 2 ^ Suc d" by (metis div_mult2_eq power_Suc2)
    have "idx < 2 ^ (Suc d + (MERKLE_DEPTH - Suc d))" using a(3) d by (simp add: MERKLE_LEAVES_def)
    then have "?n div 2 < 2 ^ (MERKLE_DEPTH - Suc d)"
      unfolding n power_add by (intro less_mult_imp_div_less) (simp add: ac_simps)
    from level_Suc_nth [OF len d this, of sp]
    have h: "level sp leaves (Suc d) ! (idx div 2 ^ Suc d) =
        hash_two_native sp (level sp leaves d ! (2 * (?n div 2))) (level sp leaves d ! (2 * (?n div 2) + 1))"
      unfolding n .
    have p: "path_node sp pf leaf d = level sp leaves d ! ?n" using Suc by simp
    show ?case
    proof (cases "?n mod 2 = 1")
      case True
      then have "2 * (?n div 2) = ?n - 1 \<and> ?n - 1 + 1 = ?n" by (rule odd_halves)
      then show ?thesis
        unfolding h path_node_simps proof_step_def p b [OF d] s [OF d] using True by simp
    next
      case False
      then have "2 * (?n div 2) = ?n" by (rule even_halves)
      then show ?thesis
        unfolding h path_node_simps proof_step_def p b [OF d] s [OF d] using False by simp
    qed
  qed (simp add: a)
  then have "path_node sp pf leaf MERKLE_DEPTH = r"
    using a by (simp add: MERKLE_LEAVES_def)
  then show ?thesis by (simp add: path_node_def root_from_proof_def admitted_set_root_def a build_levels_nth)
qed

section \<open>Binding\<close>

text \<open>The pairs hashed to build the tree of a set, and those hashed to check a path.\<close>

definition tree_pairs :: "sponge \<Rightarrow> fr list \<Rightarrow> (fr \<times> fr) list" where
  "tree_pairs sp cs =
     (case canonical_leaves cs of
        Inl _ \<Rightarrow> []
      | Inr leaves \<Rightarrow> concat (map chunks2 (build_levels sp leaves)))"

definition path_pairs :: "sponge \<Rightarrow> fr \<Rightarrow> merkle_proof \<Rightarrow> (fr \<times> fr) list" where
  "path_pairs sp leaf pf =
     map (\<lambda>d. if mp_index_bits pf ! d then (mp_siblings pf ! d, path_node sp pf leaf d)
              else (path_node sp pf leaf d, mp_siblings pf ! d)) [0..<MERKLE_DEPTH]"

definition collision_free :: "sponge \<Rightarrow> (fr \<times> fr) list \<Rightarrow> bool" where
  "collision_free sp ps \<longleftrightarrow>
     list_all (\<lambda>p. list_all (\<lambda>q. hash_two_native sp (fst p) (snd p) = hash_two_native sp (fst q) (snd q) \<longrightarrow> p = q) ps) ps"

lemma collision_freeD:
  "collision_free sp ps \<Longrightarrow> (a, b) \<in> set ps \<Longrightarrow> (c, d) \<in> set ps \<Longrightarrow>
     hash_two_native sp a b = hash_two_native sp c d \<Longrightarrow> a = c \<and> b = d"
  by (force simp: collision_free_def list_all_iff)

lemma tree_pairs_nth:
  assumes "canonical_leaves cs = Inr leaves" and "d < MERKLE_DEPTH" and "i < 2 ^ (MERKLE_DEPTH - Suc d)"
  shows "(level sp leaves d ! (2 * i), level sp leaves d ! (2 * i + 1)) \<in> set (tree_pairs sp cs)"
proof -
  have "MERKLE_DEPTH - d = Suc (MERKLE_DEPTH - Suc d)" using assms(2) by simp
  then have "2 * i + 1 < length (level sp leaves d)"
    using length_level [OF canonical_leaves_Inr(1) [OF assms(1)], of d sp] assms(2,3) by simp
  then have c: "chunks2 (level sp leaves d) ! i = (level sp leaves d ! (2 * i), level sp leaves d ! (2 * i + 1))"
      and "i < length (chunks2 (level sp leaves d))" by (simp_all add: chunks2_nth length_chunks2)
  then have "(level sp leaves d ! (2 * i), level sp leaves d ! (2 * i + 1)) \<in> set (chunks2 (level sp leaves d))"
    by (metis nth_mem)
  moreover have "level sp leaves d \<in> set (build_levels sp leaves)"
    using assms(2) by (auto simp: build_levels_def build_levels_upto simp del: upt_Suc)
  ultimately show ?thesis by (auto simp: tree_pairs_def assms(1))
qed

lemma path_pairs_nth:
  "d < MERKLE_DEPTH \<Longrightarrow>
     (if mp_index_bits pf ! d then (mp_siblings pf ! d, path_node sp pf leaf d)
      else (path_node sp pf leaf d, mp_siblings pf ! d)) \<in> set (path_pairs sp leaf pf)"
  unfolding path_pairs_def set_map by (rule image_eqI [OF refl]) simp

lemma path_descends:
  assumes leaves: "canonical_leaves cs = Inr leaves"
    and free: "collision_free sp (tree_pairs sp cs @ path_pairs sp leaf pf)"
    and top: "path_node sp pf leaf MERKLE_DEPTH = level sp leaves MERKLE_DEPTH ! 0"
  shows "k \<le> MERKLE_DEPTH \<Longrightarrow> \<exists>j < 2 ^ k. path_node sp pf leaf (MERKLE_DEPTH - k) = level sp leaves (MERKLE_DEPTH - k) ! j"
proof (induction k)
  case (Suc k)
  let ?d = "MERKLE_DEPTH - Suc k"
  have d: "?d < MERKLE_DEPTH" "MERKLE_DEPTH - k = Suc ?d" "MERKLE_DEPTH - Suc ?d = k" using Suc.prems by simp_all
  from Suc obtain j where j: "j < 2 ^ k" "path_node sp pf leaf (Suc ?d) = level sp leaves (Suc ?d) ! j"
    using d(2) by auto
  let ?l = "level sp leaves ?d ! (2 * j)" let ?r = "level sp leaves ?d ! (2 * j + 1)"
  let ?p = "path_node sp pf leaf ?d" let ?s = "mp_siblings pf ! ?d"
  have "level sp leaves (Suc ?d) ! j = hash_two_native sp ?l ?r"
    using level_Suc_nth [OF canonical_leaves_Inr(1) [OF leaves] d(1)] j(1) d(3) by simp
  with j(2) have h: "proof_step sp pf ?d ?p = hash_two_native sp ?l ?r" by simp
  have t: "(?l, ?r) \<in> set (tree_pairs sp cs @ path_pairs sp leaf pf)"
    using tree_pairs_nth [OF leaves d(1)] j(1) d(3) by simp
  show ?case
  proof (cases "mp_index_bits pf ! ?d")
    case True
    with path_pairs_nth [OF d(1), of pf sp leaf] collision_freeD [OF free _ t, of ?s ?p] h
    have "?p = ?r" by (simp add: proof_step_def)
    with j(1) show ?thesis by (intro exI [of _ "2 * j + 1"]) simp
  next
    case False
    with path_pairs_nth [OF d(1), of pf sp leaf] collision_freeD [OF free _ t, of ?p ?s] h
    have "?p = ?l" by (simp add: proof_step_def)
    with j(1) show ?thesis by (intro exI [of _ "2 * j"]) simp
  qed
qed (simp add: top)

lemma path_binding:
  assumes "admitted_set_root sp cs = Inr r" and "root_from_proof sp leaf pf = r"
    and "collision_free sp (tree_pairs sp cs @ path_pairs sp leaf pf)"
  shows "leaf \<in> set cs \<or> leaf = empty_leaf"
proof -
  obtain leaves where l: "canonical_leaves cs = Inr leaves" "r = level sp leaves MERKLE_DEPTH ! 0"
    using assms(1) by (auto simp: admitted_set_root_def build_levels_nth split: sum.splits)
  have "path_node sp pf leaf MERKLE_DEPTH = level sp leaves MERKLE_DEPTH ! 0"
    using assms(2) l by (simp add: root_from_proof_def path_node_def)
  from path_descends [OF l(1) assms(3) this, of MERKLE_DEPTH]
  have "leaf \<in> set leaves"
    using canonical_leaves_Inr(1) [OF l(1)] by (auto simp: MERKLE_LEAVES_def)
  then show ?thesis using canonical_leaves_Inr(2) [OF l(1)] by blast
qed

lemma level_binding:
  assumes "canonical_leaves cs = Inr l" "canonical_leaves cs' = Inr l'"
    and free: "collision_free sp (tree_pairs sp cs @ tree_pairs sp cs')"
    and "d < MERKLE_DEPTH" and eq: "level sp l (Suc d) = level sp l' (Suc d)"
  shows "level sp l d = level sp l' d"
proof (rule nth_equalityI)
  note len = length_level [OF canonical_leaves_Inr(1) [OF assms(1)], of d sp]
    length_level [OF canonical_leaves_Inr(1) [OF assms(2)], of d sp]
  show "length (level sp l d) = length (level sp l' d)" using len assms(4) by simp
  fix i assume "i < length (level sp l d)"
  moreover have "MERKLE_DEPTH - d = Suc (MERKLE_DEPTH - Suc d)" using assms(4) by simp
  ultimately have j: "i div 2 < 2 ^ (MERKLE_DEPTH - Suc d)"
    using len assms(4) by (simp add: less_mult_imp_div_less mult.commute)
  from level_Suc_nth [OF canonical_leaves_Inr(1) [OF assms(1)] assms(4) j, of sp]
    level_Suc_nth [OF canonical_leaves_Inr(1) [OF assms(2)] assms(4) j, of sp] eq
  have "level sp l d ! (2 * (i div 2)) = level sp l' d ! (2 * (i div 2)) \<and>
        level sp l d ! (2 * (i div 2) + 1) = level sp l' d ! (2 * (i div 2) + 1)"
    using tree_pairs_nth [OF assms(1,4) j, of sp] tree_pairs_nth [OF assms(2,4) j, of sp]
    by (intro collision_freeD [OF free]) auto
  moreover have "i = 2 * (i div 2) \<or> i = 2 * (i div 2) + 1" by presburger
  ultimately show "level sp l d ! i = level sp l' d ! i" by metis
qed

lemma root_binding:
  assumes "admitted_set_root sp cs = Inr r" "admitted_set_root sp cs' = Inr r"
    and free: "collision_free sp (tree_pairs sp cs @ tree_pairs sp cs')"
  shows "mset cs = mset cs'"
proof -
  obtain l where l: "canonical_leaves cs = Inr l" "r = level sp l MERKLE_DEPTH ! 0"
    using assms(1) by (auto simp: admitted_set_root_def build_levels_nth split: sum.splits)
  obtain l' where l': "canonical_leaves cs' = Inr l'" "r = level sp l' MERKLE_DEPTH ! 0"
    using assms(2) by (auto simp: admitted_set_root_def build_levels_nth split: sum.splits)
  have top: "level sp l MERKLE_DEPTH = level sp l' MERKLE_DEPTH"
    using l(2) l'(2) length_level [OF canonical_leaves_Inr(1) [OF l(1)], of MERKLE_DEPTH sp]
      length_level [OF canonical_leaves_Inr(1) [OF l'(1)], of MERKLE_DEPTH sp]
    by (intro nth_equalityI) auto
  have "k \<le> MERKLE_DEPTH \<Longrightarrow> level sp l (MERKLE_DEPTH - k) = level sp l' (MERKLE_DEPTH - k)" for k
  proof (induction k)
    case (Suc k)
    then have "MERKLE_DEPTH - k = Suc (MERKLE_DEPTH - Suc k)" "MERKLE_DEPTH - Suc k < MERKLE_DEPTH" by simp_all
    with level_binding [OF l(1) l'(1) free, of "MERKLE_DEPTH - Suc k"] Suc show ?case by simp
  qed (simp add: top)
  from this [of MERKLE_DEPTH] have "l = l'" by simp
  then have "filter (\<lambda>c. c \<noteq> empty_leaf) l = filter (\<lambda>c. c \<noteq> empty_leaf) l'" by simp
  moreover have "filter (\<lambda>c. c \<noteq> empty_leaf) (sort cs) = sort cs"
    using canonical_leaves_Inr(3) [OF l(1)] by (auto simp: filter_id_conv)
  moreover have "filter (\<lambda>c. c \<noteq> empty_leaf) (sort cs') = sort cs'"
    using canonical_leaves_Inr(3) [OF l'(1)] by (auto simp: filter_id_conv)
  ultimately have "sort cs = sort cs'"
    using canonical_leaves_Inr(4) [OF l(1)] canonical_leaves_Inr(4) [OF l'(1)] by simp
  then show ?thesis by (metis mset_sort)
qed

lemma canonical_leaves_mset: "mset cs = mset cs' \<Longrightarrow> canonical_leaves cs = canonical_leaves cs'"
  using mset_eq_setD [of cs cs'] properties_for_sort [of "sort cs'" cs] mset_eq_length [of cs cs']
  by (simp add: canonical_leaves_def list_ex_iff)

lemma admitted_set_root_mset: "mset cs = mset cs' \<Longrightarrow> admitted_set_root sp cs = admitted_set_root sp cs'"
  by (simp add: admitted_set_root_def canonical_leaves_mset [of cs cs'])

lemma admitted_set_root_Inr:
  "(\<exists>r. admitted_set_root sp cs = Inr r) \<longleftrightarrow> length cs \<le> MERKLE_LEAVES \<and> empty_leaf \<notin> set cs"
  by (auto simp: admitted_set_root_def canonical_leaves_def Let_def list_ex_iff)

lemma admitted_set_proof_member:
  assumes "length cs \<le> MERKLE_LEAVES" and "empty_leaf \<notin> set cs" and "leaf \<in> set cs"
  shows "\<exists>x. admitted_set_proof sp cs leaf = Inr (Some x)"
proof -
  obtain leaves where l: "canonical_leaves cs = Inr leaves"
    using assms by (auto simp: canonical_leaves_def Let_def list_ex_iff)
  then have "leaf \<in> set leaves" using canonical_leaves_Inr(4) [OF l] assms(3) by simp
  then obtain k where "position_from 0 leaf leaves = Some k"
    using position_from_None [of 0 leaf leaves] by auto
  then show ?thesis by (simp add: admitted_set_proof_def l Let_def)
qed

section \<open>A collision-free sponge for the witnesses\<close>

definition sponge_ref :: sponge where
  "sponge_ref xs = list_encode xs"

lemma sponge_ref_inj: "sponge_ref xs = sponge_ref ys \<longleftrightarrow> xs = ys"
  by (simp add: sponge_ref_def list_encode_eq)

lemma collision_free_ref: "collision_free sponge_ref ps"
  by (auto simp: collision_free_def list_all_iff hash_two_native_def sponge_ref_inj)

section \<open>Properties\<close>

text \<open>The prover's membership proof is complete: whenever the tree returns a proof for a leaf,
  the verifier's recomputation from that leaf and proof is the root of the admitted set.\<close>

theorem membership_proof_verifies:
  assumes "admitted_set_proof sp cs leaf = Inr (Some (r, pf))"
  shows "root_from_proof sp leaf pf = r \<and> admitted_set_root sp cs = Inr r"
  using assms by (rule root_from_proof_complete)

theorem membership_proof_verifies_witness:
  "\<exists>r pf. admitted_set_proof sponge_ref [5, 3] 5 = Inr (Some (r, pf)) \<and>
     root_from_proof sponge_ref 5 pf = r \<and> admitted_set_root sponge_ref [5, 3] = Inr r"
proof -
  obtain r pf where "admitted_set_proof sponge_ref [5, 3] 5 = Inr (Some (r, pf))"
    by (simp add: admitted_set_proof_def canonical_leaves_def MERKLE_LEAVES_def MERKLE_DEPTH_def
        empty_leaf_def Let_def)
  with membership_proof_verifies [OF this] show ?thesis by blast
qed

text \<open>C27. The root binds the admitted set: if the node hash has no collision among the pairs the two
  trees hash, two commitment lists have the same root exactly when they hold the same
  commitments with the same multiplicities, in whatever order.\<close>

theorem root_binds_admitted_set:
  assumes "admitted_set_root sp cs = Inr r" and "admitted_set_root sp cs' = Inr r'"
    and "collision_free sp (tree_pairs sp cs @ tree_pairs sp cs')"
  shows "r = r' \<longleftrightarrow> mset cs = mset cs'"
  using assms root_binding [of sp cs r cs'] admitted_set_root_mset [of cs cs' sp] by auto

theorem root_binds_admitted_set_witness:
  "\<exists>r r'. admitted_set_root sponge_ref [5, 3] = Inr r \<and> admitted_set_root sponge_ref [5, 3, 3] = Inr r' \<and> r \<noteq> r'"
proof -
  obtain r r' where r: "admitted_set_root sponge_ref [5, 3] = Inr r" "admitted_set_root sponge_ref [5, 3, 3] = Inr r'"
    using admitted_set_root_Inr [of sponge_ref "[5, 3]"] admitted_set_root_Inr [of sponge_ref "[5, 3, 3]"]
    by (auto simp: MERKLE_LEAVES_def MERKLE_DEPTH_def empty_leaf_def)
  with root_binds_admitted_set [OF r collision_free_ref] show ?thesis by auto
qed

text \<open>C28. A path that verifies against the root of an admitted set is for one of its commitments or
  for the padding leaf zero, unless the node hash has a collision between a pair of the tree and a
  pair of the path: an order that was never admitted cannot be shown a member.\<close>

theorem only_members_have_paths:
  assumes "admitted_set_root sp cs = Inr r" and "root_from_proof sp leaf pf = r"
    and "collision_free sp (tree_pairs sp cs @ path_pairs sp leaf pf)"
  shows "leaf \<in> set cs \<or> leaf = empty_leaf"
  using assms by (rule path_binding)

theorem only_members_have_paths_witness:
  "\<exists>r. admitted_set_root sponge_ref [5, 3] = Inr r \<and> (\<forall>pf. root_from_proof sponge_ref 4 pf \<noteq> r)"
proof -
  obtain r where r: "admitted_set_root sponge_ref [5, 3] = Inr r"
    using admitted_set_root_Inr [of sponge_ref "[5, 3]"]
    by (auto simp: MERKLE_LEAVES_def MERKLE_DEPTH_def empty_leaf_def)
  with only_members_have_paths [OF r _ collision_free_ref, of 4] show ?thesis
    by (auto simp: empty_leaf_def)
qed

text \<open>The padding leaf has a membership proof in every admitted set that does not fill the tree,
  although it is never a member: \<^verbatim>\<open>admitted_set_proof\<close> does not return \<^verbatim>\<open>Ok(None)\<close> for it.\<close>

theorem padding_leaf_has_a_proof:
  assumes "length cs < MERKLE_LEAVES" and "empty_leaf \<notin> set cs"
  shows "\<exists>r pf. admitted_set_proof sp cs empty_leaf = Inr (Some (r, pf))"
proof -
  obtain leaves where l: "canonical_leaves cs = Inr leaves"
    using assms by (auto simp: canonical_leaves_def Let_def list_ex_iff)
  have "empty_leaf \<in> set leaves" using canonical_leaves_Inr(4) [OF l] assms(1) by simp
  then obtain k where "position_from 0 empty_leaf leaves = Some k"
    using position_from_None [of 0 empty_leaf leaves] by auto
  then show ?thesis by (simp add: admitted_set_proof_def l Let_def)
qed

theorem padding_leaf_has_a_proof_witness:
  "\<exists>r pf. admitted_set_proof sponge_ref [5, 3] empty_leaf = Inr (Some (r, pf))"
  using padding_leaf_has_a_proof [of "[5, 3]" sponge_ref]
  by (simp add: MERKLE_LEAVES_def MERKLE_DEPTH_def empty_leaf_def)

end
