(* ===== verification/EngineState.thy ===== *)
theory EngineState
  imports Auction Book Merkle
begin

text \<open>
  The state of the engine (\<^verbatim>\<open>dp-engine/src/state.rs\<close>, \<^verbatim>\<open>error.rs\<close>, and the settlement rows of
  \<^verbatim>\<open>dp-settlement/src/lib.rs\<close>): the pair registry, pending batches, the auction log, the three
  spent sets, the persistable subset of it all, and the retry back-off.

  A \<^verbatim>\<open>Duration\<close> is a number of nanoseconds and an \<^verbatim>\<open>Instant\<close> or \<^verbatim>\<open>DateTime\<close> a \<open>time\<close>. Errors that come
  from the decrypter or the aggregator are kept as their message. \<open>EnginePanic\<close> is no value of
  the source: it is the result of an operation that panics.
\<close>

section \<open>Settlement rows\<close>

type_synonym duration = nat

datatype settlement_error =
    TooManyMatches nat
  | InvalidProofLength nat nat
  | NegativeAmount
  | PrecisionLoss
  | SubCircuitPrecision
  | InvalidBytes32
  | ParseError string
  | Rpc string
  | SignerError string
  | SettlementIo string

record settlement_match =
  sm_bid_order_id :: uuid
  sm_ask_order_id :: uuid
  sm_bid_trader :: address
  sm_ask_trader :: address
  sm_base_token :: address
  sm_quote_token :: address
  sm_price :: decimal
  sm_size :: decimal

section \<open>Errors\<close>

datatype engine_error =
    Validation dark_pool_error
  | DecryptErr string
  | AggregateErr string
  | SubmitErr settlement_error
  | BalanceLookup settlement_error
  | EventErr event_error
  | RecoverDecrypt uuid string
  | RecoverCommitmentMismatch uuid
  | RecoverSaltInvalid uuid
  | RecoverReAggregate uuid string
  | WitnessSecretMissing uuid
  | WitnessOrderMissing uuid
  | CommitmentEncoding encoding_error
  | PairNotConfigured string
  | RecoveredBatchPublicInputsMissing uuid
  | SnapshotsCorruptAndLogTruncated
  | EnginePanic

datatype settlement_resolve_err = OrderMissing uuid | PairMissing string

section \<open>The registry\<close>

datatype pair_status = Active | Suspended | Delisted

fun is_active :: "pair_status \<Rightarrow> bool" where
  "is_active Active = True"
| "is_active Suspended = False"
| "is_active Delisted = False"

definition default_token_decimals :: nat where
  "default_token_decimals = 18"

record pair_config =
  pc_base_token :: address
  pc_quote_token :: address
  pc_base_decimals :: nat
  pc_quote_decimals :: nat
  pc_min_order_size :: decimal
  pc_tick_size :: decimal
  pc_auction_interval :: "duration option"
  pc_status :: pair_status

definition pair_config_new :: "address \<Rightarrow> address \<Rightarrow> pair_config" where
  "pair_config_new b q =
     \<lparr>pc_base_token = b, pc_quote_token = q, pc_base_decimals = default_token_decimals,
      pc_quote_decimals = default_token_decimals, pc_min_order_size = 0, pc_tick_size = 0,
      pc_auction_interval = None, pc_status = Active\<rparr>"

definition pair_config_default :: pair_config where
  "pair_config_default = pair_config_new 0 0"

definition try_build_settlement_row ::
  "auction_match \<Rightarrow> (uuid, order) hash_map \<Rightarrow> (string, pair_config) hash_map
   \<Rightarrow> settlement_resolve_err + settlement_match" where
  "try_build_settlement_row m orders pairs =
     (case hm_get orders (fill_order_id (m_bid m)) of
        None \<Rightarrow> Inl (OrderMissing (fill_order_id (m_bid m)))
      | Some bid \<Rightarrow>
          (case hm_get orders (fill_order_id (m_ask m)) of
             None \<Rightarrow> Inl (OrderMissing (fill_order_id (m_ask m)))
           | Some ask \<Rightarrow>
               (case hm_get pairs (order_pair bid) of
                  None \<Rightarrow> Inl (PairMissing (order_pair bid))
                | Some cfg \<Rightarrow> Inr
                    \<lparr>sm_bid_order_id = fill_order_id (m_bid m), sm_ask_order_id = fill_order_id (m_ask m),
                     sm_bid_trader = trader bid, sm_ask_trader = trader ask,
                     sm_base_token = pc_base_token cfg, sm_quote_token = pc_quote_token cfg,
                     sm_price = m_price m, sm_size = m_size m\<rparr>)))"

section \<open>Batches and the auction log\<close>

datatype proof_payload =
  IvcFinal (ivc_proof_bytes: bytes) (ivc_z_0: "bytes list") (ivc_z_n: "bytes list")
    (ivc_n_steps: nat) (ivc_policy_hash: bytes)

record pending_batch =
  pb_batch_id :: uuid
  pb_auction_id :: uuid
  pb_matches :: "auction_match list"
  pb_settlement_matches :: "settlement_match list"
  pb_proof :: bytes
  pb_public_inputs :: "nat list"
  pb_ivc_payload :: "proof_payload option"
  pb_attempts :: nat
  pb_next_attempt :: "time option"
  pb_submitting :: bool

record auction_executed_record =
  ae_auction_id :: uuid
  ae_pair :: string
  ae_clearing_price :: decimal
  ae_matched_volume :: decimal
  ae_match_count :: nat
  ae_timestamp :: time

section \<open>The state\<close>

definition DEFAULT_AUCTION_INTERVAL :: duration where
  "DEFAULT_AUCTION_INTERVAL = 5 * 1000000000"

definition DEFAULT_ORDER_TTL :: duration where
  "DEFAULT_ORDER_TTL = 600 * 1000000000"

definition DEFAULT_SUBMIT_TIMEOUT :: duration where
  "DEFAULT_SUBMIT_TIMEOUT = 10 * 1000000000"

definition DEFAULT_MIN_BACKOFF :: duration where
  "DEFAULT_MIN_BACKOFF = 1 * 1000000000"

definition DEFAULT_MAX_BACKOFF :: duration where
  "DEFAULT_MAX_BACKOFF = 60 * 1000000000"

record engine_state =
  es_book :: book
  es_pair_tokens :: "(string, pair_config) hash_map"
  es_auction_log :: "auction_executed_record list"
  es_pending_batches :: "(uuid, pending_batch) hash_map"
  es_seen_ciphertexts :: "bytes list"
  es_spent_nullifiers :: "bytes list"
  es_spent_order_nonces :: "bytes list"
  es_submit_timeout :: duration
  es_min_backoff :: duration
  es_max_backoff :: duration
  es_default_ttl :: duration
  es_recovered :: bool

definition engine_state_new :: engine_state where
  "engine_state_new =
     \<lparr>es_book = book_new, es_pair_tokens = [], es_auction_log = [], es_pending_batches = [],
      es_seen_ciphertexts = [], es_spent_nullifiers = [], es_spent_order_nonces = [],
      es_submit_timeout = DEFAULT_SUBMIT_TIMEOUT, es_min_backoff = DEFAULT_MIN_BACKOFF,
      es_max_backoff = DEFAULT_MAX_BACKOFF, es_default_ttl = DEFAULT_ORDER_TTL, es_recovered = False\<rparr>"

definition reset_projection :: "engine_state \<Rightarrow> engine_state" where
  "reset_projection s =
     s\<lparr>es_book := book_new, es_pair_tokens := [], es_auction_log := [], es_pending_batches := [],
       es_seen_ciphertexts := [], es_spent_nullifiers := [], es_spent_order_nonces := []\<rparr>"

definition pair_config_of :: "engine_state \<Rightarrow> string \<Rightarrow> pair_config option" where
  "pair_config_of s p = hm_get (es_pair_tokens s) p"

section \<open>Snapshots of the state\<close>

record serializable_state =
  ss_book :: book
  ss_pair_tokens :: "(string, pair_config) hash_map"
  ss_auction_log :: "auction_executed_record list"
  ss_pending_batches :: "(uuid, pending_batch) hash_map"
  ss_seen_ciphertexts :: "bytes list"
  ss_spent_nullifiers :: "bytes list"
  ss_spent_order_nonces :: "bytes list"

definition book_to_snapshot :: "book \<Rightarrow> book" where
  "book_to_snapshot b = b"

definition book_restore_from :: "book \<Rightarrow> book \<Rightarrow> book" where
  "book_restore_from snap b = snap"

definition to_serializable :: "engine_state \<Rightarrow> serializable_state" where
  "to_serializable s =
     \<lparr>ss_book = book_to_snapshot (es_book s), ss_pair_tokens = es_pair_tokens s,
      ss_auction_log = es_auction_log s, ss_pending_batches = es_pending_batches s,
      ss_seen_ciphertexts = es_seen_ciphertexts s, ss_spent_nullifiers = es_spent_nullifiers s,
      ss_spent_order_nonces = es_spent_order_nonces s\<rparr>"

definition restore_from_serializable :: "serializable_state \<Rightarrow> engine_state \<Rightarrow> engine_state" where
  "restore_from_serializable snap s =
     s\<lparr>es_book := book_restore_from (ss_book snap) (es_book s), es_pair_tokens := ss_pair_tokens snap,
       es_auction_log := ss_auction_log snap, es_pending_batches := ss_pending_batches snap,
       es_seen_ciphertexts := ss_seen_ciphertexts snap, es_spent_nullifiers := ss_spent_nullifiers snap,
       es_spent_order_nonces := ss_spent_order_nonces snap\<rparr>"

section \<open>Back-off\<close>

text \<open>Shifting a \<^verbatim>\<open>Duration\<close>'s nanoseconds, below \<open>2 ^ 94\<close>, by at most 31 bits stays in a \<^verbatim>\<open>u128\<close>.\<close>

definition compute_backoff :: "duration \<Rightarrow> duration \<Rightarrow> nat \<Rightarrow> duration" where
  "compute_backoff mn mx attempts =
     (if mn = 0 then 0
      else let attempts = max attempts 1;
               shift = min (attempts - 1) 31;
               nanos = mn * 2 ^ shift
           in if mx < nanos then mx else min nanos (2 ^ 64 - 1))"

section \<open>Sets as insertion lists\<close>

text \<open>A \<^verbatim>\<open>HashSet\<close> is a list without duplicates, in insertion order: only membership is ever asked.\<close>

definition hs_insert :: "'a \<Rightarrow> 'a list \<Rightarrow> 'a list" where
  "hs_insert x xs = (if x \<in> set xs then xs else xs @ [x])"

lemma set_hs_insert [simp]: "set (hs_insert x xs) = insert x (set xs)"
  by (auto simp: hs_insert_def)

lemma distinct_hs_insert [simp]: "distinct (hs_insert x xs) = distinct xs"
  by (auto simp: hs_insert_def)

section \<open>Properties\<close>

lemma backoff_cases:
  "compute_backoff mn mx a =
     (if mn = 0 then 0 else if mx < mn * 2 ^ min (a - 1) 31 then mx else min (mn * 2 ^ min (a - 1) 31) (2 ^ 64 - 1))"
  by (cases a) (simp_all add: compute_backoff_def Let_def)

text \<open>The retry delay doubles with every failed attempt, from the minimum up to the maximum, and
  never decreases: for bounds below \<open>2 ^ 64\<close> nanoseconds it is the smaller of the maximum and the
  minimum times \<open>2 ^ (attempts - 1)\<close>, the exponent capped at 31.\<close>

theorem backoff_doubles_up_to_max:
  assumes "0 < mn" and "mn \<le> mx" and "mx < 2 ^ 64"
  shows "compute_backoff mn mx a = min mx (mn * 2 ^ min (a - 1) 31) \<and>
    mn \<le> compute_backoff mn mx a \<and> compute_backoff mn mx a \<le> compute_backoff mn mx (Suc a)"
proof -
  have eq: "compute_backoff mn mx a = min mx (mn * 2 ^ min (a - 1) 31)" for a
    using assms by (auto simp: backoff_cases)
  have "mn * 2 ^ min (a - 1) 31 \<le> mn * 2 ^ min (Suc a - 1) 31"
    by (intro mult_left_mono power_increasing) auto
  then have "min mx (mn * 2 ^ min (a - 1) 31) \<le> min mx (mn * 2 ^ min (Suc a - 1) 31)"
    by (intro min.mono order.refl)
  then show ?thesis unfolding eq using assms(2) by simp
qed

theorem backoff_doubles_up_to_max_witness:
  "compute_backoff 1000 60000 4 = 8000 \<and> compute_backoff 1000 60000 40 = 60000"
  using backoff_doubles_up_to_max [of 1000 60000 4] backoff_doubles_up_to_max [of 1000 60000 40]
  by simp

end
