(* ===== verification/ZkRows.thy ===== *)
theory ZkRows
  imports Merkle
begin

text \<open>
  The witness of a batch and the external inputs of one folding step: \<^verbatim>\<open>dp-zk/src/witness.rs\<close> and the
  native part of \<^verbatim>\<open>dp-zk/src/step_circuit.rs\<close>. The step circuit is in
  theory \<open>StepCircuit\<close>.

  Hexadecimal text is decoded by a third-party crate, a parameter. A signed integer that the source
  prints and parses again (\<^verbatim>\<open>position\<close>, \<^verbatim>\<open>position_limit\<close>) is kept as the integer.

  The lemmas show what a successful build guarantees: the width of the circuit, and for every active
  row a membership path of both legs' commitments under the round's root.
\<close>

section \<open>Witnesses\<close>

record order_leg_witness =
  lw_trader_id :: string
  lw_salt :: string
  lw_balance :: decimal
  lw_position :: int
  lw_limit_price :: decimal
  lw_order_size :: decimal
  lw_side :: nat
  lw_trader_addr :: string

record match_witness =
  mw_bid :: order_leg_witness
  mw_ask :: order_leg_witness

record policy =
  po_min_size :: decimal
  po_min_price :: decimal
  po_position_limit :: int

definition into_policy :: policy where
  "into_policy = \<lparr>po_min_size = 1 / 10 ^ 8, po_min_price = 1 / 10 ^ 8, po_position_limit = 2 ^ 58\<rparr>"

record batch_witness =
  bw_batch_id :: uuid
  bw_auction_id :: uuid
  bw_matches :: "match_witness list"
  bw_policy :: policy

definition batch_witness_empty :: "uuid \<Rightarrow> uuid \<Rightarrow> batch_witness" where
  "batch_witness_empty b a = \<lparr>bw_batch_id = b, bw_auction_id = a, bw_matches = [], bw_policy = into_policy\<rparr>"

fun trim_start_0x :: "string \<Rightarrow> string" where
  "trim_start_0x (c # d # s) = (if c = CHR ''0'' \<and> d = CHR ''x'' then trim_start_0x s else c # d # s)"
| "trim_start_0x s = s"

type_synonym hex_decode = "string \<Rightarrow> bytes option"

definition trader_id_bytes :: "hex_decode \<Rightarrow> order_leg_witness \<Rightarrow> bytes option" where
  "trader_id_bytes hx l = hx (trim_start_0x (lw_trader_id l))"

definition salt_bytes :: "hex_decode \<Rightarrow> order_leg_witness \<Rightarrow> bytes option" where
  "salt_bytes hx l = hx (trim_start_0x (lw_salt l))"

definition trader_addr_bytes :: "hex_decode \<Rightarrow> order_leg_witness \<Rightarrow> bytes option" where
  "trader_addr_bytes hx l = hx (trim_start_0x (lw_trader_addr l))"

definition trader_addr_scalar :: "hex_decode \<Rightarrow> order_leg_witness \<Rightarrow> zk_error + fr" where
  "trader_addr_scalar hx l =
     bindE (ok_or (Witness ''trader_addr'') (trader_addr_bytes hx l)) (\<lambda>bs.
     mapErr (\<lambda>_. Witness ''trader_addr'') (bytes_to_scalar bs))"

definition balance_scalar :: "dec_ops \<Rightarrow> order_leg_witness \<Rightarrow> zk_error + fr" where
  "balance_scalar D l = mapErr Encoding (decimal_to_scalar D (lw_balance l))"

definition limit_price_scalar :: "dec_ops \<Rightarrow> order_leg_witness \<Rightarrow> zk_error + fr" where
  "limit_price_scalar D l = mapErr Encoding (decimal_to_scalar D (lw_limit_price l))"

definition order_size_scalar :: "dec_ops \<Rightarrow> order_leg_witness \<Rightarrow> zk_error + fr" where
  "order_size_scalar D l = mapErr Encoding (decimal_to_scalar D (lw_order_size l))"

definition signed_scalar :: "int \<Rightarrow> zk_error + fr" where
  "signed_scalar x = bindE (ok_or ZkPanic (signed_to_scalar x)) (mapErr Encoding)"

definition position_scalar :: "order_leg_witness \<Rightarrow> zk_error + fr" where
  "position_scalar l = signed_scalar (lw_position l)"

section \<open>Rows\<close>

definition IVC_BATCH_SIZE :: nat where
  "IVC_BATCH_SIZE = 8"

text \<open>One leg of \<^verbatim>\<open>CircuitMatchNative\<close>; the source repeats these fields for the bid and the ask.\<close>

record circuit_leg =
  cl_trader :: fr
  cl_salt :: fr
  cl_limit_price :: fr
  cl_side :: fr
  cl_balance :: fr
  cl_position :: fr
  cl_trader_addr :: fr
  cl_order_size :: fr
  cl_path :: merkle_proof

record circuit_match =
  cm_bid :: circuit_leg
  cm_ask :: circuit_leg
  cm_price :: fr
  cm_size :: fr
  cm_is_active :: fr

definition circuit_leg_default :: "fr \<Rightarrow> circuit_leg" where
  "circuit_leg_default sd =
     \<lparr>cl_trader = 0, cl_salt = 0, cl_limit_price = 0, cl_side = sd, cl_balance = 0, cl_position = 0,
      cl_trader_addr = 0, cl_order_size = 0, cl_path = merkle_proof_default\<rparr>"

definition circuit_match_default :: circuit_match where
  "circuit_match_default =
     \<lparr>cm_bid = circuit_leg_default 0, cm_ask = circuit_leg_default 1, cm_price = 0, cm_size = 0, cm_is_active = 0\<rparr>"

record external_inputs =
  xi_min_size :: fr
  xi_min_price :: fr
  xi_position_limit :: fr
  xi_clearing_price :: fr
  xi_admitted_root :: fr
  xi_matches :: "circuit_match list"

definition leg_ids :: "hex_decode \<Rightarrow> string \<Rightarrow> order_leg_witness \<Rightarrow> zk_error + fr \<times> fr" where
  "leg_ids hx leg l =
     bindE (ok_or (Witness leg) (trader_id_bytes hx l)) (\<lambda>tb.
     bindE (mapErr (\<lambda>_. Witness leg) (bytes32_to_scalar tb)) (\<lambda>t.
     bindE (ok_or (Witness leg) (salt_bytes hx l)) (\<lambda>sb.
     bindE (mapErr (\<lambda>_. Witness leg) (bytes32_to_scalar sb)) (\<lambda>s. Inr (t, s)))))"

definition leg_fields :: "dec_ops \<Rightarrow> hex_decode \<Rightarrow> fr \<times> fr \<Rightarrow> order_leg_witness \<Rightarrow> zk_error + circuit_leg" where
  "leg_fields D hx ids l =
     bindE (limit_price_scalar D l) (\<lambda>lp.
     bindE (balance_scalar D l) (\<lambda>bal.
     bindE (position_scalar l) (\<lambda>pos.
     bindE (trader_addr_scalar hx l) (\<lambda>addr.
     bindE (order_size_scalar D l) (\<lambda>sz.
     Inr \<lparr>cl_trader = fst ids, cl_salt = snd ids, cl_limit_price = lp, cl_side = fr_from (lw_side l),
          cl_balance = bal, cl_position = pos, cl_trader_addr = addr, cl_order_size = sz,
          cl_path = merkle_proof_default\<rparr>)))))"

definition build_row ::
  "dec_ops \<Rightarrow> hex_decode \<Rightarrow> match_witness \<times> decimal \<times> decimal \<Rightarrow> zk_error + circuit_match" where
  "build_row D hx row =
     (case row of (m, p, sz) \<Rightarrow>
     bindE (leg_ids hx ''bid'' (mw_bid m)) (\<lambda>bid_ids.
     bindE (leg_ids hx ''ask'' (mw_ask m)) (\<lambda>ask_ids.
     bindE (leg_fields D hx bid_ids (mw_bid m)) (\<lambda>bid.
     bindE (leg_fields D hx ask_ids (mw_ask m)) (\<lambda>ask.
     bindE (mapErr Encoding (decimal_to_scalar D p)) (\<lambda>pf.
     bindE (mapErr Encoding (decimal_to_scalar D sz)) (\<lambda>sf.
     Inr \<lparr>cm_bid = bid, cm_ask = ask, cm_price = pf, cm_size = sf, cm_is_active = 1\<rparr>)))))))"

definition build_rows ::
  "dec_ops \<Rightarrow> hex_decode \<Rightarrow> batch_witness \<Rightarrow> decimal list \<Rightarrow> decimal list \<Rightarrow> nat \<Rightarrow> zk_error + external_inputs" where
  "build_rows D hx w prices sizes batch_size =
     (if IVC_BATCH_SIZE < batch_size then Inl (Witness ''batch_size exceeds circuit width'')
      else if batch_size < length (bw_matches w) then Inl (Witness ''matches > circuit batch_size'')
      else if length (bw_matches w) \<noteq> length prices \<or> length prices \<noteq> length sizes
        then Inl (Witness ''match_prices/match_sizes length mismatch'')
      else
        bindE (mapErr Encoding (decimal_to_scalar D (po_min_size (bw_policy w)))) (\<lambda>min_size.
        bindE (mapErr Encoding (decimal_to_scalar D (po_min_price (bw_policy w)))) (\<lambda>min_price.
        bindE (signed_scalar (po_position_limit (bw_policy w))) (\<lambda>position_limit.
        bindE (collectE (build_row D hx) (zip (bw_matches w) (zip prices sizes))) (\<lambda>rows.
        bindE (case prices of [] \<Rightarrow> Inr 0 | p # _ \<Rightarrow> mapErr Encoding (decimal_to_scalar D p)) (\<lambda>clearing.
        Inr \<lparr>xi_min_size = min_size, xi_min_price = min_price, xi_position_limit = position_limit,
             xi_clearing_price = clearing, xi_admitted_root = 0,
             xi_matches = rows @ replicate (batch_size - length rows) circuit_match_default\<rparr>))))))"

definition leaf_of :: "sponge \<Rightarrow> circuit_match \<Rightarrow> bool \<Rightarrow> fr" where
  "leaf_of sp m is_bid =
     (let l = (if is_bid then cm_bid m else cm_ask m)
      in commit_native sp \<lparr>ci_trader_id = cl_trader l, ci_side = cl_side l, ci_limit_price = cl_limit_price l,
           ci_size = cl_order_size l, ci_salt = cl_salt l\<rparr>)"

definition attach_row :: "sponge \<Rightarrow> fr list \<Rightarrow> circuit_match \<Rightarrow> zk_error + circuit_match" where
  "attach_row sp admitted m =
     (if cm_is_active m \<noteq> 1 then Inr m
      else
        bindE (admitted_set_proof sp admitted (leaf_of sp m True)) (\<lambda>b.
        bindE (ok_or (Witness ''matched bid leg absent from admitted set'') b) (\<lambda>bp.
        bindE (admitted_set_proof sp admitted (leaf_of sp m False)) (\<lambda>a.
        bindE (ok_or (Witness ''matched ask leg absent from admitted set'') a) (\<lambda>ap.
        Inr (m\<lparr>cm_bid := (cm_bid m)\<lparr>cl_path := snd bp\<rparr>, cm_ask := (cm_ask m)\<lparr>cl_path := snd ap\<rparr>\<rparr>))))))"

definition attach_membership :: "sponge \<Rightarrow> fr list \<Rightarrow> external_inputs \<Rightarrow> zk_error + external_inputs" where
  "attach_membership sp admitted ext =
     bindE (admitted_set_root sp admitted) (\<lambda>rt.
     bindE (collectE (attach_row sp admitted) (xi_matches ext)) (\<lambda>rows.
     Inr (ext\<lparr>xi_matches := rows, xi_admitted_root := rt\<rparr>)))"

definition from_witness ::
  "dec_ops \<Rightarrow> hex_decode \<Rightarrow> sponge \<Rightarrow> batch_witness \<Rightarrow> decimal list \<Rightarrow> decimal list \<Rightarrow> nat \<Rightarrow> zk_error + external_inputs" where
  "from_witness D hx sp w prices sizes batch_size =
     bindE (build_rows D hx w prices sizes batch_size) (\<lambda>ext.
     let admitted = concat (map (\<lambda>m. [leaf_of sp m True, leaf_of sp m False])
                      (filter (\<lambda>m. cm_is_active m = 1) (xi_matches ext)))
     in attach_membership sp admitted ext)"

definition from_witness_with_admitted ::
  "dec_ops \<Rightarrow> hex_decode \<Rightarrow> sponge \<Rightarrow> batch_witness \<Rightarrow> decimal list \<Rightarrow> decimal list \<Rightarrow> nat \<Rightarrow> fr list
   \<Rightarrow> zk_error + external_inputs" where
  "from_witness_with_admitted D hx sp w prices sizes batch_size admitted =
     bindE (build_rows D hx w prices sizes batch_size) (attach_membership sp admitted)"

section \<open>What a built step guarantees\<close>

definition row_proved :: "sponge \<Rightarrow> fr \<Rightarrow> circuit_match \<Rightarrow> bool" where
  "row_proved sp rt row \<longleftrightarrow>
     root_from_proof sp (leaf_of sp row True) (cl_path (cm_bid row)) = rt \<and>
     root_from_proof sp (leaf_of sp row False) (cl_path (cm_ask row)) = rt"

lemma attach_row_Inr:
  assumes "attach_row sp admitted m = Inr row" and "admitted_set_root sp admitted = Inr rt"
  shows "cm_is_active row = cm_is_active m \<and> cm_price row = cm_price m \<and> cm_size row = cm_size m \<and>
    leaf_of sp row = leaf_of sp m \<and> (cm_is_active m = 1 \<longrightarrow> row_proved sp rt row)"
proof (cases "cm_is_active m = 1")
  case True
  with assms(1) obtain bp ap where b: "admitted_set_proof sp admitted (leaf_of sp m True) = Inr (Some bp)"
    and a: "admitted_set_proof sp admitted (leaf_of sp m False) = Inr (Some ap)"
    and row: "row = m\<lparr>cm_bid := (cm_bid m)\<lparr>cl_path := snd bp\<rparr>, cm_ask := (cm_ask m)\<lparr>cl_path := snd ap\<rparr>\<rparr>"
    by (auto simp: attach_row_def bindE_Inr)
  have "leaf_of sp row = leaf_of sp m" by (rule ext) (simp add: row leaf_of_def Let_def)
  with True row root_from_proof_complete [of sp admitted _ "fst bp" "snd bp"]
    root_from_proof_complete [of sp admitted _ "fst ap" "snd ap"] a b assms(2)
  show ?thesis by (auto simp: row_proved_def)
qed (use assms(1) in \<open>simp add: attach_row_def\<close>)

lemma build_row_active: "build_row D hx r = Inr row \<Longrightarrow> cm_is_active row = 1"
  by (auto simp: build_row_def bindE_Inr split: prod.splits)

lemma build_rows_Inr:
  assumes "build_rows D hx w prices sizes n = Inr ext"
  obtains rows where "list_all2 (\<lambda>r row. build_row D hx r = Inr row) (zip (bw_matches w) (zip prices sizes)) rows"
    and "xi_matches ext = rows @ replicate (n - length rows) circuit_match_default"
    and "length rows = length (bw_matches w)" and "length (bw_matches w) \<le> n" and "n \<le> IVC_BATCH_SIZE"
proof -
  from assms obtain rows where r: "collectE (build_row D hx) (zip (bw_matches w) (zip prices sizes)) = Inr rows"
    and x: "xi_matches ext = rows @ replicate (n - length rows) circuit_match_default"
    and l: "length (bw_matches w) = length prices" "length prices = length sizes"
      "length (bw_matches w) \<le> n" "n \<le> IVC_BATCH_SIZE"
    by (auto simp: build_rows_def bindE_Inr split: if_splits)
  moreover from r have "length rows = length (bw_matches w)"
    using l(1,2) by (auto simp: collectE_Inr dest!: list_all2_lengthD)
  ultimately show thesis using that by (auto simp: collectE_Inr)
qed

lemma from_witness_with_admitted_Inr:
  assumes "from_witness_with_admitted D hx sp w prices sizes n admitted = Inr ext"
  shows "admitted_set_root sp admitted = Inr (xi_admitted_root ext)" and "length (xi_matches ext) = n"
    and "n \<le> IVC_BATCH_SIZE" and "length (filter (\<lambda>row. cm_is_active row = 1) (xi_matches ext)) = length (bw_matches w)"
    and "\<And>row. row \<in> set (xi_matches ext) \<Longrightarrow> cm_is_active row = 1 \<Longrightarrow> row_proved sp (xi_admitted_root ext) row"
proof -
  from assms obtain e0 rows' where e0: "build_rows D hx w prices sizes n = Inr e0"
    and rt: "admitted_set_root sp admitted = Inr (xi_admitted_root ext)"
    and rows': "list_all2 (\<lambda>m row. attach_row sp admitted m = Inr row) (xi_matches e0) rows'"
    and x: "xi_matches ext = rows'"
    by (auto simp: from_witness_with_admitted_def attach_membership_def bindE_Inr collectE_Inr)
  obtain rows where rows: "list_all2 (\<lambda>r row. build_row D hx r = Inr row) (zip (bw_matches w) (zip prices sizes)) rows"
    "xi_matches e0 = rows @ replicate (n - length rows) circuit_match_default"
    "length rows = length (bw_matches w)" "length (bw_matches w) \<le> n" and n: "n \<le> IVC_BATCH_SIZE"
    using build_rows_Inr [OF e0] .
  show "admitted_set_root sp admitted = Inr (xi_admitted_root ext)" by (rule rt)
  show "n \<le> IVC_BATCH_SIZE" by (rule n)
  show "length (xi_matches ext) = n" using list_all2_lengthD [OF rows'] rows x by simp
  have act: "map cm_is_active rows' = map cm_is_active (xi_matches e0)"
    using rows' by (induction rule: list_all2_induct) (auto dest: attach_row_Inr [OF _ rt])
  have "map cm_is_active rows = map (\<lambda>_. 1) rows"
    using rows(1) by (induction rule: list_all2_induct) (auto dest: build_row_active)
  with act rows(2) have "map cm_is_active rows' = map (\<lambda>_. 1) rows @ replicate (n - length rows) 0"
    by (simp add: circuit_match_default_def)
  then have "length (filter (\<lambda>a. a = 1) (map cm_is_active rows')) = length rows" by simp
  then show "length (filter (\<lambda>row. cm_is_active row = 1) (xi_matches ext)) = length (bw_matches w)"
    using rows(3) x by (simp add: filter_map comp_def)
  show "row_proved sp (xi_admitted_root ext) row" if "row \<in> set (xi_matches ext)" "cm_is_active row = 1" for row
  proof -
    from that(1) x rows' obtain m where "attach_row sp admitted m = Inr row"
      by (auto simp: list_all2_conv_all_nth in_set_conv_nth)
    with attach_row_Inr [OF this rt] that(2) show ?thesis by simp
  qed
qed

lemma from_witness_with_admitted_capacity:
  "MERKLE_LEAVES < length admitted \<Longrightarrow> \<exists>e. from_witness_with_admitted D hx sp w prices sizes n admitted = Inl e"
  by (cases "build_rows D hx w prices sizes n")
    (simp_all add: from_witness_with_admitted_def attach_membership_def admitted_set_root_def canonical_leaves_def)

lemma attach_membership_complete:
  assumes "length admitted \<le> MERKLE_LEAVES" and "empty_leaf \<notin> set admitted"
    and "\<And>m b. m \<in> set (xi_matches e0) \<Longrightarrow> cm_is_active m = 1 \<Longrightarrow> leaf_of sp m b \<in> set admitted"
  shows "\<exists>ext. attach_membership sp admitted e0 = Inr ext"
proof -
  obtain rt where rt: "admitted_set_root sp admitted = Inr rt"
    using assms(1,2) admitted_set_root_Inr by blast
  have "\<exists>row. attach_row sp admitted m = Inr row" if "m \<in> set (xi_matches e0)" for m
  proof (cases "cm_is_active m = 1")
    case True
    note leaf = assms(3) [OF that True]
    obtain b where "admitted_set_proof sp admitted (leaf_of sp m True) = Inr (Some b)"
      using admitted_set_proof_member [OF assms(1,2) leaf] by blast
    moreover obtain a where "admitted_set_proof sp admitted (leaf_of sp m False) = Inr (Some a)"
      using admitted_set_proof_member [OF assms(1,2) leaf] by blast
    ultimately show ?thesis by (simp add: attach_row_def True)
  qed (simp add: attach_row_def)
  then obtain rows where "collectE (attach_row sp admitted) (xi_matches e0) = Inr rows"
    using collectE_Inr_iff [of "attach_row sp admitted" "xi_matches e0"] by blast
  then show ?thesis by (simp add: attach_membership_def rt)
qed

section \<open>Properties\<close>

text \<open>C26. When the inputs of a folding step are built, they have exactly the circuit's width, one
  active row per match, and for every active row the commitment of the bid and of the ask have a path
  to the root of the round's admitted set.\<close>

theorem fold_inputs_prove_membership:
  assumes "from_witness_with_admitted D hx sp w prices sizes n admitted = Inr ext"
  shows "admitted_set_root sp admitted = Inr (xi_admitted_root ext) \<and>
    length (xi_matches ext) = n \<and> n \<le> IVC_BATCH_SIZE \<and>
    length (filter (\<lambda>row. cm_is_active row = 1) (xi_matches ext)) = length (bw_matches w) \<and>
    (\<forall>row \<in> set (xi_matches ext). cm_is_active row = 1 \<longrightarrow> row_proved sp (xi_admitted_root ext) row)"
  using from_witness_with_admitted_Inr [OF assms] by blast

text \<open>A concrete batch: one match of two legs whose fields encode.\<close>

definition sample_hex :: hex_decode where
  "sample_hex s = Some (if s = ''addr'' then replicate 20 7 else 0 # replicate 31 1)"

definition sample_leg :: "nat \<Rightarrow> order_leg_witness" where
  "sample_leg sd = \<lparr>lw_trader_id = ''id'', lw_salt = ''salt'', lw_balance = 10, lw_position = 0,
     lw_limit_price = 2, lw_order_size = 3, lw_side = sd, lw_trader_addr = ''addr''\<rparr>"

definition sample_witness :: batch_witness where
  "sample_witness = \<lparr>bw_batch_id = 1, bw_auction_id = 2,
     bw_matches = [\<lparr>mw_bid = sample_leg 0, mw_ask = sample_leg 1\<rparr>], bw_policy = into_policy\<rparr>"

lemma sample_scalars:
  "decimal_to_scalar dec_ref 10 = Inr 1000000000" "decimal_to_scalar dec_ref 2 = Inr 200000000"
  "decimal_to_scalar dec_ref 3 = Inr 300000000" "decimal_to_scalar dec_ref (1 / 10 ^ 8) = Inr 1"
  by (simp_all add: decimal_to_scalar_encodable [OF dec_exact_ref] encodable_def is_multiple_def)

lemma bytes32_to_scalar_small:
  "length b = 31 \<Longrightarrow> bytes32_to_scalar (0 # b) = Inr (be_nat b)"
proof -
  assume l: "length b = 31"
  have "be_nat b < 256 ^ 31" using be_nat_less [of b] l by simp
  also have "\<dots> < FR_MODULUS" by (simp add: FR_MODULUS_def)
  finally have lt: "be_nat b < FR_MODULUS" .
  have z: "be_nat (0 # b) = be_nat b" by (simp add: be_nat_def)
  have "fr_to_bytes32 (be_nat b) = 0 # b"
    using to_le_bytes_be_nat [of "0 # b" 32] l unfolding z fr_to_bytes32_rev by simp
  with lt show ?thesis by (simp add: bytes32_to_scalar_Inr)
qed

lemma bytes_to_scalar_short: "length b < 32 \<Longrightarrow> bytes_to_scalar b = Inr (from_be_bytes_mod_order b)"
  by (simp add: bytes_to_scalar_def Let_def)

lemma signed_scalar_small: "\<bar>x\<bar> < 2 ^ 60 \<Longrightarrow> \<exists>f. signed_scalar x = Inr f"
  by (auto simp: signed_scalar_def signed_to_scalar_def MAX_ENCODED_def i128_abs_def)

lemma sample_leg_fields: "\<exists>l. leg_fields dec_ref sample_hex ids (sample_leg sd) = Inr l"
proof -
  obtain f where "signed_scalar 0 = Inr f" using signed_scalar_small [of 0] by auto
  then show ?thesis
    by (simp add: leg_fields_def sample_leg_def limit_price_scalar_def balance_scalar_def position_scalar_def
        trader_addr_scalar_def trader_addr_bytes_def order_size_scalar_def sample_hex_def sample_scalars
        bytes_to_scalar_short)
qed

lemma sample_leg_ids: "\<exists>ids. leg_ids sample_hex leg (sample_leg sd) = Inr ids"
  by (simp add: leg_ids_def trader_id_bytes_def salt_bytes_def sample_leg_def sample_hex_def bytes32_to_scalar_small)

lemma sample_rows: "\<exists>e0. build_rows dec_ref sample_hex sample_witness [2] [3] 8 = Inr e0"
proof -
  let ?m = "\<lparr>mw_bid = sample_leg 0, mw_ask = sample_leg 1\<rparr>"
  obtain bi ai where i: "leg_ids sample_hex ''bid'' (sample_leg 0) = Inr bi" "leg_ids sample_hex ''ask'' (sample_leg 1) = Inr ai"
    using sample_leg_ids by metis
  obtain b a where l: "leg_fields dec_ref sample_hex bi (sample_leg 0) = Inr b" "leg_fields dec_ref sample_hex ai (sample_leg 1) = Inr a"
    using sample_leg_fields by metis
  obtain f where f: "signed_scalar (2 ^ 58) = Inr f" using signed_scalar_small [of "2 ^ 58"] by auto
  have "\<exists>r. build_row dec_ref sample_hex (?m, 2, 3) = Inr r"
    unfolding build_row_def by (simp only: prod.case match_witness.simps i l sample_scalars bindE_simps mapErr_simps) simp
  then obtain r where r: "build_row dec_ref sample_hex (?m, 2, 3) = Inr r" by blast
  have w: "bw_matches sample_witness = [?m]" "po_min_size (bw_policy sample_witness) = 1 / 10 ^ 8"
    "po_min_price (bw_policy sample_witness) = 1 / 10 ^ 8" "po_position_limit (bw_policy sample_witness) = 2 ^ 58"
    by (simp_all add: sample_witness_def into_policy_def)
  show ?thesis
    unfolding build_rows_def w sample_scalars f
    by (simp add: r IVC_BATCH_SIZE_def sample_scalars(2) del: One_nat_def)
qed

definition sample_admitted :: "external_inputs \<Rightarrow> fr list" where
  "sample_admitted e0 = concat (map (\<lambda>m. [leaf_of sponge_ref m True, leaf_of sponge_ref m False]) (xi_matches e0))"

theorem fold_inputs_prove_membership_witness:
  "\<exists>admitted ext. from_witness_with_admitted dec_ref sample_hex sponge_ref sample_witness [2] [3] 8 admitted = Inr ext \<and>
     length (xi_matches ext) = 8 \<and>
     (\<exists>row \<in> set (xi_matches ext). cm_is_active row = 1 \<and> row_proved sponge_ref (xi_admitted_root ext) row)"
proof -
  obtain e0 where e0: "build_rows dec_ref sample_hex sample_witness [2] [3] 8 = Inr e0" using sample_rows by blast
  obtain rows where "xi_matches e0 = rows @ replicate (8 - length rows) circuit_match_default"
    "length rows = length (bw_matches sample_witness)" using build_rows_Inr [OF e0] by metis
  then have "length (xi_matches e0) = 8" by (simp add: sample_witness_def)
  then have "length (sample_admitted e0) \<le> MERKLE_LEAVES"
    by (simp add: sample_admitted_def length_concat comp_def sum_list_triv MERKLE_LEAVES_def MERKLE_DEPTH_def)
  moreover have "leaf_of sponge_ref m b \<noteq> empty_leaf" for m b
    by (simp add: leaf_of_def commit_native_def as_field_elements_def sponge_ref_def empty_leaf_def Let_def)
  then have "empty_leaf \<notin> set (sample_admitted e0)" by (auto simp: sample_admitted_def dest: sym)
  moreover have "leaf_of sponge_ref m b \<in> set (sample_admitted e0)" if "m \<in> set (xi_matches e0)" for m b
    using that by (cases b) (auto simp: sample_admitted_def)
  ultimately obtain ext where ext:
    "from_witness_with_admitted dec_ref sample_hex sponge_ref sample_witness [2] [3] 8 (sample_admitted e0) = Inr ext"
    using attach_membership_complete [of "sample_admitted e0" e0 sponge_ref] e0
    by (auto simp: from_witness_with_admitted_def)
  note f = fold_inputs_prove_membership [OF ext]
  then have "length (filter (\<lambda>row. cm_is_active row = 1) (xi_matches ext)) = 1" by (simp add: sample_witness_def)
  then obtain row where "row \<in> set (xi_matches ext)" "cm_is_active row = 1"
    by (metis (mono_tags, lifting) One_nat_def filter_False length_0_conv nat.distinct(1))
  with f ext show ?thesis by blast
qed

end
