(* ===== verification/Engine.thy ===== *)
theory Engine
  imports EngineState ZkRows
begin

text \<open>
  The engine (\<^verbatim>\<open>dp-engine/src/engine.rs\<close>): its locked state, its store, the in-memory witness secrets,
  and the operations of the trader and admin interfaces.

  Code the engine reaches through a trait object or a third-party crate is the parameter
  \<open>collab\<close>: the decimal arithmetic, the Poseidon sponge, SHA-256, hexadecimal decoding, the
  decrypter, the balance oracle, the optional order-proof verifier, the text form of an address and
  the calendar. \<open>collab_ok\<close> is what the code relies on of them. The store is the parameter \<open>ops\<close>
  of \<open>Events\<close>; \<^verbatim>\<open>Utc::now()\<close> and \<^verbatim>\<open>Uuid::new_v4()\<close> are arguments.

  An operation takes the engine and returns it updated with its result. Placement reads the state
  under the lock twice before it writes: the two reads and the write are separate definitions,
  so that a run may interleave other operations between them.
\<close>

section \<open>Parameters\<close>

record decrypted_order =
  do_trader :: address
  do_pair :: string
  do_side :: side
  do_price :: decimal
  do_size :: decimal
  do_commitment_key :: string
  do_salt :: string
  do_nonce :: string
  do_expires_at_unix_nanos :: int
  do_ttl :: int

record order_proof_publics =
  op_commitment :: fr
  op_nullifier :: fr

record collab =
  co_dec :: dec_ops
  co_sponge :: sponge
  co_sha256 :: "bytes \<Rightarrow> bytes"
  co_hex_encode :: "bytes \<Rightarrow> string"
  co_hex_decode :: "string \<Rightarrow> bytes option"
  co_decrypt :: "bytes \<Rightarrow> string + decrypted_order"
  co_lookup :: "address \<Rightarrow> address \<Rightarrow> nat \<Rightarrow> settlement_error + decimal \<times> int"
  co_verifier :: "(bytes \<Rightarrow> order_proof_publics \<Rightarrow> bool) option"
  co_addr_hex :: "address \<Rightarrow> string"
  co_addr_parse :: "string \<Rightarrow> address option"
  co_from_timestamp :: "int \<Rightarrow> int \<Rightarrow> time option"

text \<open>
  The documented behaviour: exact decimals, field elements below the modulus, hexadecimal text
  without an \<open>x\<close> that decodes to the bytes it came from, a decrypter whose decimals are \<^verbatim>\<open>Decimal\<close> values
  and whose expiry is an \<^verbatim>\<open>i64\<close>, addresses that survive printing, and \<^verbatim>\<open>from_timestamp\<close> on the range
  of \<^verbatim>\<open>i64\<close> nanoseconds.
\<close>

definition collab_ok :: "collab \<Rightarrow> bool" where
  "collab_ok C \<longleftrightarrow>
     dec_exact (co_dec C) \<and> dec_checked (co_dec C) \<and> (\<forall>xs. co_sponge C xs < FR_MODULUS) \<and>
     (\<forall>bs. co_hex_decode C (co_hex_encode C bs) = Some bs \<and> CHR ''x'' \<notin> set (co_hex_encode C bs)) \<and>
     (\<forall>ct d. co_decrypt C ct = Inr d \<longrightarrow> representable (do_price d) \<and> representable (do_size d) \<and>
        \<bar>do_expires_at_unix_nanos d\<bar> < 2 ^ 63) \<and>
     (\<forall>a. co_addr_parse C (co_addr_hex C a) = Some a) \<and>
     (\<forall>s n. 0 \<le> n \<and> n < 1000000000 \<and> \<bar>s\<bar> \<le> 2 ^ 63 div 1000000000 + 1 \<longrightarrow>
        co_from_timestamp C s n = Some (s * 1000000000 + n))"

section \<open>The engine\<close>

definition MAX_TTL :: duration where
  "MAX_TTL = 24 * 60 * 60 * 1000000000"

definition MAX_ENCRYPTED_PAYLOAD_BYTES :: nat where
  "MAX_ENCRYPTED_PAYLOAD_BYTES = 128 * 1024"

definition MAX_ACTIVE_ORDERS_PER_TRADER :: nat where
  "MAX_ACTIVE_ORDERS_PER_TRADER = 128"

definition MAX_ACTIVE_ORDERS :: nat where
  "MAX_ACTIVE_ORDERS = 16 * 1024"

record order_secrets =
  os_salt :: bytes
  os_trader_id :: bytes
  os_commitment :: bytes
  os_nullifier :: bytes
  os_balance :: decimal
  os_position :: int

record replay_protection =
  rp_nullifier :: bytes
  rp_order_nonce_digest :: bytes

record 'st engine =
  en_state :: engine_state
  en_store :: 'st
  en_secrets :: "(uuid, order_secrets) hash_map"
  en_auction_interval :: duration
  en_batch_size :: nat
  en_ivc_round :: "(string, nat) hash_map"
  en_finalize_every :: nat

definition engine_new :: "'st \<Rightarrow> duration \<Rightarrow> 'st engine" where
  "engine_new store interval =
     \<lparr>en_state = engine_state_new, en_store = store, en_secrets = [],
      en_auction_interval = (if interval = 0 then DEFAULT_AUCTION_INTERVAL else interval),
      en_batch_size = 8, en_ivc_round = [], en_finalize_every = 60\<rparr>"

definition set_finalize_every :: "nat \<Rightarrow> 'st engine \<Rightarrow> 'st engine" where
  "set_finalize_every n en = (if n = 0 then en else en\<lparr>en_finalize_every := n\<rparr>)"

definition set_submit_timeout :: "duration \<Rightarrow> 'st engine \<Rightarrow> 'st engine" where
  "set_submit_timeout d en =
     en\<lparr>en_state := (en_state en)\<lparr>es_submit_timeout := (if d = 0 then DEFAULT_SUBMIT_TIMEOUT else d)\<rparr>\<rparr>"

definition set_retry_backoff :: "duration \<Rightarrow> duration \<Rightarrow> 'st engine \<Rightarrow> 'st engine" where
  "set_retry_backoff mn mx en =
     (let mx = (if mx < mn then mn else mx)
      in en\<lparr>en_state := (en_state en)\<lparr>es_min_backoff := mn, es_max_backoff := mx\<rparr>\<rparr>)"

definition capture_snapshot_state :: "'st store_ops \<Rightarrow> 'st engine \<Rightarrow> serializable_state \<times> nat" where
  "capture_snapshot_state ops en = (to_serializable (en_state en), st_last_seq ops (en_store en))"

definition compact_events_before :: "'st store_ops \<Rightarrow> nat \<Rightarrow> 'st engine \<Rightarrow> 'st engine \<times> (event_error + unit)" where
  "compact_events_before ops before_seq en =
     (case st_compact_before ops before_seq (en_store en) of (st, r) \<Rightarrow> (en\<lparr>en_store := st\<rparr>, r))"

definition apply_snapshot_state :: "serializable_state \<Rightarrow> 'st engine \<Rightarrow> 'st engine" where
  "apply_snapshot_state snap en = en\<lparr>en_state := restore_from_serializable snap (en_state en)\<rparr>"

definition register_pair_without_event :: "string \<Rightarrow> pair_config \<Rightarrow> 'st engine \<Rightarrow> 'st engine" where
  "register_pair_without_event pair cfg en =
     en\<lparr>en_state := (en_state en)\<lparr>es_pair_tokens := hm_insert pair cfg (es_pair_tokens (en_state en))\<rparr>\<rparr>"

text \<open>The event literal of the engine's operations.\<close>

definition event_at :: "time \<Rightarrow> event_data \<Rightarrow> event" where
  "event_at t d = (new_event d)\<lparr>ev_timestamp := t\<rparr>"

text \<open>\<^verbatim>\<open>store.append(..)?\<close>: the store moves on also when the append fails.\<close>

definition store_append ::
  "'st store_ops \<Rightarrow> clock \<Rightarrow> event list \<Rightarrow> 'st engine \<Rightarrow> 'st engine \<times> (engine_error + event list)" where
  "store_append ops clk es en =
     (case st_append ops clk es (en_store en) of
        (st, Inl e) \<Rightarrow> (en\<lparr>en_store := st\<rparr>, Inl (EventErr e))
      | (st, Inr es') \<Rightarrow> (en\<lparr>en_store := st\<rparr>, Inr es'))"

section \<open>Pair registry\<close>

text \<open>\<^verbatim>\<open>Duration::as_millis() as u64\<close>.\<close>

definition as_millis_u64 :: "duration \<Rightarrow> nat" where
  "as_millis_u64 d = (d div 1000000) mod 2 ^ 64"

definition pair_registered_event :: "collab \<Rightarrow> string \<Rightarrow> pair_config \<Rightarrow> event_data" where
  "pair_registered_event C key cfg =
     PairRegistered key (co_addr_hex C (pc_base_token cfg)) (co_addr_hex C (pc_quote_token cfg))
       (pc_min_order_size cfg) (pc_tick_size cfg) (map_option as_millis_u64 (pc_auction_interval cfg))
       (pc_base_decimals cfg) (pc_quote_decimals cfg)"

definition register_pair_with_event ::
  "collab \<Rightarrow> 'st store_ops \<Rightarrow> clock \<Rightarrow> time \<Rightarrow> string \<Rightarrow> pair_config \<Rightarrow> 'st engine
   \<Rightarrow> 'st engine \<times> (engine_error + string)" where
  "register_pair_with_event C ops clk now pair cfg en =
     (case pair_parse pair of
        Inl e \<Rightarrow> (en, Inl (Validation e))
      | Inr key \<Rightarrow>
          if hm_contains (es_pair_tokens (en_state en)) key
          then (en, Inl (Validation (PairAlreadyRegistered key)))
          else (case store_append ops clk [event_at now (pair_registered_event C key cfg)] en of
              (en', Inl e) \<Rightarrow> (en', Inl e)
            | (en', Inr _) \<Rightarrow> (register_pair_without_event key cfg en', Inr key)))"

definition set_pair_status :: "string \<Rightarrow> pair_status \<Rightarrow> engine_state \<Rightarrow> engine_state" where
  "set_pair_status key st s =
     (case hm_get (es_pair_tokens s) key of
        None \<Rightarrow> s
      | Some cfg \<Rightarrow> s\<lparr>es_pair_tokens := hm_insert key (cfg\<lparr>pc_status := st\<rparr>) (es_pair_tokens s)\<rparr>)"

definition suspend_pair ::
  "'st store_ops \<Rightarrow> clock \<Rightarrow> time \<Rightarrow> string \<Rightarrow> 'st engine \<Rightarrow> 'st engine \<times> (engine_error + unit)" where
  "suspend_pair ops clk now pair en =
     (case pair_parse pair of
        Inl e \<Rightarrow> (en, Inl (Validation e))
      | Inr key \<Rightarrow>
          (case hm_get (es_pair_tokens (en_state en)) key of
             None \<Rightarrow> (en, Inl (Validation (PairNotRegistered key)))
           | Some cfg \<Rightarrow>
               (case pc_status cfg of
                  Suspended \<Rightarrow> (en, Inr ())
                | Delisted \<Rightarrow> (en, Inl (Validation (CannotSuspendDelistedPair key)))
                | Active \<Rightarrow>
                    (case store_append ops clk [event_at now (PairSuspended key)] en of
                       (en', Inl e) \<Rightarrow> (en', Inl e)
                     | (en', Inr _) \<Rightarrow>
                         (en'\<lparr>en_state := set_pair_status key Suspended (en_state en')\<rparr>, Inr ())))))"

definition drop_secret :: "uuid \<Rightarrow> 'st engine \<Rightarrow> 'st engine" where
  "drop_secret i en = en\<lparr>en_secrets := hm_remove i (en_secrets en)\<rparr>"

text \<open>\<^verbatim>\<open>book.apply\<close> on the events a store returned; \<open>None\<close> is its panic.\<close>

definition apply_events :: "collab \<Rightarrow> event list \<Rightarrow> 'st engine \<Rightarrow> 'st engine option" where
  "apply_events C es en =
     (case book_apply_all (co_dec C) es (es_book (en_state en)) of
        None \<Rightarrow> None
      | Some b \<Rightarrow> Some (en\<lparr>en_state := (en_state en)\<lparr>es_book := b\<rparr>\<rparr>))"

definition delist_events :: "time \<Rightarrow> uuid list \<Rightarrow> string \<Rightarrow> event list" where
  "delist_events now open_ids key =
     map (\<lambda>i. event_at now (OrderCancelled i ''pair delisted'')) open_ids @ [event_at now (PairDelisted key)]"

text \<open>The critical section of \<^verbatim>\<open>delist_pair\<close>; the secrets are dropped after the lock is released.\<close>

definition delist_locked ::
  "collab \<Rightarrow> 'st store_ops \<Rightarrow> clock \<Rightarrow> time \<Rightarrow> string \<Rightarrow> 'st engine \<Rightarrow> 'st engine \<times> (engine_error + uuid list)" where
  "delist_locked C ops clk now pair en =
     (case pair_parse pair of
        Inl e \<Rightarrow> (en, Inl (Validation e))
      | Inr key \<Rightarrow>
          (case map_option pc_status (hm_get (es_pair_tokens (en_state en)) key) of
             None \<Rightarrow> (en, Inl (Validation (PairNotRegistered key)))
           | Some Delisted \<Rightarrow> (en, Inr [])
           | Some _ \<Rightarrow>
               (let open_ids = order_ids_for (es_book (en_state en)) key in
                case store_append ops clk (delist_events now open_ids key) en of
                  (en', Inl e) \<Rightarrow> (en', Inl e)
                | (en', Inr es) \<Rightarrow>
                    (case apply_events C es en' of
                       None \<Rightarrow> (en', Inl EnginePanic)
                     | Some en2 \<Rightarrow>
                         (en2\<lparr>en_state := set_pair_status key Delisted (en_state en2)\<rparr>, Inr open_ids)))))"

definition delist_pair ::
  "collab \<Rightarrow> 'st store_ops \<Rightarrow> clock \<Rightarrow> time \<Rightarrow> string \<Rightarrow> 'st engine \<Rightarrow> 'st engine \<times> (engine_error + nat)" where
  "delist_pair C ops clk now pair en =
     (case delist_locked C ops clk now pair en of
        (en', Inl e) \<Rightarrow> (en', Inl e)
      | (en', Inr open_ids) \<Rightarrow> (fold drop_secret open_ids en', Inr (length open_ids)))"

definition list_pairs :: "'st engine \<Rightarrow> (string \<times> pair_config) list" where
  "list_pairs en = es_pair_tokens (en_state en)"

section \<open>Order fields\<close>

definition ciphertext_digest :: "collab \<Rightarrow> bytes \<Rightarrow> bytes" where
  "ciphertext_digest C ct = co_sha256 C ct"

definition addr_bytes :: "address \<Rightarrow> bytes" where
  "addr_bytes a = rev (to_le_bytes 20 a)"

definition order_nonce_digest :: "collab \<Rightarrow> address \<Rightarrow> bytes \<Rightarrow> bytes" where
  "order_nonce_digest C t nonce = co_sha256 C (ascii ''darkpool/order-nonce/v1'' @ addr_bytes t @ nonce)"

definition is_lowercase_hexdigit :: "char \<Rightarrow> bool" where
  "is_lowercase_hexdigit c \<longleftrightarrow>
     (is_ascii_digit c \<or> (97 \<le> code c \<and> code c \<le> 102) \<or> (65 \<le> code c \<and> code c \<le> 70)) \<and> \<not> is_ascii_upper c"

definition parse_lowercase_hex32 :: "collab \<Rightarrow> string \<Rightarrow> dark_pool_error \<Rightarrow> engine_error + bytes" where
  "parse_lowercase_hex32 C s err =
     (if length s \<noteq> 64 \<or> \<not> list_all is_lowercase_hexdigit s then Inl (Validation err)
      else case co_hex_decode C s of
        None \<Rightarrow> Inl (Validation err)
      | Some bs \<Rightarrow> if length bs \<noteq> 32 then Inl (Validation err) else Inr bs)"

definition parse_order_salt :: "collab \<Rightarrow> string \<Rightarrow> engine_error + bytes" where
  "parse_order_salt C s =
     (case parse_lowercase_hex32 C s SaltInvalid of
        Inl e \<Rightarrow> Inl e
      | Inr bs \<Rightarrow> (case bytes32_to_scalar bs of
          Inl _ \<Rightarrow> Inl (Validation SaltInvalid)
        | Inr _ \<Rightarrow> Inr bs))"

definition parse_order_nonce :: "collab \<Rightarrow> string \<Rightarrow> engine_error + bytes" where
  "parse_order_nonce C s = parse_lowercase_hex32 C s OrderNonceInvalid"

definition order_expiry_from_unix_nanos :: "collab \<Rightarrow> int \<Rightarrow> engine_error + time" where
  "order_expiry_from_unix_nanos C nanos =
     (if nanos \<le> 0 then Inl (Validation OrderExpiryInvalid)
      else case co_from_timestamp C (nanos div 1000000000) (nanos mod 1000000000) of
        None \<Rightarrow> Inl (Validation OrderExpiryInvalid)
      | Some t \<Rightarrow> Inr t)"

definition validate_order_freshness :: "collab \<Rightarrow> int \<Rightarrow> time \<Rightarrow> engine_error + time" where
  "validate_order_freshness C nanos now =
     (case order_expiry_from_unix_nanos C nanos of
        Inl e \<Rightarrow> Inl e
      | Inr expiry \<Rightarrow>
          if expiry \<le> now then Inl (Validation OrderExpiredErr)
          else if now + int MAX_TTL < expiry then Inl (Validation (OrderExpiryTooFar (MAX_TTL div 1000000000)))
          else Inr expiry)"

definition compute_poseidon_commitment_fr ::
  "collab \<Rightarrow> bytes \<Rightarrow> nat \<Rightarrow> decimal \<Rightarrow> decimal \<Rightarrow> bytes \<Rightarrow> engine_error + fr" where
  "compute_poseidon_commitment_fr C trader_id sd p sz salt =
     (case bytes32_to_scalar trader_id of
        Inl e \<Rightarrow> Inl (CommitmentEncoding e)
      | Inr t \<Rightarrow> (case bytes32_to_scalar salt of
          Inl e \<Rightarrow> Inl (CommitmentEncoding e)
        | Inr s \<Rightarrow> (case from_decimals (co_dec C) t sd p sz s of
            Inl e \<Rightarrow> Inl (CommitmentEncoding e)
          | Inr i \<Rightarrow> Inr (commit_native (co_sponge C) i))))"

definition compute_poseidon_commitment ::
  "collab \<Rightarrow> bytes \<Rightarrow> nat \<Rightarrow> decimal \<Rightarrow> decimal \<Rightarrow> bytes \<Rightarrow> engine_error + bytes" where
  "compute_poseidon_commitment C trader_id sd p sz salt =
     (case compute_poseidon_commitment_fr C trader_id sd p sz salt of
        Inl e \<Rightarrow> Inl e
      | Inr f \<Rightarrow> Inr (fr_to_bytes32 f))"

definition derive_order_secrets ::
  "collab \<Rightarrow> bytes \<Rightarrow> nat \<Rightarrow> decimal \<Rightarrow> decimal \<Rightarrow> decimal \<Rightarrow> int \<Rightarrow> bytes \<Rightarrow> engine_error + order_secrets" where
  "derive_order_secrets C trader_addr sd p sz balance position salt =
     (case derive_trader_id_bytes (co_sponge C) trader_addr of
        Inl e \<Rightarrow> Inl (CommitmentEncoding e)
      | Inr trader_id \<Rightarrow>
          (case compute_poseidon_commitment_fr C trader_id sd p sz salt of
             Inl e \<Rightarrow> Inl e
           | Inr commitment \<Rightarrow>
               (case bytes32_to_scalar salt of
                  Inl e \<Rightarrow> Inl (CommitmentEncoding e)
                | Inr s \<Rightarrow>
                    (case compute_nullifier_native (co_sponge C) commitment s of
                       None \<Rightarrow> Inl EnginePanic
                     | Some nullifier \<Rightarrow> Inr
                         \<lparr>os_salt = salt, os_trader_id = trader_id, os_commitment = fr_to_bytes32 commitment,
                          os_nullifier = fr_to_bytes32 nullifier, os_balance = balance, os_position = position\<rparr>))))"

definition recompute_persisted_commitment ::
  "collab \<Rightarrow> bytes \<Rightarrow> nat \<Rightarrow> decimal \<Rightarrow> decimal \<Rightarrow> bytes \<Rightarrow> engine_error + bytes" where
  "recompute_persisted_commitment C trader_addr sd p sz salt =
     (case derive_trader_id_bytes (co_sponge C) trader_addr of
        Inl e \<Rightarrow> Inl (CommitmentEncoding e)
      | Inr trader_id \<Rightarrow> compute_poseidon_commitment C trader_id sd p sz salt)"

section \<open>Placement\<close>

text \<open>The checks up to the first registry look-up, with the early look at the spent ciphertexts.\<close>

definition place_precheck ::
  "collab \<Rightarrow> engine_state \<Rightarrow> bytes \<Rightarrow> address \<Rightarrow> engine_error + decrypted_order \<times> string" where
  "place_precheck C s ct caller =
     (if MAX_ENCRYPTED_PAYLOAD_BYTES < length ct
        then Inl (Validation (EncryptedPayloadTooLarge MAX_ENCRYPTED_PAYLOAD_BYTES))
      else if ciphertext_digest C ct \<in> set (es_seen_ciphertexts s) then Inl (Validation DuplicateOrder)
      else case co_decrypt C ct of
        Inl e \<Rightarrow> Inl (DecryptErr e)
      | Inr d \<Rightarrow>
          if do_trader d \<noteq> caller then Inl (Validation (TraderAddressMismatch caller ''***''))
          else if do_pair d = [] then Inl (Validation PairRequired)
          else (case pair_parse (do_pair d) of
              Inl e \<Rightarrow> Inl (Validation e)
            | Inr key \<Rightarrow>
                if do_price d \<le> 0 then Inl (Validation PriceMustBePositive)
                else if do_size d \<le> 0 then Inl (Validation SizeMustBePositive)
                else if do_commitment_key d = [] then Inl (Validation CommitmentKeyRequired)
                else Inr (d, key)))"

text \<open>The registry look-up under the lock: the asset the leg spends.\<close>

definition place_registry_check ::
  "collab \<Rightarrow> engine_state \<Rightarrow> decrypted_order \<Rightarrow> string \<Rightarrow> engine_error + address \<times> nat" where
  "place_registry_check C s d key =
     (case pair_config_of s key of
        None \<Rightarrow> Inl (Validation (PairNotRegistered key))
      | Some cfg \<Rightarrow>
          if pc_status cfg \<noteq> Active then Inl (Validation (PairNotAccepting key))
          else if 0 < pc_min_order_size cfg \<and> do_size d < pc_min_order_size cfg
            then Inl (Validation (OrderSizeBelowMinimum key (pc_min_order_size cfg)))
          else
            let spend = (case do_side d of Buy \<Rightarrow> (pc_quote_token cfg, pc_quote_decimals cfg)
                                        | Sell \<Rightarrow> (pc_base_token cfg, pc_base_decimals cfg)) in
            if 0 < pc_tick_size cfg then
              (case d_rem (co_dec C) (do_price d) (pc_tick_size cfg) of
                 None \<Rightarrow> Inl EnginePanic
               | Some r \<Rightarrow> if r \<noteq> 0 then Inl (Validation (OrderPriceNotOnTick key (pc_tick_size cfg))) else Inr spend)
            else Inr spend)"

definition new_order :: "decrypted_order \<Rightarrow> string \<Rightarrow> bytes \<Rightarrow> uuid \<Rightarrow> time \<Rightarrow> time \<Rightarrow> nat \<Rightarrow> order" where
  "new_order d key ct i submitted expiry sq =
     \<lparr>order_id = i, trader = do_trader d, order_pair = key, order_side = do_side d, price = do_price d,
      order_size = do_size d, remaining_size = do_size d, commitment_key = do_commitment_key d,
      encrypted_payload = ct, submitted_at = submitted, expires_at = expiry, order_seq = sq\<rparr>"

definition proof_accepted :: "collab \<Rightarrow> bytes \<Rightarrow> order_secrets \<Rightarrow> bool" where
  "proof_accepted C prf secrets =
     (case co_verifier C of
        None \<Rightarrow> True
      | Some verify \<Rightarrow>
          (case (bytes32_to_scalar (os_commitment secrets), bytes32_to_scalar (os_nullifier secrets)) of
             (Inr c, Inr n) \<Rightarrow> verify prf \<lparr>op_commitment = c, op_nullifier = n\<rparr>
           | _ \<Rightarrow> False))"

text \<open>From the freshness check to the secrets: no access to the state.\<close>

definition place_build ::
  "collab \<Rightarrow> decrypted_order \<Rightarrow> string \<Rightarrow> address \<times> nat \<Rightarrow> bytes \<Rightarrow> bytes \<Rightarrow> uuid \<Rightarrow> time
   \<Rightarrow> engine_error + order \<times> order_secrets \<times> replay_protection" where
  "place_build C d key spend prf ct i now =
     (case validate_order_freshness C (do_expires_at_unix_nanos d) now of
        Inl e \<Rightarrow> Inl e
      | Inr expiry \<Rightarrow> (let ord = new_order d key ct i now expiry 0 in
          case parse_order_salt C (do_salt d) of
            Inl e \<Rightarrow> Inl e
          | Inr salt \<Rightarrow> (case parse_order_nonce C (do_nonce d) of
              Inl e \<Rightarrow> Inl e
            | Inr nonce \<Rightarrow> (case co_lookup C (trader ord) (fst spend) (snd spend) of
                Inl e \<Rightarrow> Inl (BalanceLookup e)
              | Inr (balance, position) \<Rightarrow>
                  (case derive_order_secrets C (addr_bytes (trader ord)) (side_u8 (order_side ord)) (price ord)
                          (order_size ord) balance position salt of
                     Inl e \<Rightarrow> Inl e
                   | Inr secrets \<Rightarrow>
                       if \<not> proof_accepted C prf secrets then Inl (Validation InvalidOrderProof)
                       else Inr (ord, secrets,
                         \<lparr>rp_nullifier = os_nullifier secrets,
                          rp_order_nonce_digest = order_nonce_digest C (trader ord) nonce\<rparr>))))))"

definition ensure_order_capacity :: "engine_state \<Rightarrow> address \<Rightarrow> engine_error option" where
  "ensure_order_capacity s t =
     (if MAX_ACTIVE_ORDERS \<le> active_order_count (es_book s)
        then Some (Validation (OrderBookCapacityExceeded MAX_ACTIVE_ORDERS))
      else if MAX_ACTIVE_ORDERS_PER_TRADER \<le> active_order_count_for_trader (es_book s) t
        then Some (Validation (TooManyRestingOrdersForTrader MAX_ACTIVE_ORDERS_PER_TRADER))
      else None)"

text \<open>The checks of \<^verbatim>\<open>persist_order_placed\<close>, repeated under the lock that appends and inserts.\<close>

definition persist_guard :: "collab \<Rightarrow> engine_state \<Rightarrow> order \<Rightarrow> bytes \<Rightarrow> replay_protection \<Rightarrow> engine_error option" where
  "persist_guard C s ord ct rp =
     (case map_option pc_status (pair_config_of s (order_pair ord)) of
        None \<Rightarrow> Some (Validation (PairNotRegistered (order_pair ord)))
      | Some Suspended \<Rightarrow> Some (Validation (PairNotAccepting (order_pair ord)))
      | Some Delisted \<Rightarrow> Some (Validation (PairNotAccepting (order_pair ord)))
      | Some Active \<Rightarrow>
          if ciphertext_digest C ct \<in> set (es_seen_ciphertexts s) then Some (Validation DuplicateOrder)
          else if rp_nullifier rp \<in> set (es_spent_nullifiers s) then Some (Validation DuplicateOrder)
          else if rp_order_nonce_digest rp \<in> set (es_spent_order_nonces s) then Some (Validation DuplicateOrder)
          else ensure_order_capacity s (trader ord))"

definition admit_order :: "collab \<Rightarrow> order \<Rightarrow> bytes \<Rightarrow> replay_protection \<Rightarrow> engine_state \<Rightarrow> engine_state" where
  "admit_order C ord ct rp s =
     s\<lparr>es_book := insert_order ord (es_book s),
       es_seen_ciphertexts := hs_insert (ciphertext_digest C ct) (es_seen_ciphertexts s),
       es_spent_nullifiers := hs_insert (rp_nullifier rp) (es_spent_nullifiers s),
       es_spent_order_nonces := hs_insert (rp_order_nonce_digest rp) (es_spent_order_nonces s)\<rparr>"

definition persist_order_placed ::
  "collab \<Rightarrow> 'st store_ops \<Rightarrow> clock \<Rightarrow> order \<Rightarrow> order_secrets \<Rightarrow> bytes \<Rightarrow> bytes \<Rightarrow> bytes \<Rightarrow> replay_protection
   \<Rightarrow> 'st engine \<Rightarrow> 'st engine \<times> (engine_error + nat)" where
  "persist_order_placed C ops clk ord secrets commitment prf ct rp en =
     (case persist_guard C (en_state en) ord ct rp of
        Some e \<Rightarrow> (en, Inl e)
      | None \<Rightarrow>
          (case store_append ops clk [event_at (submitted_at ord) (OrderPlaced (order_id ord) commitment prf ct)] en of
             (en', Inl e) \<Rightarrow> (en', Inl e)
           | (en', Inr es) \<Rightarrow>
               (let ord = ord\<lparr>order_seq := ev_seq (hd es)\<rparr> in
                case apply_events C es en' of
                  None \<Rightarrow> (en', Inl EnginePanic)
                | Some en2 \<Rightarrow>
                    (en2\<lparr>en_state := admit_order C ord ct rp (en_state en2),
                         en_secrets := hm_insert (order_id ord) secrets (en_secrets en2)\<rparr>,
                     Inr (order_seq ord)))))"

definition place_encrypted_order ::
  "collab \<Rightarrow> 'st store_ops \<Rightarrow> clock \<Rightarrow> time \<Rightarrow> uuid \<Rightarrow> bytes \<Rightarrow> bytes \<Rightarrow> address \<Rightarrow> 'st engine
   \<Rightarrow> 'st engine \<times> (engine_error + order)" where
  "place_encrypted_order C ops clk now i prf ct caller en =
     (case place_precheck C (en_state en) ct caller of
        Inl e \<Rightarrow> (en, Inl e)
      | Inr (d, key) \<Rightarrow>
          (case place_registry_check C (en_state en) d key of
             Inl e \<Rightarrow> (en, Inl e)
           | Inr spend \<Rightarrow>
               (case place_build C d key spend prf ct i now of
                  Inl e \<Rightarrow> (en, Inl e)
                | Inr (ord, secrets, rp) \<Rightarrow>
                    (case persist_order_placed C ops clk ord secrets (os_commitment secrets) prf ct rp en of
                       (en', Inl e) \<Rightarrow> (en', Inl e)
                     | (en', Inr sq) \<Rightarrow> (en', Inr (ord\<lparr>order_seq := sq\<rparr>))))))"

section \<open>Cancellation\<close>

definition cancel_locked ::
  "collab \<Rightarrow> 'st store_ops \<Rightarrow> clock \<Rightarrow> time \<Rightarrow> uuid \<Rightarrow> string option \<Rightarrow> 'st engine \<Rightarrow> 'st engine \<times> (engine_error + unit)" where
  "cancel_locked C ops clk now i reason en =
     (let reason = (case reason of None \<Rightarrow> ''user cancelled'' | Some r \<Rightarrow> r) in
      if \<not> has_order (es_book (en_state en)) i then (en, Inl (Validation OrderNotFound))
      else (case store_append ops clk [event_at now (OrderCancelled i reason)] en of
          (en', Inl e) \<Rightarrow> (en', Inl e)
        | (en', Inr es) \<Rightarrow>
            (case apply_events C es en' of
               None \<Rightarrow> (en', Inl EnginePanic)
             | Some en2 \<Rightarrow> (en2, Inr ()))))"

definition cancel_order ::
  "collab \<Rightarrow> 'st store_ops \<Rightarrow> clock \<Rightarrow> time \<Rightarrow> uuid \<Rightarrow> string option \<Rightarrow> 'st engine \<Rightarrow> 'st engine \<times> (engine_error + unit)" where
  "cancel_order C ops clk now i reason en =
     (case cancel_locked C ops clk now i reason en of
        (en', Inl e) \<Rightarrow> (en', Inl e)
      | (en', Inr u) \<Rightarrow> (drop_secret i en', Inr ()))"

definition prune_dead_secrets :: "'st engine \<Rightarrow> 'st engine" where
  "prune_dead_secrets en =
     en\<lparr>en_secrets := filter (\<lambda>(i, _). has_order (es_book (en_state en)) i) (en_secrets en)\<rparr>"

section \<open>Queries\<close>

definition get_order :: "'st engine \<Rightarrow> uuid \<Rightarrow> order option" where
  "get_order en i = find_order (es_book (en_state en)) i"

definition get_order_book :: "'st engine \<Rightarrow> string \<Rightarrow> order list \<times> order list" where
  "get_order_book en p = (book_bids (es_book (en_state en)) p, book_asks (es_book (en_state en)) p)"

definition orders_by_trader :: "'st engine \<Rightarrow> address \<Rightarrow> order list" where
  "orders_by_trader en t =
     sort_key submitted_at (filter (\<lambda>ord. trader ord = t) (iter_all (es_book (en_state en))))"

definition pair_status_of :: "'st engine \<Rightarrow> string \<Rightarrow> pair_status option" where
  "pair_status_of en p = map_option pc_status (pair_config_of (en_state en) p)"

definition engine_active_order_count :: "'st engine \<Rightarrow> nat" where
  "engine_active_order_count en = active_order_count (es_book (en_state en))"

definition pending_batch_count :: "'st engine \<Rightarrow> nat" where
  "pending_batch_count en = length (es_pending_batches (en_state en))"

record auction_notification =
  an_auction_id :: uuid
  an_pair :: string
  an_clearing_price :: decimal
  an_matched_volume :: decimal
  an_match_count :: nat
  an_timestamp :: time

definition record_to_notification :: "auction_executed_record \<Rightarrow> auction_notification" where
  "record_to_notification r =
     \<lparr>an_auction_id = ae_auction_id r, an_pair = ae_pair r, an_clearing_price = ae_clearing_price r,
      an_matched_volume = ae_matched_volume r, an_match_count = ae_match_count r, an_timestamp = ae_timestamp r\<rparr>"

fun history_loop ::
  "string option \<Rightarrow> nat \<Rightarrow> auction_executed_record list \<Rightarrow> auction_notification list \<Rightarrow> auction_notification list" where
  "history_loop p limit [] out = out"
| "history_loop p limit (r # rs) out =
     (if (case p of Some q \<Rightarrow> ae_pair r \<noteq> q | None \<Rightarrow> False) then history_loop p limit rs out
      else let out = out @ [record_to_notification r]
           in if limit \<le> length out then out else history_loop p limit rs out)"

definition get_auction_history :: "'st engine \<Rightarrow> string option \<Rightarrow> nat \<Rightarrow> engine_error + auction_notification list" where
  "get_auction_history en p limit =
     (let limit = (if limit = 0 then 50 else limit)
      in Inr (history_loop p limit (rev (es_auction_log (en_state en))) []))"

end
