(* ===== verification/Batch.thy ===== *)
theory Batch
  imports Engine
begin

text \<open>
  Batches on their way to the chain (\<^verbatim>\<open>dp-engine/src/batch.rs\<close>): a finalised batch becomes pending, is
  submitted with back-off until the submitter accepts it, and leaves when it is confirmed or seen
  settled.

  The submitter is a parameter: for each call, its answer, or \<open>None\<close> when the call outlives the
  timeout. A submission takes the state lock, releases it for the call, appends \<^verbatim>\<open>BatchConfirmed\<close>
  without the lock and takes it again; the sections are separate definitions, so that other
  operations may come between them. \<^verbatim>\<open>Instant::now()\<close> is an argument.
\<close>

section \<open>Pending aggregations and batches\<close>

record pending_aggregation =
  pa_batch_id :: uuid
  pa_auction_id :: uuid
  pa_pair :: string
  pa_matches :: "auction_match list"
  pa_orders :: "(uuid, order) hash_map"
  pa_admitted_order_ids :: "uuid list"
  pa_auction_at :: time

definition insert_batch :: "pending_batch \<Rightarrow> 'st engine \<Rightarrow> 'st engine" where
  "insert_batch pb en =
     en\<lparr>en_state := (en_state en)\<lparr>es_pending_batches := hm_insert (pb_batch_id pb) pb (es_pending_batches (en_state en))\<rparr>\<rparr>"

definition remove_batch :: "uuid \<Rightarrow> 'st engine \<Rightarrow> 'st engine" where
  "remove_batch i en =
     en\<lparr>en_state := (en_state en)\<lparr>es_pending_batches := hm_remove i (es_pending_batches (en_state en))\<rparr>\<rparr>"

definition batch_submitted_event :: "uuid \<Rightarrow> uuid \<Rightarrow> auction_match list \<Rightarrow> bytes \<Rightarrow> event_data" where
  "batch_submitted_event batch_id auction_id ms prf = BatchSubmitted batch_id auction_id [] (length ms mod 2 ^ 32) prf"

definition new_pending_batch ::
  "uuid \<Rightarrow> uuid \<Rightarrow> auction_match list \<Rightarrow> settlement_match list \<Rightarrow> bytes \<Rightarrow> nat list \<Rightarrow> pending_batch" where
  "new_pending_batch batch_id auction_id ms sms prf inputs =
     \<lparr>pb_batch_id = batch_id, pb_auction_id = auction_id, pb_matches = ms, pb_settlement_matches = sms,
      pb_proof = prf, pb_public_inputs = inputs, pb_ivc_payload = None, pb_attempts = 0,
      pb_next_attempt = None, pb_submitting = False\<rparr>"

definition finalize_pending_batch ::
  "collab \<Rightarrow> 'st store_ops \<Rightarrow> clock \<Rightarrow> pending_aggregation \<Rightarrow> bytes \<Rightarrow> nat list \<Rightarrow> settlement_match list
   \<Rightarrow> 'st engine \<Rightarrow> 'st engine \<times> (engine_error + unit)" where
  "finalize_pending_batch C ops clk p prf inputs sms en =
     (case store_append ops clk
             [event_at (pa_auction_at p) (batch_submitted_event (pa_batch_id p) (pa_auction_id p) (pa_matches p) prf)] en of
        (en', Inl e) \<Rightarrow> (en', Inl e)
      | (en', Inr es) \<Rightarrow>
          (case apply_events C es en' of
             None \<Rightarrow> (en', Inl EnginePanic)
           | Some en2 \<Rightarrow>
               (insert_batch (new_pending_batch (pa_batch_id p) (pa_auction_id p) (pa_matches p) sms prf inputs) en2, Inr ())))"

section \<open>Submission\<close>

record submit_batch_params =
  sb_batch_id :: uuid
  sb_auction_id :: uuid
  sb_proof :: bytes
  sb_public_inputs :: "nat list"
  sb_matches :: "settlement_match list"

record submit_session_params =
  sp_session_id :: uuid
  sp_proof :: bytes
  sp_z_0 :: "nat list"
  sp_z_n :: "nat list"
  sp_n_steps :: nat
  sp_policy_hash :: bytes
  sp_auction_id :: uuid
  sp_matches :: "settlement_match list"

record submitter =
  su_submit :: "submit_batch_params \<Rightarrow> (settlement_error + string) option"
  su_submit_session :: "submit_session_params \<Rightarrow> (settlement_error + string) option"

text \<open>The first critical section: take the submitting flag and copy the batch.\<close>

definition submit_acquire :: "uuid \<Rightarrow> 'st engine \<Rightarrow> ('st engine \<times> pending_batch) option" where
  "submit_acquire i en =
     (case hm_get (es_pending_batches (en_state en)) i of
        None \<Rightarrow> None
      | Some pb \<Rightarrow>
          if pb_submitting pb then None
          else Some (en\<lparr>en_state := (en_state en)\<lparr>es_pending_batches :=
                 hm_insert i (pb\<lparr>pb_submitting := True\<rparr>) (es_pending_batches (en_state en))\<rparr>\<rparr>, pb))"

definition poisoned :: "pending_batch \<Rightarrow> bool" where
  "poisoned pb \<longleftrightarrow> pb_ivc_payload pb = None \<and> list_all (\<lambda>u. u = 0) (pb_public_inputs pb)"

definition submit_call :: "submitter \<Rightarrow> uuid \<Rightarrow> pending_batch \<Rightarrow> settlement_error + string" where
  "submit_call su i pb =
     (let r = (case pb_ivc_payload pb of
                 Some payload \<Rightarrow> su_submit_session su
                   \<lparr>sp_session_id = i, sp_proof = ivc_proof_bytes payload, sp_z_0 = map be_nat (ivc_z_0 payload),
                    sp_z_n = map be_nat (ivc_z_n payload), sp_n_steps = ivc_n_steps payload,
                    sp_policy_hash = ivc_policy_hash payload, sp_auction_id = pb_auction_id pb,
                    sp_matches = pb_settlement_matches pb\<rparr>
               | None \<Rightarrow> su_submit su
                   \<lparr>sb_batch_id = i, sb_auction_id = pb_auction_id pb, sb_proof = pb_proof pb,
                    sb_public_inputs = pb_public_inputs pb, sb_matches = pb_settlement_matches pb\<rparr>)
      in case r of None \<Rightarrow> Inl (Rpc ''submit timeout'') | Some x \<Rightarrow> x)"

definition note_submit_failure :: "time \<Rightarrow> uuid \<Rightarrow> 'st engine \<Rightarrow> 'st engine" where
  "note_submit_failure inow i en =
     (let s = en_state en in
      case hm_get (es_pending_batches s) i of
        None \<Rightarrow> en
      | Some pb \<Rightarrow>
          let attempts = min (pb_attempts pb + 1) (2 ^ 32 - 1);
              pb' = pb\<lparr>pb_attempts := attempts,
                       pb_next_attempt := Some (inow + int (compute_backoff (es_min_backoff s) (es_max_backoff s) attempts)),
                       pb_submitting := False\<rparr>
          in en\<lparr>en_state := s\<lparr>es_pending_batches := hm_insert i pb' (es_pending_batches s)\<rparr>\<rparr>)"

text \<open>\<^verbatim>\<open>BatchConfirmed\<close> is appended without the state lock ...\<close>

definition confirm_append ::
  "'st store_ops \<Rightarrow> clock \<Rightarrow> time \<Rightarrow> uuid \<Rightarrow> string \<Rightarrow> 'st engine \<Rightarrow> 'st engine \<times> (engine_error + event list)" where
  "confirm_append ops clk now i tx en = store_append ops clk [event_at now (BatchConfirmed i tx)] en"

text \<open>... and the batch is removed in a second critical section.\<close>

definition confirm_apply :: "collab \<Rightarrow> event list \<Rightarrow> uuid \<Rightarrow> 'st engine \<Rightarrow> 'st engine \<times> (engine_error + unit)" where
  "confirm_apply C es i en =
     (case apply_events C es en of
        None \<Rightarrow> (en, Inl EnginePanic)
      | Some en' \<Rightarrow> (remove_batch i en', Inr ()))"

definition submit_batch ::
  "collab \<Rightarrow> 'st store_ops \<Rightarrow> clock \<Rightarrow> submitter \<Rightarrow> time \<Rightarrow> time \<Rightarrow> uuid \<Rightarrow> 'st engine \<Rightarrow> 'st engine \<times> (engine_error + unit)" where
  "submit_batch C ops clk su now inow i en =
     (case submit_acquire i en of
        None \<Rightarrow> (en, Inr ())
      | Some (en1, pb) \<Rightarrow>
          if poisoned pb then (en1, Inl (RecoveredBatchPublicInputsMissing i))
          else (case submit_call su i pb of
              Inl e \<Rightarrow> (note_submit_failure inow i en1, Inl (SubmitErr e))
            | Inr tx \<Rightarrow>
                (case confirm_append ops clk now i tx en1 of
                   (en2, Inl e) \<Rightarrow> (note_submit_failure inow i en2, Inl e)
                 | (en2, Inr es) \<Rightarrow> confirm_apply C es i en2)))"

text \<open>The batches due for a retry; errors of a single submission are only logged.\<close>

definition due_batches :: "time \<Rightarrow> uuid list \<Rightarrow> 'st engine \<Rightarrow> uuid list" where
  "due_batches inow skip en =
     map fst (filter (\<lambda>(i, pb). i \<notin> set skip \<and> (case pb_next_attempt pb of None \<Rightarrow> True | Some t \<Rightarrow> t \<le> inow))
       (es_pending_batches (en_state en)))"

definition submit_all ::
  "collab \<Rightarrow> 'st store_ops \<Rightarrow> clock \<Rightarrow> submitter \<Rightarrow> time \<Rightarrow> time \<Rightarrow> uuid list \<Rightarrow> 'st engine \<Rightarrow> 'st engine" where
  "submit_all C ops clk su now inow ids en = fold (\<lambda>i en. fst (submit_batch C ops clk su now inow i en)) ids en"

definition resubmit_pending_except ::
  "collab \<Rightarrow> 'st store_ops \<Rightarrow> clock \<Rightarrow> submitter \<Rightarrow> time \<Rightarrow> time \<Rightarrow> uuid list \<Rightarrow> 'st engine \<Rightarrow> 'st engine" where
  "resubmit_pending_except C ops clk su now inow skip en =
     submit_all C ops clk su now inow (due_batches inow skip en) en"

definition resubmit_pending ::
  "collab \<Rightarrow> 'st store_ops \<Rightarrow> clock \<Rightarrow> submitter \<Rightarrow> time \<Rightarrow> time \<Rightarrow> 'st engine \<Rightarrow> 'st engine" where
  "resubmit_pending C ops clk su now inow en =
     submit_all C ops clk su now inow (hm_keys (es_pending_batches (en_state en))) en"

text \<open>The watcher's callback: an append that fails is logged and the batch stays.\<close>

definition on_batch_settled ::
  "collab \<Rightarrow> 'st store_ops \<Rightarrow> clock \<Rightarrow> time \<Rightarrow> uuid \<Rightarrow> nat \<Rightarrow> string \<Rightarrow> 'st engine \<Rightarrow> 'st engine" where
  "on_batch_settled C ops clk now i block tx en =
     (case store_append ops clk [event_at now (BatchSettled i block tx)] en of
        (en', Inl _) \<Rightarrow> en'
      | (en', Inr es) \<Rightarrow> fst (confirm_apply C es i en'))"

end
