(* ===== verification/Tick.thy ===== *)
theory Tick
  imports Batch "HOL-Library.List_Lexorder" "HOL-Library.Char_ord"
begin

text \<open>
  The auction tick (\<^verbatim>\<open>dp-engine/src/tick.rs\<close>, and the witness builders of \<^verbatim>\<open>engine.rs\<close>): under the state
  lock, expire orders and run one auction per active pair, persisting and applying its events; then,
  without the lock, build the witness of every batch of at most \<^verbatim>\<open>batch_size\<close> matches, fold it,
  and every \<^verbatim>\<open>finalize_every\<close> folds of a pair turn the batch at hand into a pending one.

  The identifiers a tick draws are arguments: an auction id per pair and a batch id per pair and
  chunk. The proof aggregator is a parameter: its answers while a given batch is processed. \<open>None\<close>
  is a panic.
\<close>

section \<open>The critical section\<close>

definition clearing_price_encodable :: "collab \<Rightarrow> auction_result \<Rightarrow> encoding_error + unit" where
  "clearing_price_encodable C r =
     (case decimal_to_scalar (co_dec C) (clearing_price r) of Inl e \<Rightarrow> Inl e | Inr _ \<Rightarrow> Inr ())"

definition expiry_events :: "time \<Rightarrow> book \<Rightarrow> event list" where
  "expiry_events now b = map (\<lambda>e. e\<lparr>ev_timestamp := now\<rparr>) (collect_expired now b)"

definition tick_expire :: "collab \<Rightarrow> 'st store_ops \<Rightarrow> clock \<Rightarrow> time \<Rightarrow> 'st engine \<Rightarrow> 'st engine option" where
  "tick_expire C ops clk now en =
     (let expired = expiry_events now (es_book (en_state en)) in
      if expired = [] then Some en
      else case store_append ops clk expired en of
          (en', Inl _) \<Rightarrow> Some en'
        | (en', Inr es) \<Rightarrow> apply_events C es en')"

definition match_event :: "time \<Rightarrow> uuid \<Rightarrow> auction_match \<Rightarrow> event" where
  "match_event now aid m = event_at now (OrderMatched aid (m_bid m) (m_ask m) (m_price m) (m_size m))"

definition round_events :: "time \<Rightarrow> auction_result \<Rightarrow> event list" where
  "round_events now r =
     event_at now (AuctionExecuted (res_auction_id r) (res_pair r) (clearing_price r) (matched_volume r)
       (length (matches r) mod 2 ^ 32) now)
     # map (match_event now (res_auction_id r)) (matches r)"

definition snapshot_order :: "book \<Rightarrow> uuid \<Rightarrow> (uuid, order) hash_map \<Rightarrow> (uuid, order) hash_map" where
  "snapshot_order b i m = (case find_order b i of None \<Rightarrow> m | Some ord \<Rightarrow> hm_insert (order_id ord) ord m)"

definition order_snapshot :: "book \<Rightarrow> auction_match list \<Rightarrow> (uuid, order) hash_map" where
  "order_snapshot b ms =
     fold (\<lambda>m acc. snapshot_order b (fill_order_id (m_ask m)) (snapshot_order b (fill_order_id (m_bid m)) acc)) ms []"

definition executed_record :: "time \<Rightarrow> auction_result \<Rightarrow> auction_executed_record" where
  "executed_record now r =
     \<lparr>ae_auction_id = res_auction_id r, ae_pair = res_pair r, ae_clearing_price = clearing_price r,
      ae_matched_volume = matched_volume r, ae_match_count = length (matches r) mod 2 ^ 32, ae_timestamp = now\<rparr>"

fun chunks :: "nat \<Rightarrow> 'a list \<Rightarrow> 'a list list" where
  "chunks n [] = []"
| "chunks n (x # xs) = (x # take (n - 1) xs) # chunks n (drop (n - 1) xs)"

definition order_matched_to_match :: "fill \<Rightarrow> fill \<Rightarrow> decimal \<Rightarrow> decimal \<Rightarrow> auction_match" where
  "order_matched_to_match bid ask p sz = \<lparr>m_bid = bid, m_ask = ask, m_price = p, m_size = sz\<rparr>"

definition round_aggregations ::
  "nat \<Rightarrow> time \<Rightarrow> (nat \<Rightarrow> uuid) \<Rightarrow> auction_result \<Rightarrow> (uuid, order) hash_map \<Rightarrow> uuid list \<Rightarrow> pending_aggregation list" where
  "round_aggregations batch_size now bid r orders admitted =
     map (\<lambda>(k, ms). \<lparr>pa_batch_id = bid k, pa_auction_id = res_auction_id r, pa_pair = res_pair r, pa_matches = ms,
                      pa_orders = orders, pa_admitted_order_ids = admitted, pa_auction_at = now\<rparr>)
       (enumerate 0 (chunks batch_size
          (map (\<lambda>m. order_matched_to_match (m_bid m) (m_ask m) (m_price m) (m_size m)) (matches r))))"

definition log_auction :: "auction_executed_record \<Rightarrow> 'st engine \<Rightarrow> 'st engine" where
  "log_auction r en = en\<lparr>en_state := (en_state en)\<lparr>es_auction_log := es_auction_log (en_state en) @ [r]\<rparr>\<rparr>"

definition tick_pair ::
  "collab \<Rightarrow> 'st store_ops \<Rightarrow> clock \<Rightarrow> time \<Rightarrow> (string \<Rightarrow> uuid) \<Rightarrow> (string \<Rightarrow> nat \<Rightarrow> uuid) \<Rightarrow> string
   \<Rightarrow> 'st engine \<Rightarrow> ('st engine \<times> auction_notification list \<times> pending_aggregation list) option" where
  "tick_pair C ops clk now aid bid pair en =
     (let b = es_book (en_state en); bids = book_bids b pair; asks = book_asks b pair;
          admitted = map order_id (bids @ asks)
      in case run (co_dec C) (aid pair) pair bids asks of
           None \<Rightarrow> None
         | Some None \<Rightarrow> Some (en, [], [])
         | Some (Some r) \<Rightarrow>
             (case clearing_price_encodable C r of
                Inl _ \<Rightarrow> Some (en, [], [])
              | Inr _ \<Rightarrow>
                  (let orders = order_snapshot b (matches r) in
                   case store_append ops clk (round_events now r) en of
                     (en', Inl _) \<Rightarrow> Some (en', [], [])
                   | (en', Inr es) \<Rightarrow>
                       (case apply_events C es (log_auction (executed_record now r) en') of
                          None \<Rightarrow> None
                        | Some en2 \<Rightarrow>
                            Some (en2, [record_to_notification (executed_record now r)],
                                  round_aggregations (en_batch_size en) now (bid pair) r orders admitted)))))"

fun tick_pairs ::
  "collab \<Rightarrow> 'st store_ops \<Rightarrow> clock \<Rightarrow> time \<Rightarrow> (string \<Rightarrow> uuid) \<Rightarrow> (string \<Rightarrow> nat \<Rightarrow> uuid) \<Rightarrow> string list
   \<Rightarrow> 'st engine \<Rightarrow> ('st engine \<times> auction_notification list \<times> pending_aggregation list) option" where
  "tick_pairs C ops clk now aid bid [] en = Some (en, [], [])"
| "tick_pairs C ops clk now aid bid (p # ps) en = do {
     (en1, ns, pas) \<leftarrow> tick_pair C ops clk now aid bid p en;
     (en2, ns', pas') \<leftarrow> tick_pairs C ops clk now aid bid ps en1;
     Some (en2, ns @ ns', pas @ pas')
   }"

definition active_pairs :: "engine_state \<Rightarrow> string list" where
  "active_pairs s = sort (map fst (filter (\<lambda>(p, cfg). is_active (pc_status cfg)) (es_pair_tokens s)))"

definition tick_under_lock ::
  "collab \<Rightarrow> 'st store_ops \<Rightarrow> clock \<Rightarrow> time \<Rightarrow> (string \<Rightarrow> uuid) \<Rightarrow> (string \<Rightarrow> nat \<Rightarrow> uuid) \<Rightarrow> 'st engine
   \<Rightarrow> ('st engine \<times> auction_notification list \<times> pending_aggregation list) option" where
  "tick_under_lock C ops clk now aid bid en = do {
     en' \<leftarrow> tick_expire C ops clk now en;
     tick_pairs C ops clk now aid bid (active_pairs (en_state en')) en'
   }"

section \<open>Witnesses\<close>

definition leg_witness_from :: "collab \<Rightarrow> order_secrets \<Rightarrow> order \<Rightarrow> nat \<Rightarrow> order_leg_witness" where
  "leg_witness_from C sec ord sd =
     \<lparr>lw_trader_id = co_hex_encode C (os_trader_id sec), lw_salt = co_hex_encode C (os_salt sec),
      lw_balance = os_balance sec, lw_position = os_position sec, lw_limit_price = price ord,
      lw_order_size = order_size ord, lw_side = sd, lw_trader_addr = co_hex_encode C (addr_bytes (trader ord))\<rparr>"

definition match_witness_of ::
  "collab \<Rightarrow> (uuid, order_secrets) hash_map \<Rightarrow> (uuid, order) hash_map \<Rightarrow> auction_match \<Rightarrow> engine_error + match_witness" where
  "match_witness_of C secrets orders m =
     (let b = fill_order_id (m_bid m); a = fill_order_id (m_ask m) in
      bindE (ok_or (WitnessSecretMissing b) (hm_get secrets b)) (\<lambda>bid_secret.
      bindE (ok_or (WitnessSecretMissing a) (hm_get secrets a)) (\<lambda>ask_secret.
      bindE (ok_or (WitnessOrderMissing b) (hm_get orders b)) (\<lambda>bid_order.
      bindE (ok_or (WitnessOrderMissing a) (hm_get orders a)) (\<lambda>ask_order.
      Inr \<lparr>mw_bid = leg_witness_from C bid_secret bid_order 0, mw_ask = leg_witness_from C ask_secret ask_order 1\<rparr>)))))"

definition build_batch_witness ::
  "collab \<Rightarrow> uuid \<Rightarrow> uuid \<Rightarrow> auction_match list \<Rightarrow> (uuid, order) hash_map \<Rightarrow> 'st engine \<Rightarrow> engine_error + batch_witness" where
  "build_batch_witness C batch_id auction_id ms orders en =
     bindE (collectE (match_witness_of C (en_secrets en) orders) ms) (\<lambda>ws.
     Inr \<lparr>bw_batch_id = batch_id, bw_auction_id = auction_id, bw_matches = ws, bw_policy = into_policy\<rparr>)"

text \<open>\<open>None\<close>: a commitment that is no canonical field encoding, the \<^verbatim>\<open>expect\<close> of the source.\<close>

fun admitted_commitments :: "(uuid, order_secrets) hash_map \<Rightarrow> uuid list \<Rightarrow> fr list option" where
  "admitted_commitments secrets [] = Some []"
| "admitted_commitments secrets (i # ids) =
     (case hm_get secrets i of
        None \<Rightarrow> admitted_commitments secrets ids
      | Some sec \<Rightarrow>
          (case bytes32_to_scalar (os_commitment sec) of
             Inl _ \<Rightarrow> None
           | Inr f \<Rightarrow> (case admitted_commitments secrets ids of None \<Rightarrow> None | Some fs \<Rightarrow> Some (f # fs))))"

section \<open>Folding\<close>

record final_proof =
  fp_proof_bytes :: bytes
  fp_z_0 :: "fr list"
  fp_z_n :: "fr list"
  fp_n_steps :: nat
  fp_policy_hash :: fr

record aggregator =
  ag_aggregate :: "uuid \<Rightarrow> uuid \<Rightarrow> auction_match list \<Rightarrow> batch_witness \<Rightarrow> string + bytes"
  ag_fold_step :: "uuid \<Rightarrow> string \<Rightarrow> external_inputs \<Rightarrow> string + unit"
  ag_finalize :: "uuid \<Rightarrow> string \<Rightarrow> string + final_proof"

definition bump_round :: "string \<Rightarrow> 'st engine \<Rightarrow> 'st engine \<times> nat" where
  "bump_round pair en =
     (let r = (case hm_get (en_ivc_round en) pair of None \<Rightarrow> 0 | Some r \<Rightarrow> r) + 1
      in (en\<lparr>en_ivc_round := hm_insert pair r (en_ivc_round en)\<rparr>, r))"

definition build_settlement_matches ::
  "pending_aggregation \<Rightarrow> engine_state \<Rightarrow> engine_error + settlement_match list" where
  "build_settlement_matches p s =
     collectE (\<lambda>m. mapErr (\<lambda>e. case e of OrderMissing i \<Rightarrow> WitnessOrderMissing i | PairMissing q \<Rightarrow> PairNotConfigured q)
                 (try_build_settlement_row m (pa_orders p) (es_pair_tokens s))) (pa_matches p)"

definition ivc_payload_of :: "final_proof \<Rightarrow> proof_payload" where
  "ivc_payload_of fp =
     IvcFinal (fp_proof_bytes fp) (map fr_to_bytes32 (fp_z_0 fp)) (map fr_to_bytes32 (fp_z_n fp)) (fp_n_steps fp)
       (fr_to_bytes32 (fp_policy_hash fp))"

definition set_ivc_payload :: "uuid \<Rightarrow> proof_payload \<Rightarrow> 'st engine \<Rightarrow> 'st engine" where
  "set_ivc_payload i payload en =
     (case hm_get (es_pending_batches (en_state en)) i of
        None \<Rightarrow> en
      | Some pb \<Rightarrow> en\<lparr>en_state := (en_state en)\<lparr>es_pending_batches :=
          hm_insert i (pb\<lparr>pb_ivc_payload := Some payload\<rparr>) (es_pending_batches (en_state en))\<rparr>\<rparr>)"

text \<open>The finalisation of a batch at a round boundary; \<open>True\<close> when it is to be submitted.\<close>

definition finalize_batch ::
  "collab \<Rightarrow> 'st store_ops \<Rightarrow> clock \<Rightarrow> aggregator \<Rightarrow> pending_aggregation \<Rightarrow> 'st engine \<Rightarrow> 'st engine \<times> bool" where
  "finalize_batch C ops clk A p en =
     (case ag_finalize A (pa_batch_id p) (pa_pair p) of
        Inl _ \<Rightarrow> (en, False)
      | Inr fp \<Rightarrow>
          (case build_settlement_matches p (en_state en) of
             Inl _ \<Rightarrow> (en, False)
           | Inr sms \<Rightarrow>
               (case finalize_pending_batch C ops clk p (fp_proof_bytes fp) (replicate 6 0) sms en of
                  (en', Inl _) \<Rightarrow> (en', False)
                | (en', Inr _) \<Rightarrow> (set_ivc_payload (pa_batch_id p) (ivc_payload_of fp) en', True))))"

text \<open>One iteration of the loop over the pending aggregations; the outer \<open>None\<close> is a panic.\<close>

definition fold_batch ::
  "collab \<Rightarrow> 'st store_ops \<Rightarrow> clock \<Rightarrow> aggregator \<Rightarrow> time \<Rightarrow> pending_aggregation \<Rightarrow> 'st engine \<Rightarrow> ('st engine \<times> bool) option" where
  "fold_batch C ops clk A now p en =
     (case build_batch_witness C (pa_batch_id p) (pa_auction_id p) (pa_matches p) (pa_orders p) en of
        Inl _ \<Rightarrow> Some (en, False)
      | Inr w \<Rightarrow>
          (case admitted_commitments (en_secrets en) (pa_admitted_order_ids p) of
             None \<Rightarrow> None
           | Some admitted \<Rightarrow>
               (case from_witness_with_admitted (co_dec C) (co_hex_decode C) (co_sponge C) w
                       (map m_price (pa_matches p)) (map m_size (pa_matches p)) (en_batch_size en) admitted of
                  Inl e \<Rightarrow> if e = ZkPanic then None else Some (en, False)
                | Inr ext \<Rightarrow>
                    (case ag_fold_step A (pa_batch_id p) (pa_pair p) ext of
                       Inl _ \<Rightarrow> Some (en, False)
                     | Inr _ \<Rightarrow>
                         (case bump_round (pa_pair p) en of (en1, round_index) \<Rightarrow>
                          let en2 = fst (store_append ops clk
                                [event_at now (BatchFolded (pa_batch_id p) round_index (pa_pair p)
                                   (fr_to_bytes32 (xi_admitted_root ext)))] en1) in
                          if round_index mod en_finalize_every en = 0
                          then Some (finalize_batch C ops clk A p en2)
                          else Some (en2, False))))))"

fun fold_batches ::
  "collab \<Rightarrow> 'st store_ops \<Rightarrow> clock \<Rightarrow> aggregator \<Rightarrow> time \<Rightarrow> pending_aggregation list \<Rightarrow> 'st engine
   \<Rightarrow> ('st engine \<times> uuid list) option" where
  "fold_batches C ops clk A now [] en = Some (en, [])"
| "fold_batches C ops clk A now (p # ps) en = do {
     (en1, submit) \<leftarrow> fold_batch C ops clk A now p en;
     (en2, ids) \<leftarrow> fold_batches C ops clk A now ps en1;
     Some (en2, (if submit then [pa_batch_id p] else []) @ ids)
   }"

text \<open>The whole tick, run without interruption.\<close>

definition run_auction_tick ::
  "collab \<Rightarrow> 'st store_ops \<Rightarrow> clock \<Rightarrow> aggregator \<Rightarrow> submitter \<Rightarrow> time \<Rightarrow> time \<Rightarrow> (string \<Rightarrow> uuid) \<Rightarrow> (string \<Rightarrow> nat \<Rightarrow> uuid)
   \<Rightarrow> 'st engine \<Rightarrow> ('st engine \<times> auction_notification list) option" where
  "run_auction_tick C ops clk A su now inow aid bid en = do {
     (en1, notifications, pending) \<leftarrow> tick_under_lock C ops clk now aid bid en;
     (en2, ids) \<leftarrow> fold_batches C ops clk A now pending en1;
     let en3 = submit_all C ops clk su now inow ids en2;
     let en4 = resubmit_pending_except C ops clk su now inow ids en3;
     Some (prune_dead_secrets en4, notifications)
   }"

end
