(* ===== verification/Snapshot.thy ===== *)
theory Snapshot
  imports Engine
begin

text \<open>
  Snapshots: the sealed envelope and the snapshotter (\<^verbatim>\<open>dp-engine/src/snapshot.rs\<close>), the cipher
  (\<^verbatim>\<open>dp-crypto/src/snapshot_cipher.rs\<close>), the store trait and its in-memory instance
  (\<^verbatim>\<open>dp-event/src/snapshot.rs\<close>).

  Third-party code is a parameter: the AEAD cipher under its key, and \<^verbatim>\<open>bincode\<close> for the serialised
  state. \<open>aead_ok\<close> and \<open>bincode_ok\<close> are what the code relies on. The nonce a seal draws is an argument.
\<close>

section \<open>The cipher\<close>

definition SNAPSHOT_NONCE_LEN :: nat where
  "SNAPSHOT_NONCE_LEN = 24"

record aead =
  ae_encrypt :: "bytes \<Rightarrow> bytes \<Rightarrow> bytes \<Rightarrow> bytes option"
  ae_decrypt :: "bytes \<Rightarrow> bytes \<Rightarrow> bytes \<Rightarrow> bytes option"

text \<open>Arguments: nonce, message, associated data. Decryption accepts what encryption produced under
  the same nonce and associated data and nothing else.\<close>

definition aead_ok :: "aead \<Rightarrow> bool" where
  "aead_ok K \<longleftrightarrow>
     (\<forall>n m a c. ae_encrypt K n m a = Some c \<longrightarrow> ae_decrypt K n c a = Some m) \<and>
     (\<forall>n c a m. ae_decrypt K n c a = Some m \<longrightarrow> ae_encrypt K n m a = Some c)"

definition seal :: "aead \<Rightarrow> bytes \<Rightarrow> bytes \<Rightarrow> bytes \<Rightarrow> bytes option" where
  "seal K nonce plaintext aad =
     (case ae_encrypt K nonce plaintext aad of None \<Rightarrow> None | Some c \<Rightarrow> Some (nonce @ c))"

definition open_sealed :: "aead \<Rightarrow> bytes \<Rightarrow> bytes \<Rightarrow> bytes option" where
  "open_sealed K sealed aad =
     (if length sealed < SNAPSHOT_NONCE_LEN then None
      else ae_decrypt K (take SNAPSHOT_NONCE_LEN sealed) (drop SNAPSHOT_NONCE_LEN sealed) aad)"

section \<open>The envelope\<close>

definition SNAP_MAGIC :: bytes where
  "SNAP_MAGIC = ascii ''DPS2''"

definition ENVELOPE_VERSION :: nat where
  "ENVELOPE_VERSION = 3"

definition AAD_LEN :: nat where
  "AAD_LEN = 4 + 4 + 8"

definition HEADER_LEN :: nat where
  "HEADER_LEN = AAD_LEN + 4"

datatype snapshot_error =
    Truncated nat
  | BadMagic
  | UnsupportedVersion nat
  | LengthMismatch nat nat
  | SnapDecrypt
  | SnapEncrypt
  | CipherMissing
  | SnapBincode
  | SnapStore event_error

record state_codec =
  sc_ser :: "serializable_state \<Rightarrow> bytes option"
  sc_de :: "bytes \<Rightarrow> serializable_state option"

text \<open>\<^verbatim>\<open>next_attempt\<close> and \<^verbatim>\<open>submitting\<close> are skipped by the serialiser and come back as their defaults.\<close>

definition drop_transient :: "pending_batch \<Rightarrow> pending_batch" where
  "drop_transient pb = pb\<lparr>pb_next_attempt := None, pb_submitting := False\<rparr>"

definition stored_state :: "serializable_state \<Rightarrow> serializable_state" where
  "stored_state s = s\<lparr>ss_pending_batches := map (\<lambda>(i, pb). (i, drop_transient pb)) (ss_pending_batches s)\<rparr>"

definition bincode_ok :: "state_codec \<Rightarrow> bool" where
  "bincode_ok cd \<longleftrightarrow> (\<forall>s b. sc_ser cd s = Some b \<longrightarrow> sc_de cd b = Some (stored_state s))"

definition envelope_header :: "nat \<Rightarrow> bytes" where
  "envelope_header sq = SNAP_MAGIC @ be_bytes 4 ENVELOPE_VERSION @ be_bytes 8 sq"

definition encode_envelope ::
  "state_codec \<Rightarrow> aead \<Rightarrow> bytes \<Rightarrow> serializable_state \<Rightarrow> nat \<Rightarrow> snapshot_error + bytes" where
  "encode_envelope cd K nonce s sq =
     bindE (ok_or SnapBincode (sc_ser cd s)) (\<lambda>blob.
     bindE (ok_or SnapEncrypt (seal K nonce blob (envelope_header sq))) (\<lambda>sealed.
     if 2 ^ 32 \<le> length sealed then Inl (LengthMismatch (2 ^ 32 - 1) (length sealed))
     else Inr (envelope_header sq @ be_bytes 4 (length sealed) @ sealed)))"

definition decode_envelope ::
  "state_codec \<Rightarrow> aead \<Rightarrow> bytes \<Rightarrow> snapshot_error + nat \<times> serializable_state" where
  "decode_envelope cd K bs =
     (if length bs < HEADER_LEN then Inl (Truncated (length bs))
      else if take 4 bs \<noteq> SNAP_MAGIC then Inl BadMagic
      else
        let version = be_nat (take 4 (drop 4 bs)) in
        if version \<noteq> ENVELOPE_VERSION then Inl (UnsupportedVersion version)
        else
          let sq = be_nat (take 8 (drop 8 bs));
              sealed_len = be_nat (take 4 (drop 16 bs));
              payload = drop HEADER_LEN bs
          in if length payload \<noteq> sealed_len then Inl (LengthMismatch sealed_len (length payload))
             else
               bindE (ok_or SnapDecrypt (open_sealed K payload (take AAD_LEN bs))) (\<lambda>blob.
               bindE (ok_or SnapBincode (sc_de cd blob)) (\<lambda>s. Inr (sq, s))))"

section \<open>Snapshot stores\<close>

record 'sn snap_ops =
  sn_write :: "nat \<Rightarrow> bytes \<Rightarrow> 'sn \<Rightarrow> 'sn \<times> (event_error + unit)"
  sn_read_latest :: "'sn \<Rightarrow> event_error + (nat \<times> bytes) option"
  sn_read_at :: "nat \<Rightarrow> 'sn \<Rightarrow> event_error + bytes option"
  sn_list_seqs :: "'sn \<Rightarrow> event_error + nat list"
  sn_delete_before :: "nat \<Rightarrow> 'sn \<Rightarrow> 'sn \<times> (event_error + unit)"

text \<open>The in-memory store, a \<^verbatim>\<open>BTreeMap\<close>: an association list in ascending order of its keys.\<close>

type_synonym mem_snaps = "(nat \<times> bytes) list"

fun bt_insert :: "nat \<Rightarrow> bytes \<Rightarrow> mem_snaps \<Rightarrow> mem_snaps" where
  "bt_insert k v [] = [(k, v)]"
| "bt_insert k v ((k', v') # m) =
     (if k < k' then (k, v) # (k', v') # m
      else if k = k' then (k, v) # m
      else (k', v') # bt_insert k v m)"

definition mem_snap_ops :: "mem_snaps snap_ops" where
  "mem_snap_ops =
     \<lparr>sn_write = (\<lambda>sq env m. (bt_insert sq env m, Inr ())),
      sn_read_latest = (\<lambda>m. Inr (if m = [] then None else Some (last m))),
      sn_read_at = (\<lambda>sq m. Inr (map_of m sq)),
      sn_list_seqs = (\<lambda>m. Inr (map fst m)),
      sn_delete_before = (\<lambda>sq m. (filter (\<lambda>(k, _). sq \<le> k) m, Inr ()))\<rparr>"

section \<open>The snapshotter\<close>

record snapshot_config =
  sf_enabled :: bool
  sf_every_events :: nat
  sf_interval :: duration
  sf_retain_events :: nat
  sf_retain_count :: nat

definition snapshot_config_default :: snapshot_config where
  "snapshot_config_default =
     \<lparr>sf_enabled = True, sf_every_events = 10000, sf_interval = 300 * 1000000000,
      sf_retain_events = 1024, sf_retain_count = 3\<rparr>"

text \<open>The retention sweep; its errors are ignored.\<close>

definition prune_snapshots :: "'sn snap_ops \<Rightarrow> snapshot_config \<Rightarrow> 'sn \<Rightarrow> 'sn" where
  "prune_snapshots sops cfg sn =
     (if 0 < sf_retain_count cfg then
        (case sn_list_seqs sops sn of
           Inl _ \<Rightarrow> sn
         | Inr seqs \<Rightarrow>
             if sf_retain_count cfg < length seqs
             then fst (sn_delete_before sops (seqs ! (length seqs - sf_retain_count cfg)) sn)
             else sn)
      else sn)"

definition take_snapshot ::
  "state_codec \<Rightarrow> aead option \<Rightarrow> bytes \<Rightarrow> 'st store_ops \<Rightarrow> 'sn snap_ops \<Rightarrow> snapshot_config \<Rightarrow> 'st engine \<Rightarrow> 'sn
   \<Rightarrow> 'st engine \<times> 'sn \<times> (snapshot_error + nat)" where
  "take_snapshot cd K nonce ops sops cfg en sn =
     (case K of
        None \<Rightarrow> (en, sn, Inl CipherMissing)
      | Some k \<Rightarrow>
          (case capture_snapshot_state ops en of (s, sq) \<Rightarrow>
             (case encode_envelope cd k nonce s sq of
                Inl e \<Rightarrow> (en, sn, Inl e)
              | Inr env \<Rightarrow>
                  (case sn_write sops sq env sn of
                     (sn', Inl e) \<Rightarrow> (en, sn', Inl (SnapStore e))
                   | (sn', Inr _) \<Rightarrow>
                       (let compact_floor = sq - sf_retain_events cfg;
                            en' = (if 0 < compact_floor then fst (compact_events_before ops compact_floor en) else en)
                        in (en', prune_snapshots sops cfg sn', Inr sq))))))"

text \<open>One turn of the snapshotter's loop: its watermark, and when the last snapshot was taken.\<close>

definition snapshotter_turn ::
  "state_codec \<Rightarrow> aead option \<Rightarrow> bytes \<Rightarrow> 'st store_ops \<Rightarrow> 'sn snap_ops \<Rightarrow> snapshot_config \<Rightarrow> time
   \<Rightarrow> 'st engine \<Rightarrow> 'sn \<Rightarrow> nat \<times> time \<Rightarrow> 'st engine \<times> 'sn \<times> nat \<times> time" where
  "snapshotter_turn cd K nonce ops sops cfg inow en sn w =
     (case w of (last_seq, last_at) \<Rightarrow>
      let now_seq = st_last_seq ops (en_store en);
          event_trigger = (sf_every_events cfg \<le> now_seq - last_seq);
          time_trigger = (int (sf_interval cfg) \<le> inow - last_at)
      in if now_seq < last_seq then (en, sn, w)
         else if \<not> event_trigger \<and> \<not> time_trigger then (en, sn, w)
         else (case take_snapshot cd K nonce ops sops cfg en sn of
             (en', sn', Inr written) \<Rightarrow> (en', sn', written, inow)
           | (en', sn', Inl _) \<Rightarrow> (en', sn', w)))"

end
