(* ===== verification/Recover.thy ===== *)
theory Recover
  imports Tick Snapshot
begin

text \<open>
  Recovery (\<^verbatim>\<open>dp-engine/src/recover.rs\<close>): restore the newest readable snapshot, replay the event log
  after it, and aggregate anew the matches that no batch claimed.

  The replay loop reads the log in pages until one is empty; it has fuel, and \<open>None\<close> is no fuel left.
  Everything else is total: an early return of the source is a value \<open>Inl\<close>.
\<close>

section \<open>Replaying one event\<close>

record replay_acc =
  ra_matches_by_auction :: "(uuid, auction_match list) hash_map"
  ra_auction_timestamps :: "(uuid, time) hash_map"
  ra_placed_orders :: "(uuid, order) hash_map"

definition replay_acc_empty :: replay_acc where
  "replay_acc_empty = \<lparr>ra_matches_by_auction = [], ra_auction_timestamps = [], ra_placed_orders = []\<rparr>"

definition canonicalise_replayed_pair :: "string \<Rightarrow> string" where
  "canonicalise_replayed_pair p = (case pair_parse p of Inl _ \<Rightarrow> p | Inr q \<Rightarrow> q)"

definition parse_address_or_zero_logged :: "collab \<Rightarrow> string \<Rightarrow> address" where
  "parse_address_or_zero_logged C s = (case co_addr_parse C s of None \<Rightarrow> 0 | Some a \<Rightarrow> a)"

definition build_recovery_settlement_matches ::
  "auction_match list \<Rightarrow> (uuid, order) hash_map \<Rightarrow> (string, pair_config) hash_map \<Rightarrow> settlement_match list" where
  "build_recovery_settlement_matches ms po pairs =
     List.map_filter (\<lambda>m. case try_build_settlement_row m po pairs of Inl _ \<Rightarrow> None | Inr r \<Rightarrow> Some r) ms"

text \<open>\<^verbatim>\<open>book.apply(ev)\<close> with its panic as an error, then a change of the rest of the state.\<close>

definition apply_then ::
  "collab \<Rightarrow> event \<Rightarrow> (engine_state \<Rightarrow> engine_state) \<Rightarrow> 'st engine \<Rightarrow> engine_error + 'st engine" where
  "apply_then C ev f en =
     (case apply_events C [ev] en of
        None \<Rightarrow> Inl EnginePanic
      | Some en' \<Rightarrow> Inr (en'\<lparr>en_state := f (en_state en')\<rparr>))"

definition seed_pair :: "string \<Rightarrow> engine_state \<Rightarrow> engine_state" where
  "seed_pair key s =
     (if hm_contains (es_pair_tokens s) key then s
      else s\<lparr>es_pair_tokens := hm_insert key pair_config_default (es_pair_tokens s)\<rparr>)"

definition replay_order_placed ::
  "collab \<Rightarrow> event \<Rightarrow> uuid \<Rightarrow> bytes \<Rightarrow> bytes \<Rightarrow> 'st engine \<times> replay_acc \<Rightarrow> engine_error + 'st engine \<times> replay_acc" where
  "replay_order_placed C ev i commitment ct st =
     bindE (mapErr (RecoverDecrypt i) (co_decrypt C ct)) (\<lambda>d.
     bindE (mapErr (\<lambda>_. RecoverSaltInvalid i) (parse_order_salt C (do_salt d))) (\<lambda>salt.
     bindE (recompute_persisted_commitment C (addr_bytes (do_trader d)) (side_u8 (do_side d)) (do_price d) (do_size d) salt)
       (\<lambda>recomputed.
     bindE (mapErr CommitmentEncoding (bytes32_to_scalar recomputed)) (\<lambda>cf.
     bindE (mapErr CommitmentEncoding (bytes32_to_scalar salt)) (\<lambda>sf.
     bindE (ok_or EnginePanic (compute_nullifier_native (co_sponge C) cf sf)) (\<lambda>nf.
     if recomputed \<noteq> commitment then Inl (RecoverCommitmentMismatch i)
     else
     bindE (mapErr (\<lambda>_. Validation OrderNonceInvalid) (parse_order_nonce C (do_nonce d))) (\<lambda>nonce.
     bindE (order_expiry_from_unix_nanos C (do_expires_at_unix_nanos d)) (\<lambda>expiry.
     bindE (mapErr Validation (pair_parse (do_pair d))) (\<lambda>key.
     let ord = new_order d key ct i (ev_timestamp ev) expiry (ev_seq ev);
         rp = \<lparr>rp_nullifier = fr_to_bytes32 nf, rp_order_nonce_digest = order_nonce_digest C (do_trader d) nonce\<rparr>
     in bindE (apply_then C ev (\<lambda>s. admit_order C ord ct rp (seed_pair key s)) (fst st)) (\<lambda>en.
        Inr (en, (snd st)\<lparr>ra_placed_orders := hm_insert i ord (ra_placed_orders (snd st))\<rparr>)))))))))))"

definition push_match :: "uuid \<Rightarrow> auction_match \<Rightarrow> replay_acc \<Rightarrow> replay_acc" where
  "push_match aid m acc =
     (let ms = (case hm_get (ra_matches_by_auction acc) aid of None \<Rightarrow> [] | Some ms \<Rightarrow> ms)
      in acc\<lparr>ra_matches_by_auction := hm_insert aid (ms @ [m]) (ra_matches_by_auction acc)\<rparr>)"

definition replay_batch_submitted ::
  "collab \<Rightarrow> event \<Rightarrow> uuid \<Rightarrow> uuid \<Rightarrow> bytes \<Rightarrow> 'st engine \<times> replay_acc \<Rightarrow> engine_error + 'st engine \<times> replay_acc" where
  "replay_batch_submitted C ev batch_id auction_id prf st =
     (let acc = snd st;
          ms = (case hm_get (ra_matches_by_auction acc) auction_id of None \<Rightarrow> [] | Some ms \<Rightarrow> ms);
          acc' = acc\<lparr>ra_matches_by_auction := hm_remove auction_id (ra_matches_by_auction acc)\<rparr>
      in bindE (apply_then C ev (\<lambda>s. s) (fst st)) (\<lambda>en.
         if hm_contains (es_pending_batches (en_state en)) batch_id then Inr (en, acc')
         else
           let sms = build_recovery_settlement_matches ms (ra_placed_orders acc') (es_pair_tokens (en_state en))
           in Inr (insert_batch (new_pending_batch batch_id auction_id ms sms prf (replicate 6 0)) en, acc')))"

definition replay_folded :: "nat \<Rightarrow> string \<Rightarrow> 'st engine \<Rightarrow> 'st engine" where
  "replay_folded round_index pair en =
     (let r = (case hm_get (en_ivc_round en) pair of None \<Rightarrow> 0 | Some r \<Rightarrow> r)
      in en\<lparr>en_ivc_round := hm_insert pair (max r round_index) (en_ivc_round en)\<rparr>)"

definition replayed_config ::
  "collab \<Rightarrow> string \<Rightarrow> string \<Rightarrow> decimal \<Rightarrow> decimal \<Rightarrow> nat option \<Rightarrow> nat \<Rightarrow> nat \<Rightarrow> pair_config" where
  "replayed_config C base quote mn tick ms bd qd =
     \<lparr>pc_base_token = parse_address_or_zero_logged C base, pc_quote_token = parse_address_or_zero_logged C quote,
      pc_base_decimals = bd, pc_quote_decimals = qd, pc_min_order_size = mn, pc_tick_size = tick,
      pc_auction_interval = map_option (\<lambda>k. k * 1000000) ms, pc_status = Active\<rparr>"

definition replay_event ::
  "collab \<Rightarrow> event \<Rightarrow> 'st engine \<times> replay_acc \<Rightarrow> engine_error + 'st engine \<times> replay_acc" where
  "replay_event C ev st =
     (let en = fst st; acc = snd st; keep = (\<lambda>f. bindE (apply_then C ev f en) (\<lambda>en'. Inr (en', acc))) in
      case ev_data ev of
        OrderPlaced i commitment prf ct \<Rightarrow> replay_order_placed C ev i commitment ct st
      | OrderCancelled _ _ \<Rightarrow> keep (\<lambda>s. s)
      | OrderExpired _ \<Rightarrow> keep (\<lambda>s. s)
      | AuctionExecuted aid pair cp vol cnt ts \<Rightarrow>
          bindE (apply_then C ev (\<lambda>s. s\<lparr>es_auction_log := es_auction_log s @
              [\<lparr>ae_auction_id = aid, ae_pair = pair, ae_clearing_price = cp, ae_matched_volume = vol,
                ae_match_count = cnt, ae_timestamp = ts\<rparr>]\<rparr>) en) (\<lambda>en'.
          Inr (en', acc\<lparr>ra_auction_timestamps := hm_insert aid ts (ra_auction_timestamps acc)\<rparr>))
      | OrderMatched aid bid ask p sz \<Rightarrow>
          bindE (apply_then C ev (\<lambda>s. s) en) (\<lambda>en'.
          Inr (en', push_match aid \<lparr>m_bid = bid, m_ask = ask, m_price = p, m_size = sz\<rparr> acc))
      | BatchSubmitted batch_id auction_id _ _ prf \<Rightarrow> replay_batch_submitted C ev batch_id auction_id prf st
      | BatchConfirmed i _ \<Rightarrow> keep (\<lambda>s. s\<lparr>es_pending_batches := hm_remove i (es_pending_batches s)\<rparr>)
      | BatchSettled i _ _ \<Rightarrow> keep (\<lambda>s. s\<lparr>es_pending_batches := hm_remove i (es_pending_batches s)\<rparr>)
      | PairRegistered pair base quote mn tick ms bd qd \<Rightarrow>
          keep (\<lambda>s. s\<lparr>es_pair_tokens := hm_insert (canonicalise_replayed_pair pair)
            (replayed_config C base quote mn tick ms bd qd) (es_pair_tokens s)\<rparr>)
      | PairSuspended pair \<Rightarrow> keep (set_pair_status (canonicalise_replayed_pair pair) Suspended)
      | PairDelisted pair \<Rightarrow> keep (set_pair_status (canonicalise_replayed_pair pair) Delisted)
      | BatchFolded _ round_index pair _ \<Rightarrow> Inr (replay_folded round_index pair en, acc))"

fun replay_events ::
  "collab \<Rightarrow> event list \<Rightarrow> 'st engine \<times> replay_acc \<Rightarrow> engine_error + 'st engine \<times> replay_acc" where
  "replay_events C [] st = Inr st"
| "replay_events C (e # es) st = bindE (replay_event C e st) (replay_events C es)"

section \<open>Snapshots\<close>

datatype snapshot_recovery_outcome = Restored nat | NoneAvailable | AllCorrupt | StoreErr event_error

definition apply_snapshot :: "serializable_state \<Rightarrow> 'st engine \<times> replay_acc \<Rightarrow> 'st engine \<times> replay_acc" where
  "apply_snapshot snap st =
     (let en = apply_snapshot_state snap (fst st)
      in (en, (snd st)\<lparr>ra_placed_orders :=
            fold (\<lambda>ord m. hm_insert (order_id ord) ord m) (iter_all (es_book (en_state en))) (ra_placed_orders (snd st))\<rparr>))"

text \<open>The walk over the stored envelopes, newest first.\<close>

fun restore_walk ::
  "state_codec \<Rightarrow> aead \<Rightarrow> 'sn snap_ops \<Rightarrow> 'sn \<Rightarrow> nat list \<Rightarrow> 'st engine \<times> replay_acc
   \<Rightarrow> ('st engine \<times> replay_acc) \<times> snapshot_recovery_outcome" where
  "restore_walk cd k sops sn [] st = (st, AllCorrupt)"
| "restore_walk cd k sops sn (sq # sqs) st =
     (case sn_read_at sops sq sn of
        Inl _ \<Rightarrow> restore_walk cd k sops sn sqs st
      | Inr None \<Rightarrow> restore_walk cd k sops sn sqs st
      | Inr (Some bs) \<Rightarrow>
          (case decode_envelope cd k bs of
             Inl _ \<Rightarrow> restore_walk cd k sops sn sqs st
           | Inr (decoded_seq, snap) \<Rightarrow> (apply_snapshot snap st, Restored decoded_seq)))"

definition try_restore_from_snapshots ::
  "state_codec \<Rightarrow> aead option \<Rightarrow> 'sn snap_ops \<Rightarrow> 'sn \<Rightarrow> 'st engine \<times> replay_acc
   \<Rightarrow> ('st engine \<times> replay_acc) \<times> snapshot_recovery_outcome" where
  "try_restore_from_snapshots cd K sops sn st =
     (case sn_list_seqs sops sn of
        Inl e \<Rightarrow> (st, StoreErr e)
      | Inr seqs \<Rightarrow>
          if seqs = [] then (st, NoneAvailable)
          else (case K of None \<Rightarrow> (st, AllCorrupt) | Some k \<Rightarrow> restore_walk cd k sops sn (rev seqs) st))"

definition event_log_covers_seq_one :: "'st store_ops \<Rightarrow> 'st \<Rightarrow> engine_error + bool" where
  "event_log_covers_seq_one ops s =
     bindE (mapErr EventErr (st_read_from ops 0 1 s)) (\<lambda>es. Inr (es \<noteq> [] \<and> ev_seq (hd es) = 1))"

definition event_log_continuous_after :: "'st store_ops \<Rightarrow> nat \<Rightarrow> 'st \<Rightarrow> engine_error + bool" where
  "event_log_continuous_after ops after_seq s =
     bindE (mapErr EventErr (st_read_from ops after_seq 1 s)) (\<lambda>es.
     Inr (case es of [] \<Rightarrow> True | e # _ \<Rightarrow> ev_seq e = after_seq + 1))"

definition reset_engine :: "'st engine \<Rightarrow> 'st engine" where
  "reset_engine en = en\<lparr>en_state := reset_projection (en_state en)\<rparr>"

text \<open>The snapshot part of \<^verbatim>\<open>recover\<close>: the position the replay starts after.\<close>

definition recover_start ::
  "state_codec \<Rightarrow> aead option \<Rightarrow> 'st store_ops \<Rightarrow> ('sn snap_ops \<times> 'sn) option \<Rightarrow> 'st engine \<times> replay_acc
   \<Rightarrow> engine_error + ('st engine \<times> replay_acc) \<times> nat" where
  "recover_start cd K ops snaps st =
     (case snaps of
        None \<Rightarrow> Inr (st, 0)
      | Some (sops, sn) \<Rightarrow>
          (case try_restore_from_snapshots cd K sops sn st of
             (st', Restored sq) \<Rightarrow>
               bindE (event_log_continuous_after ops sq (en_store (fst st'))) (\<lambda>ok.
               if \<not> ok then Inl SnapshotsCorruptAndLogTruncated else Inr (st', sq))
           | (st', NoneAvailable) \<Rightarrow> Inr (st', 0)
           | (st', AllCorrupt) \<Rightarrow>
               bindE (event_log_covers_seq_one ops (en_store (fst st'))) (\<lambda>ok.
               if \<not> ok then Inl SnapshotsCorruptAndLogTruncated else Inr ((reset_engine (fst st'), snd st'), 0))
           | (st', StoreErr _) \<Rightarrow>
               bindE (event_log_covers_seq_one ops (en_store (fst st'))) (\<lambda>ok.
               if \<not> ok then Inl SnapshotsCorruptAndLogTruncated else Inr ((reset_engine (fst st'), snd st'), 0))))"

section \<open>The replay loop\<close>

definition RECOVER_BATCH :: nat where
  "RECOVER_BATCH = 1024"

fun replay_loop ::
  "nat \<Rightarrow> collab \<Rightarrow> 'st store_ops \<Rightarrow> nat \<Rightarrow> 'st engine \<times> replay_acc \<Rightarrow> (engine_error + 'st engine \<times> replay_acc) option" where
  "replay_loop 0 C ops after_seq st = None"
| "replay_loop (Suc n) C ops after_seq st =
     (case st_read_from ops after_seq RECOVER_BATCH (en_store (fst st)) of
        Inl e \<Rightarrow> Some (Inl (EventErr e))
      | Inr es \<Rightarrow>
          if es = [] then Some (Inr st)
          else (case replay_events C es st of
              Inl e \<Rightarrow> Some (Inl e)
            | Inr st' \<Rightarrow> replay_loop n C ops (ev_seq (last es)) st'))"

section \<open>Orphans\<close>

text \<open>One orphan auction: aggregate, persist, and make it pending. A failed aggregation is skipped.\<close>

definition reaggregate ::
  "collab \<Rightarrow> 'st store_ops \<Rightarrow> clock \<Rightarrow> aggregator \<Rightarrow> time \<Rightarrow> (uuid \<Rightarrow> uuid) \<Rightarrow> replay_acc \<Rightarrow> uuid
   \<Rightarrow> 'st engine \<Rightarrow> 'st engine \<times> (engine_error + unit)" where
  "reaggregate C ops clk A now bid acc auction_id en =
     (let ms = (case hm_get (ra_matches_by_auction acc) auction_id of None \<Rightarrow> [] | Some ms \<Rightarrow> ms);
          batch_id = bid auction_id
      in case ag_aggregate A batch_id auction_id ms (batch_witness_empty batch_id auction_id) of
           Inl _ \<Rightarrow> (en, Inr ())
         | Inr prf \<Rightarrow>
             (let ts = (case hm_get (ra_auction_timestamps acc) auction_id of None \<Rightarrow> now | Some t \<Rightarrow> t) in
              case store_append ops clk [event_at ts (batch_submitted_event batch_id auction_id ms prf)] en of
                (en', Inl e) \<Rightarrow> (en', Inl e)
              | (en', Inr es) \<Rightarrow>
                  (case apply_events C es en' of
                     None \<Rightarrow> (en', Inl EnginePanic)
                   | Some en2 \<Rightarrow>
                       (let sms = build_recovery_settlement_matches ms (ra_placed_orders acc) (es_pair_tokens (en_state en2))
                        in (insert_batch (new_pending_batch batch_id auction_id ms sms prf (replicate 6 0)) en2, Inr ())))))"

fun reaggregate_all ::
  "collab \<Rightarrow> 'st store_ops \<Rightarrow> clock \<Rightarrow> aggregator \<Rightarrow> time \<Rightarrow> (uuid \<Rightarrow> uuid) \<Rightarrow> replay_acc \<Rightarrow> uuid list
   \<Rightarrow> 'st engine \<Rightarrow> 'st engine \<times> (engine_error + unit)" where
  "reaggregate_all C ops clk A now bid acc [] en = (en, Inr ())"
| "reaggregate_all C ops clk A now bid acc (a # as) en =
     (case reaggregate C ops clk A now bid acc a en of
        (en', Inl e) \<Rightarrow> (en', Inl e)
      | (en', Inr _) \<Rightarrow> reaggregate_all C ops clk A now bid acc as en')"

section \<open>Recovery\<close>

text \<open>
  An error leaves the state half rebuilt; the process does not go on with it, and the model returns
  only the error.
\<close>

definition recover ::
  "nat \<Rightarrow> collab \<Rightarrow> state_codec \<Rightarrow> aead option \<Rightarrow> 'st store_ops \<Rightarrow> ('sn snap_ops \<times> 'sn) option \<Rightarrow> clock \<Rightarrow> aggregator
   \<Rightarrow> time \<Rightarrow> (uuid \<Rightarrow> uuid) \<Rightarrow> 'st engine \<Rightarrow> (engine_error + 'st engine) option" where
  "recover fuel C cd K ops snaps clk A now bid en =
     (if es_recovered (en_state en) then Some (Inr en)
      else case recover_start cd K ops snaps (reset_engine en, replay_acc_empty) of
          Inl e \<Rightarrow> Some (Inl e)
        | Inr (st, after_seq) \<Rightarrow>
            (case replay_loop fuel C ops after_seq st of
               None \<Rightarrow> None
             | Some (Inl e) \<Rightarrow> Some (Inl e)
             | Some (Inr (en1, acc)) \<Rightarrow>
                 (case reaggregate_all C ops clk A now bid acc (sort (hm_keys (ra_matches_by_auction acc))) en1 of
                    (en2, Inl e) \<Rightarrow> Some (Inl e)
                  | (en2, Inr _) \<Rightarrow> Some (Inr (en2\<lparr>en_state := (en_state en2)\<lparr>es_recovered := True\<rparr>\<rparr>)))))"

end
