(* ===== verification/FileStore.thy ===== *)
theory FileStore
  imports Events
begin

text \<open>
  The file backend of the event log (\<^verbatim>\<open>dp-event/src/file_store.rs\<close>). A record on disk is a
  four-byte big-endian length and the bincode image of the event; \<^verbatim>\<open>bincode\<close> is a parameter \<open>codec\<close>.
  Every system call takes the next outcome of a schedule, so that each theorem covers every way
  the calls can fail; the empty schedule means that they all succeed. What the buffered writer has
  accepted but not flushed is \<open>fs_buf\<close>: a crash leaves on disk the file and some prefix of it. After
  a compaction whose re-open fails the open handle points to a file that has no name any more,
  \<open>fs_orphan\<close>.
\<close>

section \<open>The code\<close>

record codec =
  cd_ser :: "event \<Rightarrow> bytes option"
  cd_de :: "bytes \<Rightarrow> event option"

datatype io_result = IoOk | IoFail nat

record file_store =
  fs_path :: bytes
  fs_orphan :: "bytes option"
  fs_buf :: bytes
  fs_events :: "event list"
  fs_seq :: nat
  fs_io :: "io_result list"

type_synonym 'a file_op = "file_store \<Rightarrow> file_store \<times> (event_error + 'a)"

definition MAX_RECORD_BYTES :: nat where
  "MAX_RECORD_BYTES = 16 * 1024 * 1024"

definition to_be_bytes :: "nat \<Rightarrow> bytes" where
  "to_be_bytes n = [word_of_nat (n div 2 ^ 24), word_of_nat (n div 2 ^ 16), word_of_nat (n div 2 ^ 8), word_of_nat n]"

definition from_be_bytes :: "bytes \<Rightarrow> nat" where
  "from_be_bytes bs = foldl (\<lambda>a b. a * 256 + unat b) 0 bs"

text \<open>Sequencing with the early return of the question mark operator.\<close>

definition io_then :: "'a file_op \<Rightarrow> ('a \<Rightarrow> 'b file_op) \<Rightarrow> 'b file_op" where
  "io_then f g s = (case f s of (s', Inl e) \<Rightarrow> (s', Inl e) | (s', Inr x) \<Rightarrow> g x s')"

definition io_return :: "'a \<Rightarrow> 'a file_op" where
  "io_return x s = (s, Inr x)"

definition io_error :: "event_error \<Rightarrow> 'a file_op" where
  "io_error e s = (s, Inl e)"

definition io_next :: "file_store \<Rightarrow> io_result \<times> file_store" where
  "io_next s = (case fs_io s of [] \<Rightarrow> (IoOk, s) | r # rs \<Rightarrow> (r, s\<lparr>fs_io := rs\<rparr>))"

definition io_call :: "unit file_op" where
  "io_call s = (case io_next s of (IoOk, s') \<Rightarrow> (s', Inr ()) | (IoFail n, s') \<Rightarrow> (s', Inl IoError))"

text \<open>The file behind the open handle.\<close>

definition fs_file :: "file_store \<Rightarrow> bytes" where
  "fs_file s = (case fs_orphan s of None \<Rightarrow> fs_path s | Some c \<Rightarrow> c)"

definition fs_put :: "bytes \<Rightarrow> file_store \<Rightarrow> file_store" where
  "fs_put c s = (case fs_orphan s of None \<Rightarrow> s\<lparr>fs_path := c\<rparr> | Some _ \<Rightarrow> s\<lparr>fs_orphan := Some c\<rparr>)"

definition write_all :: "bytes \<Rightarrow> unit file_op" where
  "write_all bs s =
     (case io_next s of
        (IoOk, s') \<Rightarrow> (s'\<lparr>fs_buf := fs_buf s' @ bs\<rparr>, Inr ())
      | (IoFail n, s') \<Rightarrow> (s'\<lparr>fs_buf := fs_buf s' @ take n bs\<rparr>, Inl IoError))"

definition flush :: "unit file_op" where
  "flush s =
     (case io_next s of
        (IoOk, s') \<Rightarrow> (fs_put (fs_file s' @ fs_buf s') (s'\<lparr>fs_buf := []\<rparr>), Inr ())
      | (IoFail n, s') \<Rightarrow>
          (fs_put (fs_file s' @ take n (fs_buf s')) (s'\<lparr>fs_buf := drop n (fs_buf s')\<rparr>), Inl IoError))"

text \<open>
  The loop of \<^verbatim>\<open>load_and_truncate\<close> over the bytes the reader has left: the events read, the largest
  sequence number, and the offset after the last whole record.
\<close>

definition io_pop :: "io_result list \<Rightarrow> io_result \<times> io_result list" where
  "io_pop io = (case io of [] \<Rightarrow> (IoOk, []) | r # rs \<Rightarrow> (r, rs))"

function load_loop ::
  "codec \<Rightarrow> io_result list \<Rightarrow> bytes \<Rightarrow> event list \<Rightarrow> nat \<Rightarrow> nat
   \<Rightarrow> io_result list \<times> (event_error + event list \<times> nat \<times> nat)" where
  "load_loop cd io bs events sq good_end =
     (case io_pop io of
        (IoFail _, io') \<Rightarrow> (io', Inl IoError)
      | (IoOk, io') \<Rightarrow>
          if length bs < 4 then (io', Inr (events, sq, good_end))
          else
            let len = from_be_bytes (take 4 bs) in
            if len = 0 \<or> MAX_RECORD_BYTES < len then (io', Inr (events, sq, good_end))
            else (case io_pop io' of
                    (IoFail _, io'') \<Rightarrow> (io'', Inl IoError)
                  | (IoOk, io'') \<Rightarrow>
                      if length (drop 4 bs) < len then (io'', Inr (events, sq, good_end))
                      else (case cd_de cd (take len (drop 4 bs)) of
                              None \<Rightarrow> (io'', Inl (CorruptEvent good_end))
                            | Some evt \<Rightarrow>
                                load_loop cd io'' (drop len (drop 4 bs)) (events @ [evt])
                                  (if sq < ev_seq evt then ev_seq evt else sq) (good_end + (4 + len)))))"
  by pat_completeness auto
termination
  by (relation "measure (\<lambda>(_, _, bs, _). length bs)") auto

declare load_loop.simps [simp del]

definition load_and_truncate ::
  "codec \<Rightarrow> io_result list \<Rightarrow> bytes \<Rightarrow> io_result list \<times> (event_error + event list \<times> nat \<times> nat)" where
  "load_and_truncate cd io file =
     (case io_pop io of
        (IoFail _, io') \<Rightarrow> (io', Inl IoError)
      | (IoOk, io') \<Rightarrow> load_loop cd io' file [] 0 0)"

text \<open>
  \<^verbatim>\<open>FileStore::open\<close> on a file with the given bytes. The calls after the load are \<^verbatim>\<open>set_len\<close>, \<^verbatim>\<open>seek\<close> and
  \<^verbatim>\<open>try_clone\<close>; the first component is the file that is left behind, also when opening fails.
\<close>

definition fs_open :: "codec \<Rightarrow> io_result list \<Rightarrow> bytes \<Rightarrow> bytes \<times> (event_error + file_store)" where
  "fs_open cd io file =
     (case io_pop io of
        (IoFail _, _) \<Rightarrow> (file, Inl IoError)
      | (IoOk, io1) \<Rightarrow>
          (case load_and_truncate cd io1 file of
             (_, Inl e) \<Rightarrow> (file, Inl e)
           | (io2, Inr (events, sq, good_end)) \<Rightarrow>
               (case io_pop io2 of
                  (IoFail _, _) \<Rightarrow> (file, Inl IoError)
                | (IoOk, io3) \<Rightarrow>
                    let file' = take good_end file;
                        s = \<lparr>fs_path = file', fs_orphan = None, fs_buf = [], fs_events = events, fs_seq = sq, fs_io = io3\<rparr>
                    in (file', (case io_then io_call (\<lambda>_. io_call) s of
                                  (s', Inl e) \<Rightarrow> Inl e
                                | (s', Inr _) \<Rightarrow> Inr s')))))"

definition fs_close :: "unit file_op" where
  "fs_close = io_then flush (\<lambda>_. io_call)"

fun write_records :: "codec \<Rightarrow> event list \<Rightarrow> unit file_op" where
  "write_records cd [] = io_return ()"
| "write_records cd (e # es) =
     (case cd_ser cd e of
        None \<Rightarrow> io_error BincodeError
      | Some payload \<Rightarrow>
          io_then (write_all (to_be_bytes (length payload mod 2 ^ 32))) (\<lambda>_.
          io_then (write_all payload) (\<lambda>_. write_records cd es)))"

definition fs_append :: "codec \<Rightarrow> clock \<Rightarrow> event list \<Rightarrow> event list file_op" where
  "fs_append cd clk es s =
     (case assign_all clk es (fs_seq s) of (es', sq') \<Rightarrow>
        io_then (write_records cd es') (\<lambda>_.
        io_then flush (\<lambda>_.
        io_then io_call (\<lambda>_ s'.
          (s'\<lparr>fs_events := fs_events s' @ es'\<rparr>, Inr es')))) (s\<lparr>fs_seq := sq'\<rparr>))"

definition fs_read_from :: "nat \<Rightarrow> nat \<Rightarrow> file_store \<Rightarrow> event_error + event list" where
  "fs_read_from after_seq limit s = read_slice (fs_events s) after_seq limit"

definition fs_size_bytes :: "nat file_op" where
  "fs_size_bytes = io_then io_call (\<lambda>_ s. (s, Inr (length (fs_file s))))"

fun tmp_records :: "codec \<Rightarrow> event list \<Rightarrow> bytes \<Rightarrow> bytes file_op" where
  "tmp_records cd [] acc = io_return acc"
| "tmp_records cd (e # es) acc =
     (case cd_ser cd e of
        None \<Rightarrow> io_error BincodeError
      | Some payload \<Rightarrow>
          io_then io_call (\<lambda>_. io_then io_call (\<lambda>_.
            tmp_records cd es (acc @ to_be_bytes (length payload mod 2 ^ 32) @ payload))))"

text \<open>The publication by rename: the file at the path is the new one, the open handle keeps the old one.\<close>

definition rename_tmp :: "bytes \<Rightarrow> unit file_op" where
  "rename_tmp tmp = io_then io_call (\<lambda>_ s. (s\<lparr>fs_path := tmp, fs_orphan := Some (fs_file s)\<rparr>, Inr ()))"

definition reopen :: "unit file_op" where
  "reopen =
     io_then io_call (\<lambda>_. io_then io_call (\<lambda>_. io_then io_call (\<lambda>_. io_then io_call (\<lambda>_ s.
       (s\<lparr>fs_orphan := None, fs_buf := []\<rparr>, Inr ())))))"

definition fs_compact_before :: "codec \<Rightarrow> nat \<Rightarrow> unit file_op" where
  "fs_compact_before cd before_seq s =
     (if before_seq = 0 then (s, Inr ())
      else
        io_then flush (\<lambda>_. io_then io_call (\<lambda>_. io_then io_call (\<lambda>_ s.
        io_then (tmp_records cd (filter (\<lambda>e. before_seq \<le> ev_seq e) (fs_events s)) []) (\<lambda>tmp.
        io_then io_call (\<lambda>_. io_then io_call (\<lambda>_.
        io_then (rename_tmp tmp) (\<lambda>_. io_then reopen (\<lambda>_ s.
          (s\<lparr>fs_events := filter (\<lambda>e. before_seq \<le> ev_seq e) (fs_events s)\<rparr>, Inr ())))))) s))) s)"

definition file_ops :: "codec \<Rightarrow> file_store store_ops" where
  "file_ops cd = \<lparr>st_append = fs_append cd, st_read_from = fs_read_from, st_last_seq = fs_seq,
                  st_compact_before = fs_compact_before cd\<rparr>"

section \<open>The file backend is an event store\<close>

lemma io_then_cases:
  "io_then f g s = (s', Inr y) \<longleftrightarrow> (\<exists>s1 x. f s = (s1, Inr x) \<and> g x s1 = (s', Inr y))"
  "io_then f g s = (s', Inl e) \<longleftrightarrow> f s = (s', Inl e) \<or> (\<exists>s1 x. f s = (s1, Inr x) \<and> g x s1 = (s', Inl e))"
  by (auto simp: io_then_def split: prod.splits sum.splits)

lemma io_then_assoc: "io_then (io_then f g) h = io_then f (\<lambda>x. io_then (g x) h)"
  by (rule ext) (simp add: io_then_def split: prod.split sum.split)

text \<open>The calls below the cache leave the cached events and the sequence number alone.\<close>

definition same_cache :: "file_store \<Rightarrow> file_store \<Rightarrow> bool" where
  "same_cache s s' \<longleftrightarrow> fs_events s' = fs_events s \<and> fs_seq s' = fs_seq s"

definition keeps_cache :: "'a file_op \<Rightarrow> bool" where
  "keeps_cache f \<longleftrightarrow> (\<forall>s. same_cache s (fst (f s)))"

named_theorems cache_intros \<open>calls that keep the cached events and the sequence number\<close>

lemma keeps_cache_then [cache_intros]: "keeps_cache f \<Longrightarrow> (\<And>x. keeps_cache (g x)) \<Longrightarrow> keeps_cache (io_then f g)"
proof (unfold keeps_cache_def, rule allI)
  fix s
  assume k: "\<forall>s. same_cache s (fst (f s))" "\<And>x. \<forall>s. same_cache s (fst (g x s))"
  obtain s1 r where f: "f s = (s1, r)" by (cases "f s")
  have "same_cache s s1" using k(1) f by (metis fst_conv)
  then show "same_cache s (fst (io_then f g s))"
    using k(2) by (cases r) (auto simp: io_then_def f same_cache_def)
qed

lemma keeps_cache_basic [cache_intros]:
  "keeps_cache (io_return x)" "keeps_cache (io_error e)" "keeps_cache io_call" "keeps_cache (write_all bs)"
  "keeps_cache flush" "keeps_cache (\<lambda>s. (s\<lparr>fs_path := p s, fs_orphan := r s\<rparr>, Inr ()))"
  "keeps_cache (\<lambda>s. (s\<lparr>fs_orphan := None, fs_buf := []\<rparr>, Inr ()))"
  by (auto simp: keeps_cache_def same_cache_def io_return_def io_error_def io_call_def io_next_def write_all_def flush_def
      fs_put_def split: list.splits io_result.splits option.splits prod.splits)

lemma keeps_cache_records [cache_intros]: "keeps_cache (write_records cd es)" "keeps_cache (tmp_records cd es acc)"
proof -
  show "keeps_cache (write_records cd es)"
    by (induction es) (auto intro!: cache_intros split: option.splits)
  show "keeps_cache (tmp_records cd es acc)"
    by (induction es arbitrary: acc) (auto intro!: cache_intros split: option.splits)
qed

lemma keeps_cache_publish [cache_intros]: "keeps_cache (rename_tmp tmp)" "keeps_cache reopen"
  unfolding rename_tmp_def reopen_def by (intro cache_intros)+

definition file_inv :: "file_store \<Rightarrow> bool" where
  "file_inv s \<longleftrightarrow> log_ok (fs_events s) (fs_seq s)"

lemma keeps_cacheD: "keeps_cache f \<Longrightarrow> f s = (s', r) \<Longrightarrow> fs_events s' = fs_events s \<and> fs_seq s' = fs_seq s"
  by (metis fst_conv keeps_cache_def same_cache_def)

lemma fs_append_cases:
  assumes "fs_append cd clk es s = (s', r)" and "assign_all clk es (fs_seq s) = (es', sq')"
  shows "fs_seq s' = sq'" and "r = Inr es' \<and> fs_events s' = fs_events s @ es' \<or> (\<exists>e. r = Inl e) \<and> fs_events s' = fs_events s"
proof -
  let ?s = "s\<lparr>fs_seq := sq'\<rparr>"
  let ?w = "io_then (write_records cd es') (\<lambda>_. io_then flush (\<lambda>_. io_call))"
  have w: "keeps_cache ?w" by (intro cache_intros)
  have eq: "fs_append cd clk es s =
      io_then ?w (\<lambda>_ s'. (s'\<lparr>fs_events := fs_events s' @ es'\<rparr>, Inr es')) ?s"
    using assms(2) by (simp add: fs_append_def io_then_assoc)
  obtain s1 r1 where s1: "?w ?s = (s1, r1)" by (cases "?w ?s")
  then have k: "fs_events s1 = fs_events s" "fs_seq s1 = sq'" using keeps_cacheD [OF w s1] by simp_all
  show "fs_seq s' = sq'"
    and "r = Inr es' \<and> fs_events s' = fs_events s @ es' \<or> (\<exists>e. r = Inl e) \<and> fs_events s' = fs_events s"
    using assms(1) k unfolding eq io_then_def [of ?w] s1 by (auto split: sum.splits)
qed

lemma fs_compact_cases:
  assumes "fs_compact_before cd b s = (s', r)" and "file_inv s"
  shows "fs_seq s' = fs_seq s"
    and "(\<exists>u. r = Inr u) \<and> fs_events s' = filter (\<lambda>e. b \<le> ev_seq e) (fs_events s) \<or>
         (\<exists>e. r = Inl e) \<and> fs_events s' = fs_events s"
proof -
  let ?tail = "\<lambda>s. io_then (tmp_records cd (filter (\<lambda>e. b \<le> ev_seq e) (fs_events s)) []) (\<lambda>tmp.
        io_then io_call (\<lambda>_. io_then io_call (\<lambda>_. io_then (rename_tmp tmp) (\<lambda>_. reopen)))) s"
  let ?w = "io_then flush (\<lambda>_. io_then io_call (\<lambda>_. io_then io_call (\<lambda>_. ?tail)))"
  have "keeps_cache ?tail"
  proof -
    have "keeps_cache (io_then (tmp_records cd xs []) (\<lambda>tmp.
        io_then io_call (\<lambda>_. io_then io_call (\<lambda>_. io_then (rename_tmp tmp) (\<lambda>_. reopen)))))" for xs
      by (intro cache_intros)
    then show ?thesis by (simp add: keeps_cache_def)
  qed
  then have w: "keeps_cache ?w" by (intro cache_intros)
  have eq: "fs_compact_before cd b s = (if b = 0 then (s, Inr ()) else
      io_then ?w (\<lambda>_ s'. (s'\<lparr>fs_events := filter (\<lambda>e. b \<le> ev_seq e) (fs_events s')\<rparr>, Inr ())) s)"
    by (auto simp: fs_compact_before_def io_then_def split: prod.splits sum.splits)
  obtain s1 r1 where s1: "?w s = (s1, r1)" by (cases "?w s")
  have k: "fs_events s1 = fs_events s" "fs_seq s1 = fs_seq s" using keeps_cacheD [OF w s1] by simp_all
  show "fs_seq s' = fs_seq s"
    and "(\<exists>u. r = Inr u) \<and> fs_events s' = filter (\<lambda>e. b \<le> ev_seq e) (fs_events s) \<or>
         (\<exists>e. r = Inl e) \<and> fs_events s' = fs_events s"
    using assms k unfolding eq io_then_def [of ?w] s1 by (auto split: sum.splits if_splits)
qed

interpretation fstore: event_store "file_ops cd" fs_events file_inv for cd
proof
  fix s s' :: file_store and es es' clk a limit b err u
  show "file_inv s \<Longrightarrow> log_ok (fs_events s) (st_last_seq (file_ops cd) s)"
    by (simp add: file_inv_def file_ops_def)
  show "file_inv s \<Longrightarrow> st_read_from (file_ops cd) a limit s =
      (if limit = 0 then Inl LimitMustBePositive else Inr (take limit (filter (\<lambda>e. a < ev_seq e) (fs_events s))))"
    by (simp add: file_inv_def file_ops_def fs_read_from_def read_slice_ok)
  obtain new sq' where new: "assign_all clk es (fs_seq s) = (new, sq')" by (cases "assign_all clk es (fs_seq s)")
  show "assign_all clk es (st_last_seq (file_ops cd) s) = (es', st_last_seq (file_ops cd) s') \<and>
      fs_events s' = fs_events s @ es' \<and> file_inv s'"
    if "file_inv s" "st_last_seq (file_ops cd) s + length es < 2 ^ 64" "st_append (file_ops cd) clk es s = (s', Inr es')"
    using that fs_append_cases [of cd clk es s s' "Inr es'" new sq'] new
      log_ok_append [of "fs_events s" "fs_seq s" clk es new sq']
    by (simp add: file_ops_def file_inv_def)
  show "fs_events s' = fs_events s \<and> st_last_seq (file_ops cd) s \<le> st_last_seq (file_ops cd) s' \<and>
      st_last_seq (file_ops cd) s' \<le> st_last_seq (file_ops cd) s + length es \<and> file_inv s'"
    if "file_inv s" "st_last_seq (file_ops cd) s + length es < 2 ^ 64" "st_append (file_ops cd) clk es s = (s', Inl err)"
  proof -
    have "sq' = fs_seq s + length es" using assign_all_props(1) [OF new] that(2) by (simp add: file_ops_def)
    then show ?thesis
      using that fs_append_cases [of cd clk es s s' "Inl err" new sq'] new
      by (fastforce simp: file_ops_def file_inv_def log_ok_def)
  qed
  show "fs_events s' = filter (\<lambda>e. b \<le> ev_seq e) (fs_events s) \<and>
      st_last_seq (file_ops cd) s' = st_last_seq (file_ops cd) s \<and> file_inv s'"
    if "file_inv s" "st_compact_before (file_ops cd) b s = (s', Inr u)"
    using that fs_compact_cases [of cd b s s' "Inr u"] by (simp add: file_ops_def file_inv_def log_ok_filter)
  show "fs_events s' = fs_events s \<and> st_last_seq (file_ops cd) s' = st_last_seq (file_ops cd) s \<and> file_inv s'"
    if "file_inv s" "st_compact_before (file_ops cd) b s = (s', Inl err)"
    using that fs_compact_cases [of cd b s s' "Inl err"] by (simp add: file_ops_def file_inv_def)
qed

end
