(* ===== verification/Projection.thy ===== *)
theory Projection
  imports Recover FileStore
begin

text \<open>
  The abstract state the event log stands for. The engine is event-sourced: what it keeps in memory
  is meant to be a projection of its log. \<open>view\<close> is that projection as mathematical objects (the
  resting orders as a map, the registry as a map, the auction history, the three spent sets), and
  \<open>project\<close> is what one event does to it.

  The lemmas show that replaying an event refines \<open>project\<close>; the live operations refine it too, in
  the theory \<open>EngineInv\<close>.
\<close>

section \<open>Events on the table of orders\<close>

definition order_effect :: "dec_ops \<Rightarrow> event_data \<Rightarrow> (uuid \<Rightarrow> order option) \<Rightarrow> (uuid \<Rightarrow> order option) option" where
  "order_effect D d l =
     (case d of
        OrderCancelled i _ \<Rightarrow> Some (l(i := None))
      | OrderExpired i \<Rightarrow> Some (l(i := None))
      | OrderMatched _ bid ask _ _ \<Rightarrow> do { l' \<leftarrow> fill_lookup D bid l; fill_lookup D ask l' }
      | _ \<Rightarrow> Some l)"

lemma find_order_seq [simp]: "find_order (b\<lparr>book_seq := n\<rparr>) = find_order b"
  by (rule ext) (simp add: find_order_def)

lemma book_apply_effect:
  assumes "book_ok b" and "book_seq b < ev_seq e"
  shows "map_option find_order (book_apply D e b) = order_effect D (ev_data e) (find_order b)"
proof -
  let ?b = "b\<lparr>book_seq := ev_seq e\<rparr>"
  have ok: "book_ok ?b" using assms(1) by simp
  have a: "book_apply D e b = (case ev_data e of
          OrderCancelled i _ \<Rightarrow> Some (remove_order i ?b)
        | OrderExpired i \<Rightarrow> Some (remove_order i ?b)
        | OrderMatched _ bid ask _ _ \<Rightarrow> do { b' \<leftarrow> apply_fill D bid ?b; apply_fill D ask b' }
        | _ \<Rightarrow> Some ?b)"
    using assms(2) by (simp add: book_apply_def Let_def)
  have m: "map_option find_order (do { b' \<leftarrow> apply_fill D x ?b; apply_fill D y b' }) =
      do { l' \<leftarrow> fill_lookup D x (find_order b); fill_lookup D y l' }" for x y
  proof (cases "apply_fill D x ?b")
    case None
    with bk.fil_law [OF ok, of D x] show ?thesis by simp
  next
    case (Some b')
    then have "fill_lookup D x (find_order b) = Some (find_order b')" using bk.fil_law [OF ok, of D x] by simp
    with Some bk.fil_law [OF bk.fil_ok [OF ok Some], of D y] show ?thesis by simp
  qed
  show ?thesis
    using bk.rem_law [OF ok] m by (cases "ev_data e") (simp_all add: a order_effect_def)
qed

section \<open>The view\<close>

record view =
  v_orders :: "uuid \<Rightarrow> order option"
  v_pairs :: "string \<Rightarrow> pair_config option"
  v_auctions :: "auction_executed_record list"
  v_seen :: "bytes set"
  v_nullifiers :: "bytes set"
  v_nonces :: "bytes set"

definition view_empty :: view where
  "view_empty = \<lparr>v_orders = (\<lambda>_. None), v_pairs = (\<lambda>_. None), v_auctions = [], v_seen = {}, v_nullifiers = {}, v_nonces = {}\<rparr>"

text \<open>The log keeps an auction interval in whole milliseconds, as a \<^verbatim>\<open>u64\<close>.\<close>

definition logged :: "pair_config \<Rightarrow> pair_config" where
  "logged cfg = cfg\<lparr>pc_auction_interval := map_option (\<lambda>d. as_millis_u64 d * 1000000) (pc_auction_interval cfg)\<rparr>"

definition view :: "engine_state \<Rightarrow> view" where
  "view s = \<lparr>v_orders = find_order (es_book s), v_pairs = (\<lambda>p. map_option logged (hm_get (es_pair_tokens s) p)),
     v_auctions = es_auction_log s, v_seen = set (es_seen_ciphertexts s),
     v_nullifiers = set (es_spent_nullifiers s), v_nonces = set (es_spent_order_nonces s)\<rparr>"

lemma logged_simps [simp]:
  "pc_status (logged cfg) = pc_status cfg" "logged (cfg\<lparr>pc_status := st\<rparr>) = (logged cfg)\<lparr>pc_status := st\<rparr>"
  "logged pair_config_default = pair_config_default"
  by (simp_all add: logged_def pair_config_default_def pair_config_new_def)

text \<open>What a persisted placement means: the order, its replay keys and its commitment.\<close>

definition placed_as ::
  "collab \<Rightarrow> bytes \<Rightarrow> uuid \<Rightarrow> time \<Rightarrow> nat \<Rightarrow> (order \<times> replay_protection \<times> bytes) option" where
  "placed_as C ct i ts sq =
     (case co_decrypt C ct of Inl _ \<Rightarrow> None | Inr d \<Rightarrow>
      (case parse_order_salt C (do_salt d) of Inl _ \<Rightarrow> None | Inr salt \<Rightarrow>
      (case derive_order_secrets C (addr_bytes (do_trader d)) (side_u8 (do_side d)) (do_price d) (do_size d) 0 0 salt of
         Inl _ \<Rightarrow> None | Inr sec \<Rightarrow>
      (case parse_order_nonce C (do_nonce d) of Inl _ \<Rightarrow> None | Inr nonce \<Rightarrow>
      (case order_expiry_from_unix_nanos C (do_expires_at_unix_nanos d) of Inl _ \<Rightarrow> None | Inr expiry \<Rightarrow>
      (case pair_parse (do_pair d) of Inl _ \<Rightarrow> None | Inr key \<Rightarrow>
       Some (new_order d key ct i ts expiry sq,
             \<lparr>rp_nullifier = os_nullifier sec, rp_order_nonce_digest = order_nonce_digest C (do_trader d) nonce\<rparr>,
             os_commitment sec)))))))"

definition project :: "collab \<Rightarrow> event \<Rightarrow> view \<Rightarrow> view option" where
  "project C ev v =
     (case ev_data ev of
        OrderPlaced i commitment _ ct \<Rightarrow>
          (case placed_as C ct i (ev_timestamp ev) (ev_seq ev) of
             None \<Rightarrow> None
           | Some (ord, rp, c) \<Rightarrow>
               if c = commitment \<and> v_orders v i = None \<and> 0 < remaining_size ord then
                 Some (v\<lparr>v_orders := (v_orders v)(i \<mapsto> ord),
                         v_pairs := (if v_pairs v (order_pair ord) = None
                                     then (v_pairs v)(order_pair ord \<mapsto> pair_config_default) else v_pairs v),
                         v_seen := insert (ciphertext_digest C ct) (v_seen v),
                         v_nullifiers := insert (rp_nullifier rp) (v_nullifiers v),
                         v_nonces := insert (rp_order_nonce_digest rp) (v_nonces v)\<rparr>)
               else None)
      | AuctionExecuted aid pair cp vol cnt ts \<Rightarrow>
          Some (v\<lparr>v_auctions := v_auctions v @ [\<lparr>ae_auction_id = aid, ae_pair = pair, ae_clearing_price = cp,
                     ae_matched_volume = vol, ae_match_count = cnt, ae_timestamp = ts\<rparr>]\<rparr>)
      | PairRegistered pair base quote mn tick ms bd qd \<Rightarrow>
          Some (v\<lparr>v_pairs := (v_pairs v)(canonicalise_replayed_pair pair \<mapsto>
                     logged (replayed_config C base quote mn tick ms bd qd))\<rparr>)
      | PairSuspended pair \<Rightarrow>
          (let key = canonicalise_replayed_pair pair in
           Some (v\<lparr>v_pairs := (v_pairs v)(key := map_option (pc_status_update (\<lambda>_. Suspended)) (v_pairs v key))\<rparr>))
      | PairDelisted pair \<Rightarrow>
          (let key = canonicalise_replayed_pair pair in
           Some (v\<lparr>v_pairs := (v_pairs v)(key := map_option (pc_status_update (\<lambda>_. Delisted)) (v_pairs v key))\<rparr>))
      | d \<Rightarrow> (case order_effect (co_dec C) d (v_orders v) of None \<Rightarrow> None | Some l \<Rightarrow> Some (v\<lparr>v_orders := l\<rparr>)))"

fun project_all :: "collab \<Rightarrow> event list \<Rightarrow> view \<Rightarrow> view option" where
  "project_all C [] v = Some v"
| "project_all C (e # es) v = do { v' \<leftarrow> project C e v; project_all C es v' }"

lemma project_all_append: "project_all C (xs @ ys) v = do { v' \<leftarrow> project_all C xs v; project_all C ys v' }"
proof (induction xs arbitrary: v)
  case (Cons x xs)
  then show ?case by (cases "project C x v") simp_all
qed simp

section \<open>Replay refines the projection\<close>

lemma fold_max_mono: "a \<le> b \<Longrightarrow> fold max xs a \<le> fold max xs (b :: nat)"
  by (induction xs arbitrary: a b) (simp_all add: max.coboundedI1 max.mono)

lemma view_book: "view (s\<lparr>es_book := b\<rparr>) = (view s)\<lparr>v_orders := find_order b\<rparr>"
  by (simp add: view_def)

lemma view_pairs:
  "view (s\<lparr>es_pair_tokens := hm_insert p cfg (es_pair_tokens s)\<rparr>) = (view s)\<lparr>v_pairs := (v_pairs (view s))(p \<mapsto> logged cfg)\<rparr>"
  by (auto simp: view_def hm_get_insert)

lemma view_set_pair_status:
  "view (set_pair_status key st s) =
     (view s)\<lparr>v_pairs := (v_pairs (view s))(key := map_option (pc_status_update (\<lambda>_. st)) (v_pairs (view s) key))\<rparr>"
  by (cases "hm_get (es_pair_tokens s) key")
    (auto simp: set_pair_status_def view_def hm_get_insert fun_eq_iff option.map_comp comp_def)

lemma view_batches [simp]: "view (s\<lparr>es_pending_batches := x\<rparr>) = view s"
  by (simp add: view_def)

lemma view_seed_pair:
  "view (seed_pair key s) =
     (view s)\<lparr>v_pairs := (if v_pairs (view s) key = None then (v_pairs (view s))(key \<mapsto> pair_config_default)
                          else v_pairs (view s))\<rparr>"
  by (auto simp: seed_pair_def view_def hm_get_insert fun_eq_iff)

lemma es_book_simps [simp]:
  "es_book (set_pair_status key st s) = es_book s" "es_book (seed_pair key s) = es_book s"
  by (simp_all add: set_pair_status_def seed_pair_def split: option.split)

lemma derive_recompute:
  assumes "\<forall>xs. co_sponge C xs < FR_MODULUS" and "derive_order_secrets C addr sd p sz bal pos salt = Inr sec"
  obtains cf sf nf where "recompute_persisted_commitment C addr sd p sz salt = Inr (os_commitment sec)"
    and "bytes32_to_scalar (os_commitment sec) = Inr cf" and "bytes32_to_scalar salt = Inr sf"
    and "compute_nullifier_native (co_sponge C) cf sf = Some nf" and "os_nullifier sec = fr_to_bytes32 nf"
proof -
  from assms(2) obtain tid cf sf nf where d: "derive_trader_id_bytes (co_sponge C) addr = Inr tid"
    "compute_poseidon_commitment_fr C tid sd p sz salt = Inr cf" "bytes32_to_scalar salt = Inr sf"
    "compute_nullifier_native (co_sponge C) cf sf = Some nf"
    "os_commitment sec = fr_to_bytes32 cf" "os_nullifier sec = fr_to_bytes32 nf"
    by (auto simp: derive_order_secrets_def split: sum.splits option.splits)
  have "cf < FR_MODULUS"
    using d(2) assms(1) by (auto simp: compute_poseidon_commitment_fr_def commit_native_def split: sum.splits)
  then have "bytes32_to_scalar (os_commitment sec) = Inr cf" by (simp add: bytes32_to_scalar_Inr d(5))
  with d show ?thesis
    by (intro that [of cf sf nf])
      (simp_all add: recompute_persisted_commitment_def compute_poseidon_commitment_def)
qed

lemma placed_as_Some:
  assumes "placed_as C ct i ts sq = Some (ord, rp, c)"
  obtains d salt sec nonce expiry key where "co_decrypt C ct = Inr d" and "parse_order_salt C (do_salt d) = Inr salt"
    and "derive_order_secrets C (addr_bytes (do_trader d)) (side_u8 (do_side d)) (do_price d) (do_size d) 0 0 salt = Inr sec"
    and "parse_order_nonce C (do_nonce d) = Inr nonce"
    and "order_expiry_from_unix_nanos C (do_expires_at_unix_nanos d) = Inr expiry"
    and "pair_parse (do_pair d) = Inr key" and "ord = new_order d key ct i ts expiry sq"
    and "rp = \<lparr>rp_nullifier = os_nullifier sec, rp_order_nonce_digest = order_nonce_digest C (do_trader d) nonce\<rparr>"
    and "c = os_commitment sec"
  using assms by (auto simp: placed_as_def split: sum.splits)

lemma replay_placed:
  assumes "\<forall>xs. co_sponge C xs < FR_MODULUS" and "placed_as C ct i (ev_timestamp ev) (ev_seq ev) = Some (ord, rp, c)"
  shows "replay_order_placed C ev i c ct st =
    bindE (apply_then C ev (\<lambda>s. admit_order C ord ct rp (seed_pair (order_pair ord) s)) (fst st)) (\<lambda>en.
      Inr (en, (snd st)\<lparr>ra_placed_orders := hm_insert i ord (ra_placed_orders (snd st))\<rparr>))"
proof -
  from placed_as_Some [OF assms(2)] obtain d salt sec nonce expiry key where p:
    "co_decrypt C ct = Inr d" "parse_order_salt C (do_salt d) = Inr salt"
    "derive_order_secrets C (addr_bytes (do_trader d)) (side_u8 (do_side d)) (do_price d) (do_size d) 0 0 salt = Inr sec"
    "parse_order_nonce C (do_nonce d) = Inr nonce"
    "order_expiry_from_unix_nanos C (do_expires_at_unix_nanos d) = Inr expiry"
    "pair_parse (do_pair d) = Inr key" "ord = new_order d key ct i (ev_timestamp ev) expiry (ev_seq ev)"
    "rp = \<lparr>rp_nullifier = os_nullifier sec, rp_order_nonce_digest = order_nonce_digest C (do_trader d) nonce\<rparr>"
    "c = os_commitment sec" by metis
  from derive_recompute [OF assms(1) p(3)] obtain cf sf nf where q:
    "recompute_persisted_commitment C (addr_bytes (do_trader d)) (side_u8 (do_side d)) (do_price d) (do_size d) salt =
      Inr (os_commitment sec)"
    "bytes32_to_scalar (os_commitment sec) = Inr cf" "bytes32_to_scalar salt = Inr sf"
    "compute_nullifier_native (co_sponge C) cf sf = Some nf" "os_nullifier sec = fr_to_bytes32 nf" by metis
  show ?thesis unfolding replay_order_placed_def by (simp add: p q Let_def new_order_def)
qed

lemma apply_then_law:
  assumes "book_ok (es_book (en_state en))" and "book_seq (es_book (en_state en)) < ev_seq ev"
    and "order_effect (co_dec C) (ev_data ev) (find_order (es_book (en_state en))) = Some l"
  obtains b where "apply_then C ev f en = Inr (en\<lparr>en_state := f ((en_state en)\<lparr>es_book := b\<rparr>)\<rparr>)"
    and "book_ok b" and "find_order b = l" and "book_seq b = ev_seq ev"
proof -
  from book_apply_effect [OF assms(1,2), of "co_dec C"] assms(3)
  obtain b where b: "book_apply (co_dec C) ev (es_book (en_state en)) = Some b" "find_order b = l" by auto
  with book_apply_ok [OF assms(1) b(1)] book_apply_seq [OF b(1)] assms(2) show ?thesis
    by (intro that [of b]) (simp_all add: apply_then_def apply_events_def)
qed

text \<open>What the replay of one event keeps, with the view it reaches.\<close>

definition replayed_to :: "event \<Rightarrow> view \<Rightarrow> 'st engine \<Rightarrow> 'st engine \<Rightarrow> bool" where
  "replayed_to ev v en en' \<longleftrightarrow>
     view (en_state en') = v \<and> book_ok (es_book (en_state en')) \<and> book_seq (es_book (en_state en')) \<le> ev_seq ev \<and>
     en_store en' = en_store en"

lemma keep_refines:
  assumes "book_ok (es_book (en_state en))" and "book_seq (es_book (en_state en)) < ev_seq ev"
    and "order_effect (co_dec C) (ev_data ev) (find_order (es_book (en_state en))) = Some l"
    and "\<And>b. find_order b = l \<Longrightarrow> book_ok b \<Longrightarrow>
      view (f ((en_state en)\<lparr>es_book := b\<rparr>)) = v \<and> book_ok (es_book (f ((en_state en)\<lparr>es_book := b\<rparr>))) \<and>
      book_seq (es_book (f ((en_state en)\<lparr>es_book := b\<rparr>))) = book_seq b"
  obtains en' where "apply_then C ev f en = Inr en'" and "replayed_to ev v en en'"
proof -
  from apply_then_law [OF assms(1-3), of f] obtain b where
    b: "apply_then C ev f en = Inr (en\<lparr>en_state := f ((en_state en)\<lparr>es_book := b\<rparr>)\<rparr>)"
       "book_ok b" "find_order b = l" "book_seq b = ev_seq ev" by metis
  show ?thesis using assms(4) [OF b(3,2)] b(4) by (intro that [OF b(1)]) (simp add: replayed_to_def)
qed

lemma admit_book:
  assumes "book_ok (es_book s)" and "find_order (es_book s) (order_id ord) = None" and "0 < remaining_size ord"
  shows "book_ok (es_book (admit_order C ord ct rp s))"
    and "book_seq (es_book (admit_order C ord ct rp s)) = book_seq (es_book s)"
    and "view (admit_order C ord ct rp s) = (view s)\<lparr>v_orders := (v_orders (view s))(order_id ord \<mapsto> ord),
        v_seen := insert (ciphertext_digest C ct) (v_seen (view s)),
        v_nullifiers := insert (rp_nullifier rp) (v_nullifiers (view s)),
        v_nonces := insert (rp_order_nonce_digest rp) (v_nonces (view s))\<rparr>"
  using bk.ins_law [OF assms]
  by (simp_all add: admit_order_def view_def) (simp add: insert_order_def Let_def)

lemma placed_refines:
  assumes "\<forall>xs. co_sponge C xs < FR_MODULUS" and "book_ok (es_book (en_state en))"
    and "book_seq (es_book (en_state en)) < ev_seq ev" and "ev_data ev = OrderPlaced i c pf ct"
    and "project C ev (view (en_state en)) = Some v"
  shows "\<exists>en' acc'. replay_order_placed C ev i c ct (en, acc) = Inr (en', acc') \<and> replayed_to ev v en en'"
proof -
  let ?v = "view (en_state en)"
  from assms(4,5) obtain ord rp where p: "placed_as C ct i (ev_timestamp ev) (ev_seq ev) = Some (ord, rp, c)"
    and fresh: "v_orders ?v i = None" "0 < remaining_size ord"
    and v: "v = ?v\<lparr>v_orders := (v_orders ?v)(i \<mapsto> ord),
        v_pairs := (if v_pairs ?v (order_pair ord) = None
                    then (v_pairs ?v)(order_pair ord \<mapsto> pair_config_default) else v_pairs ?v),
        v_seen := insert (ciphertext_digest C ct) (v_seen ?v),
        v_nullifiers := insert (rp_nullifier rp) (v_nullifiers ?v),
        v_nonces := insert (rp_order_nonce_digest rp) (v_nonces ?v)\<rparr>"
    by (auto simp: project_def split: option.splits if_splits)
  have i: "order_id ord = i" using p by (rule placed_as_Some) (simp add: new_order_def)
  let ?f = "\<lambda>s. admit_order C ord ct rp (seed_pair (order_pair ord) s)"
  obtain en' where "apply_then C ev ?f en = Inr en'" "replayed_to ev v en en'"
  proof (rule keep_refines [OF assms(2,3), where f = ?f and l = "find_order (es_book (en_state en))" and v = v])
    show "order_effect (co_dec C) (ev_data ev) (find_order (es_book (en_state en))) = Some (find_order (es_book (en_state en)))"
      by (simp add: assms(4) order_effect_def)
    fix b
    assume b: "find_order b = find_order (es_book (en_state en))" "book_ok b"
    let ?s = "seed_pair (order_pair ord) ((en_state en)\<lparr>es_book := b\<rparr>)"
    have f: "find_order (es_book ?s) (order_id ord) = None" using fresh(1) b(1) by (simp add: i view_def)
    have "book_ok (es_book ?s)" using b(2) by simp
    note a = admit_book [OF this f fresh(2), of C ct rp]
    have "view (?f ((en_state en)\<lparr>es_book := b\<rparr>)) = v"
      unfolding a(3) v by (simp add: view_seed_pair view_book b(1) i) (simp add: view_def)
    with a(1,2) show "view (?f ((en_state en)\<lparr>es_book := b\<rparr>)) = v \<and> book_ok (es_book (?f ((en_state en)\<lparr>es_book := b\<rparr>))) \<and>
        book_seq (es_book (?f ((en_state en)\<lparr>es_book := b\<rparr>))) = book_seq b" by simp
  qed
  with replay_placed [OF assms(1) p, of "(en, acc)"] show ?thesis by simp
qed

lemma project_effect:
  assumes "project C ev v = Some v'" and "\<And>i c pf ct. ev_data ev \<noteq> OrderPlaced i c pf ct"
  shows "\<exists>l. order_effect (co_dec C) (ev_data ev) (v_orders v) = Some l \<and> v_orders v' = l"
  using assms by (cases "ev_data ev") (auto simp: project_def order_effect_def Let_def split: option.splits bind_splits)

text \<open>What the replay changes outside the book, for the events that are no placement.\<close>

definition state_change :: "collab \<Rightarrow> event_data \<Rightarrow> engine_state \<Rightarrow> engine_state" where
  "state_change C d =
     (case d of
        AuctionExecuted aid pair cp vol cnt ts \<Rightarrow> (\<lambda>s. s\<lparr>es_auction_log := es_auction_log s @
          [\<lparr>ae_auction_id = aid, ae_pair = pair, ae_clearing_price = cp, ae_matched_volume = vol,
            ae_match_count = cnt, ae_timestamp = ts\<rparr>]\<rparr>)
      | BatchConfirmed i _ \<Rightarrow> (\<lambda>s. s\<lparr>es_pending_batches := hm_remove i (es_pending_batches s)\<rparr>)
      | BatchSettled i _ _ \<Rightarrow> (\<lambda>s. s\<lparr>es_pending_batches := hm_remove i (es_pending_batches s)\<rparr>)
      | PairRegistered pair base quote mn tick ms bd qd \<Rightarrow>
          (\<lambda>s. s\<lparr>es_pair_tokens := hm_insert (canonicalise_replayed_pair pair)
            (replayed_config C base quote mn tick ms bd qd) (es_pair_tokens s)\<rparr>)
      | PairSuspended pair \<Rightarrow> set_pair_status (canonicalise_replayed_pair pair) Suspended
      | PairDelisted pair \<Rightarrow> set_pair_status (canonicalise_replayed_pair pair) Delisted
      | _ \<Rightarrow> (\<lambda>s. s))"

lemma state_change_book [simp]: "es_book (state_change C d s) = es_book s"
  by (simp add: state_change_def split: event_data.split)

lemma state_change_view:
  assumes "project C ev v = Some v'" and "\<And>i c pf ct. ev_data ev \<noteq> OrderPlaced i c pf ct"
    and "view s = v\<lparr>v_orders := v_orders v'\<rparr>"
  shows "view (state_change C (ev_data ev) s) = v'"
  using assms
  by (cases "ev_data ev")
    (auto simp: project_def state_change_def view_set_pair_status view_pairs Let_def split: option.splits,
     auto simp: view_def)

lemma replay_via_change:
  assumes "\<And>i c pf ct. ev_data ev \<noteq> OrderPlaced i c pf ct" and "\<And>b r p x. ev_data ev \<noteq> BatchFolded b r p x"
    and "apply_then C ev (state_change C (ev_data ev)) en = Inr en'" and "replayed_to ev v en en'"
  shows "\<exists>en'' acc'. replay_event C ev (en, acc) = Inr (en'', acc') \<and> replayed_to ev v en en''"
proof (cases "ev_data ev")
  case (BatchSubmitted b a x n pf)
  with assms(3,4) show ?thesis
    by (auto simp: replay_event_def replay_batch_submitted_def state_change_def Let_def replayed_to_def insert_batch_def)
qed (use assms in \<open>auto simp: replay_event_def state_change_def Let_def\<close>)

lemma replay_refines:
  assumes "\<forall>xs. co_sponge C xs < FR_MODULUS" and "book_ok (es_book (en_state en))"
    and "book_seq (es_book (en_state en)) < ev_seq ev" and "project C ev (view (en_state en)) = Some v"
  shows "\<exists>en' acc'. replay_event C ev (en, acc) = Inr (en', acc') \<and> replayed_to ev v en en'"
proof -
  consider i c pf ct where "ev_data ev = OrderPlaced i c pf ct" | b r p x where "ev_data ev = BatchFolded b r p x"
    | "\<And>i c pf ct. ev_data ev \<noteq> OrderPlaced i c pf ct" "\<And>b r p x. ev_data ev \<noteq> BatchFolded b r p x" by metis
  then show ?thesis
  proof cases
    case (1 i c pf ct)
    then show ?thesis using placed_refines [OF assms(1-3) 1 assms(4), of acc] by (simp add: replay_event_def Let_def)
  next
    case (2 b r p x)
    with assms show ?thesis
      by (auto simp: replay_event_def replayed_to_def replay_folded_def Let_def project_def order_effect_def view_def)
  next
    case 3
    obtain l where l: "order_effect (co_dec C) (ev_data ev) (find_order (es_book (en_state en))) = Some l" "v_orders v = l"
      using project_effect [OF assms(4) 3(1)] by (auto simp: view_def)
    obtain en' where "apply_then C ev (state_change C (ev_data ev)) en = Inr en'" "replayed_to ev v en en'"
    proof (rule keep_refines [OF assms(2,3) l(1), where v = v and f = "state_change C (ev_data ev)"])
      fix b
      assume b: "find_order b = l" "book_ok b"
      have "view ((en_state en)\<lparr>es_book := b\<rparr>) = (view (en_state en))\<lparr>v_orders := v_orders v\<rparr>"
        by (simp add: view_book b(1) l(2))
      from state_change_view [OF assms(4) 3(1) this] b(2)
      show "view (state_change C (ev_data ev) ((en_state en)\<lparr>es_book := b\<rparr>)) = v \<and>
          book_ok (es_book (state_change C (ev_data ev) ((en_state en)\<lparr>es_book := b\<rparr>))) \<and>
          book_seq (es_book (state_change C (ev_data ev) ((en_state en)\<lparr>es_book := b\<rparr>))) = book_seq b" by simp
    qed
    then show ?thesis by (rule replay_via_change [OF 3])
  qed
qed

lemma replay_events_refines:
  assumes "\<forall>xs. co_sponge C xs < FR_MODULUS"
  shows "book_ok (es_book (en_state en)) \<Longrightarrow> sorted_wrt (<) (map ev_seq es) \<Longrightarrow>
    (\<forall>e\<in>set es. book_seq (es_book (en_state en)) < ev_seq e) \<Longrightarrow> project_all C es (view (en_state en)) = Some v \<Longrightarrow>
    \<exists>en' acc'. replay_events C es (en, acc) = Inr (en', acc') \<and> view (en_state en') = v \<and>
      book_ok (es_book (en_state en')) \<and> en_store en' = en_store en \<and>
      book_seq (es_book (en_state en')) \<le> fold max (map ev_seq es) (book_seq (es_book (en_state en)))"
proof (induction es arbitrary: en acc)
  case (Cons e es)
  from Cons.prems(4) obtain v1 where v1: "project C e (view (en_state en)) = Some v1" "project_all C es v1 = Some v"
    by (auto split: bind_splits)
  from replay_refines [OF assms Cons.prems(1) _ v1(1), of acc] Cons.prems(3) obtain en1 acc1 where
    r: "replay_event C e (en, acc) = Inr (en1, acc1)" "replayed_to e v1 en en1" by auto
  have "\<forall>x\<in>set es. book_seq (es_book (en_state en1)) < ev_seq x"
    using r(2) Cons.prems(2) by (fastforce simp: replayed_to_def)
  from Cons.IH [OF _ _ this, of acc1] r(2) Cons.prems(2) v1(2) obtain en2 acc2 where
    n: "replay_events C es (en1, acc1) = Inr (en2, acc2)" "view (en_state en2) = v" "book_ok (es_book (en_state en2))"
       "en_store en2 = en_store en" "book_seq (es_book (en_state en2)) \<le> fold max (map ev_seq es) (book_seq (es_book (en_state en1)))"
    by (auto simp: replayed_to_def)
  have "fold max (map ev_seq es) (book_seq (es_book (en_state en1))) \<le> fold max (map ev_seq es) (max (ev_seq e) (book_seq (es_book (en_state en))))"
    using r(2) by (intro fold_max_mono) (auto simp: replayed_to_def)
  with r n show ?case by (auto intro: order_trans)
qed simp

end
