(* ===== verification/EngineInv.thy ===== *)
theory EngineInv
  imports Projection
begin

text \<open>
  The engine as a state machine. \<open>step\<close> has one rule for every critical section and every append
  that runs without the state lock, so that a run is any interleaving of the sections of concurrent
  placements, cancellations, ticks, submissions, snapshots and admin calls.

  \<open>engine_inv\<close> is what every reachable engine keeps, over any store with the contract
  \<open>event_store\<close>: the book is well formed and within its capacities, its orders are fit for an
  auction and rest on listed pairs, each has its witness secrets, and the state is the projection of
  every event appended so far. The lemmas are proved in that locale; the theorems over the memory
  and the file store come by its two interpretations.
\<close>

section \<open>Orders of a view\<close>

definition resting_ok :: "nat \<Rightarrow> (string \<Rightarrow> pair_config option) \<Rightarrow> uuid \<Rightarrow> order \<Rightarrow> bool" where
  "resting_ok n ps i ord \<longleftrightarrow>
     order_id ord = i \<and> encodable (price ord) \<and> encodable (remaining_size ord) \<and> 0 < price ord \<and>
     0 < remaining_size ord \<and> remaining_size ord \<le> order_size ord \<and> order_seq ord \<le> n \<and>
     (\<exists>cfg. ps (order_pair ord) = Some cfg \<and> pc_status cfg \<noteq> Delisted)"

definition trader_orders :: "(uuid \<Rightarrow> order option) \<Rightarrow> address \<Rightarrow> uuid set" where
  "trader_orders l t = {i. \<exists>ord. l i = Some ord \<and> trader ord = t}"

definition view_ok :: "nat \<Rightarrow> view \<Rightarrow> bool" where
  "view_ok n v \<longleftrightarrow>
     finite (dom (v_orders v)) \<and> card (dom (v_orders v)) \<le> MAX_ACTIVE_ORDERS \<and>
     (\<forall>t. card (trader_orders (v_orders v) t) \<le> MAX_ACTIVE_ORDERS_PER_TRADER) \<and>
     (\<forall>i ord. v_orders v i = Some ord \<longrightarrow> resting_ok n (v_pairs v) i ord) \<and>
     (\<forall>i j x y. v_orders v i = Some x \<and> v_orders v j = Some y \<and> order_seq x = order_seq y \<longrightarrow> i = j)"

text \<open>Orders leave or lose remaining size, and nothing else.\<close>

definition shrinks :: "(uuid \<Rightarrow> order option) \<Rightarrow> (uuid \<Rightarrow> order option) \<Rightarrow> bool" where
  "shrinks l l' \<longleftrightarrow>
     (\<forall>i ord'. l' i = Some ord' \<longrightarrow>
        (\<exists>ord. l i = Some ord \<and> ord' = ord\<lparr>remaining_size := remaining_size ord'\<rparr> \<and>
           0 < remaining_size ord' \<and> remaining_size ord' \<le> remaining_size ord \<and> encodable (remaining_size ord')))"

lemma shrinksD:
  assumes "shrinks l l'" and "l' i = Some ord'"
  obtains ord where "l i = Some ord" and "order_id ord' = order_id ord" and "price ord' = price ord"
    and "order_size ord' = order_size ord" and "order_seq ord' = order_seq ord" and "trader ord' = trader ord"
    and "order_pair ord' = order_pair ord" and "0 < remaining_size ord'"
    and "remaining_size ord' \<le> remaining_size ord" and "encodable (remaining_size ord')"
proof -
  from assms obtain ord where o1: "l i = Some ord" and o2: "ord' = ord\<lparr>remaining_size := remaining_size ord'\<rparr>"
    and o3: "0 < remaining_size ord'" "remaining_size ord' \<le> remaining_size ord" "encodable (remaining_size ord')"
    unfolding shrinks_def by blast
  have "order_id ord' = order_id ord" "price ord' = price ord" "order_size ord' = order_size ord"
    "order_seq ord' = order_seq ord" "trader ord' = trader ord" "order_pair ord' = order_pair ord"
    by (subst o2, simp)+
  with o1 o3 show ?thesis by (intro that)
qed

lemma view_ok_shrink:
  assumes "view_ok n v" and "shrinks (v_orders v) l" and "n \<le> n'" and "v_pairs v' = v_pairs v" and "v_orders v' = l"
  shows "view_ok n' v'"
proof -
  have d: "dom l \<subseteq> dom (v_orders v)" using assms(2) by (auto elim!: shrinksD)
  have t: "trader_orders l t \<subseteq> trader_orders (v_orders v) t" for t
    using assms(2) by (auto simp: trader_orders_def elim!: shrinksD)
  have f: "finite (dom (v_orders v))" using assms(1) by (simp add: view_ok_def)
  have ft: "finite (trader_orders (v_orders v) t)" for t
    by (rule finite_subset [OF _ f]) (auto simp: trader_orders_def)
  have "card (dom l) \<le> MAX_ACTIVE_ORDERS" "card (trader_orders l t) \<le> MAX_ACTIVE_ORDERS_PER_TRADER" for t
    using card_mono [OF f d] card_mono [OF ft t, of t] assms(1) unfolding view_ok_def by (meson order_trans)+
  moreover have "resting_ok n' (v_pairs v) i ord" if "l i = Some ord" for i ord
  proof -
    from assms(2) that obtain x where "v_orders v i = Some x" "order_id ord = order_id x" "price ord = price x"
      "order_size ord = order_size x" "order_seq ord = order_seq x" "order_pair ord = order_pair x"
      "0 < remaining_size ord" "remaining_size ord \<le> remaining_size x" "encodable (remaining_size ord)"
      by (rule shrinksD)
    moreover from this(1) assms(1) have "resting_ok n (v_pairs v) i x" by (simp add: view_ok_def)
    ultimately show ?thesis using assms(3) by (auto simp: resting_ok_def)
  qed
  moreover have "i = j" if "l i = Some x" "l j = Some y" "order_seq x = order_seq y" for i j x y
    using assms(1) that shrinksD [OF assms(2) that(1)] shrinksD [OF assms(2) that(2)] unfolding view_ok_def by metis
  ultimately show ?thesis using finite_subset [OF d f] unfolding view_ok_def assms(4,5) by blast
qed

lemma shrinks_remove:
  assumes "view_ok n v" and "\<And>i ord. l i = Some ord \<Longrightarrow> v_orders v i = Some ord"
  shows "shrinks (v_orders v) l"
  using assms by (fastforce simp: shrinks_def view_ok_def resting_ok_def)

lemma view_ok_mono: "view_ok n v \<Longrightarrow> n \<le> n' \<Longrightarrow> view_ok n' v"
  by (rule view_ok_shrink [OF _ shrinks_remove]) auto

section \<open>Runs of events\<close>

text \<open>Events that change nothing but the table of orders.\<close>

fun order_event :: "event_data \<Rightarrow> bool" where
  "order_event (OrderPlaced _ _ _ _) = False"
| "order_event (AuctionExecuted _ _ _ _ _ _) = False"
| "order_event (PairRegistered _ _ _ _ _ _ _ _) = False"
| "order_event (PairSuspended _) = False"
| "order_event (PairDelisted _) = False"
| "order_event _ = True"

lemma project_order_event:
  "order_event (ev_data e) \<Longrightarrow>
   project C e v = map_option (\<lambda>l. v\<lparr>v_orders := l\<rparr>) (order_effect (co_dec C) (ev_data e) (v_orders v))"
  by (cases "ev_data e") (auto simp: project_def split: option.split)

lemma project_all_orders:
  assumes "list_all (\<lambda>e. order_event (ev_data e)) es"
  shows "project_all C es v = map_option (\<lambda>l. v\<lparr>v_orders := l\<rparr>) (seq_opt (order_effect (co_dec C)) (map ev_data es) (v_orders v))"
  using assms
proof (induction es arbitrary: v)
  case (Cons e es)
  then show ?case
    by (cases "order_effect (co_dec C) (ev_data e) (v_orders v)") (simp_all add: project_order_event)
qed simp

lemma book_apply_all_effects:
  assumes "book_ok b" and "sorted_wrt (<) (map ev_seq es)" and "\<forall>e\<in>set es. book_seq b < ev_seq e"
    and "seq_opt (order_effect D) (map ev_data es) (find_order b) = Some l"
  obtains b' where "book_apply_all D es b = Some b'" and "book_ok b'" and "find_order b' = l"
    and "book_seq b' = fold max (map ev_seq es) (book_seq b)"
  using assms
proof (induction es arbitrary: b thesis)
  case (Cons e es)
  from Cons.prems(5) obtain l1 where l1: "order_effect D (ev_data e) (find_order b) = Some l1"
    "seq_opt (order_effect D) (map ev_data es) l1 = Some l" by (auto split: bind_splits)
  from book_apply_effect [OF Cons.prems(2), of e D] l1(1) Cons.prems(4) obtain b1 where
    b1: "book_apply D e b = Some b1" "find_order b1 = l1" by auto
  have s1: "book_seq b1 = max (ev_seq e) (book_seq b)" using book_apply_seq [OF b1(1)] by simp
  have "\<forall>x\<in>set es. book_seq b1 < ev_seq x" using Cons.prems(3,4) s1 by auto
  then obtain b2 where "book_apply_all D es b1 = Some b2" "book_ok b2" "find_order b2 = l"
    "book_seq b2 = fold max (map ev_seq es) (book_seq b1)"
    using Cons.IH [of b1] book_apply_ok [OF Cons.prems(2) b1(1)] Cons.prems(3) l1(2) b1(2) by auto
  with b1 s1 Cons.prems(1) show ?case by auto
qed auto

section \<open>The invariant and the order of extension\<close>

abbreviation last_seq :: "'st store_ops \<Rightarrow> 'st engine \<Rightarrow> nat" where
  "last_seq ops en \<equiv> st_last_seq ops (en_store en)"

abbreviation eng_view :: "'st engine \<Rightarrow> view" where
  "eng_view en \<equiv> view (en_state en)"

abbreviation eng_book :: "'st engine \<Rightarrow> book" where
  "eng_book en \<equiv> es_book (en_state en)"

text \<open>Far from the end of the \<^verbatim>\<open>u64\<close> sequence: no critical section appends \<open>2 ^ 32\<close> events.\<close>

definition room :: "'st store_ops \<Rightarrow> 'st engine \<Rightarrow> bool" where
  "room ops en \<longleftrightarrow> last_seq ops en + 2 ^ 32 < 2 ^ 64"

definition state_ok :: "nat \<Rightarrow> engine_state \<Rightarrow> bool" where
  "state_ok n s \<longleftrightarrow> book_ok (es_book s) \<and> book_seq (es_book s) \<le> n \<and> hm_ok (es_pair_tokens s) \<and> view_ok n (view s)"

definition secrets_ok :: "'st engine \<Rightarrow> bool" where
  "secrets_ok en \<longleftrightarrow> (\<forall>i. find_order (eng_book en) i \<noteq> None \<longrightarrow> hm_get (en_secrets en) i \<noteq> None)"

definition engine_inv :: "'st store_ops \<Rightarrow> ('st \<Rightarrow> bool) \<Rightarrow> 'st engine \<Rightarrow> bool" where
  "engine_inv ops ok en \<longleftrightarrow> ok (en_store en) \<and> state_ok (last_seq ops en) (en_state en) \<and> secrets_ok en"

text \<open>
  \<open>extends_by\<close>: the second engine's view is the first's after the events \<open>es\<close>, all of them newer,
  and its log has them at the end; compaction may have dropped events below \<open>b\<close>.
\<close>

definition extends_by :: "collab \<Rightarrow> 'st store_ops \<Rightarrow> ('st \<Rightarrow> event list) \<Rightarrow> 'st engine \<Rightarrow> 'st engine \<Rightarrow> event list \<Rightarrow> nat \<Rightarrow> bool" where
  "extends_by C ops lg en en' es b \<longleftrightarrow>
     last_seq ops en \<le> last_seq ops en' \<and> b \<le> last_seq ops en' + 1 \<and>
     lg (en_store en') = filter (\<lambda>e. b \<le> ev_seq e) (lg (en_store en) @ es) \<and>
     sorted_wrt (<) (map ev_seq es) \<and> (\<forall>e\<in>set es. last_seq ops en < ev_seq e \<and> ev_seq e \<le> last_seq ops en') \<and>
     project_all C es (eng_view en) = Some (eng_view en')"

lemma extends_by_trans:
  assumes "extends_by C ops lg e1 e2 es b" and "extends_by C ops lg e2 e3 es' b'"
  shows "extends_by C ops lg e1 e3 (es @ es') (max b b')"
proof -
  have *: "filter (\<lambda>e. b \<le> ev_seq e) es' = es'" using assms by (fastforce simp: extends_by_def filter_id_conv)
  have "filter (\<lambda>e. b' \<le> ev_seq e) (filter (\<lambda>e. b \<le> ev_seq e) xs) = filter (\<lambda>e. max b b' \<le> ev_seq e) xs" for xs
    by (auto intro: filter_cong)
  moreover have "filter (\<lambda>e. b' \<le> ev_seq e) es' = filter (\<lambda>e. max b b' \<le> ev_seq e) es'"
    by (subst (1) * [symmetric]) (auto intro: filter_cong)
  ultimately have "lg (en_store e3) = filter (\<lambda>e. max b b' \<le> ev_seq e) (lg (en_store e1) @ es @ es')"
    using assms by (auto simp: extends_by_def)
  moreover have "sorted_wrt (<) (map ev_seq (es @ es'))"
    using assms by (fastforce simp: extends_by_def sorted_wrt_append)
  ultimately show ?thesis using assms by (auto simp: extends_by_def project_all_append)
qed

definition advances :: "collab \<Rightarrow> 'st store_ops \<Rightarrow> ('st \<Rightarrow> event list) \<Rightarrow> ('st \<Rightarrow> bool) \<Rightarrow> 'st engine \<Rightarrow> 'st engine \<Rightarrow> bool" where
  "advances C ops lg ok en en' \<longleftrightarrow> engine_inv ops ok en' \<and> (\<exists>es b. extends_by C ops lg en en' es b)"

lemma advances_trans:
  "advances C ops lg ok e1 e2 \<Longrightarrow> advances C ops lg ok e2 e3 \<Longrightarrow> advances C ops lg ok e1 e3"
  using extends_by_trans unfolding advances_def by metis

lemma assign_all_timestamps:
  "assign_all clk es sq = (es', sq') \<Longrightarrow> (\<forall>e\<in>set es. ev_timestamp e \<noteq> 0) \<Longrightarrow> map ev_timestamp es' = map ev_timestamp es"
proof (induction es arbitrary: sq es' sq')
  case (Cons e es)
  from Cons.prems obtain e1 sq1 es1 where "assign_seq_and_timestamp clk e sq = (e1, sq1)"
    "assign_all clk es sq1 = (es1, sq')" "es' = e1 # es1" by (auto split: prod.splits)
  moreover from this(1) Cons.prems(2) have "ev_timestamp e1 = ev_timestamp e"
    by (auto simp: assign_seq_and_timestamp_def Let_def)
  ultimately show ?case using Cons.IH Cons.prems(2) by auto
qed simp

section \<open>Appends\<close>

context event_store
begin

definition appended :: "event list \<Rightarrow> event list \<Rightarrow> 'st engine \<Rightarrow> 'st engine \<Rightarrow> bool" where
  "appended es es' en en' \<longleftrightarrow>
     en' = en\<lparr>en_store := en_store en'\<rparr> \<and> inv (en_store en') \<and> log (en_store en') = log (en_store en) @ es' \<and>
     sorted_wrt (<) (map ev_seq es') \<and> map ev_data es' = map ev_data es \<and>
     ((\<forall>e\<in>set es. ev_timestamp e \<noteq> 0) \<longrightarrow> map ev_timestamp es' = map ev_timestamp es) \<and>
     last_seq ops en' = last_seq ops en + length es \<and>
     (\<forall>e\<in>set es'. last_seq ops en < ev_seq e \<and> ev_seq e \<le> last_seq ops en')"

lemma store_append_ok:
  assumes "inv (en_store en)" and "room ops en" and "length es \<le> 2 ^ 32" and "store_append ops clk es en = (en', Inr es')"
  shows "appended es es' en en'"
proof -
  from assms(4) obtain st where st: "st_append ops clk es (en_store en) = (st, Inr es')" "en' = en\<lparr>en_store := st\<rparr>"
    by (auto simp: store_append_def split: prod.splits sum.splits)
  have r: "last_seq ops en + length es < 2 ^ 64" using assms(2,3) by (simp add: room_def)
  note a = append_ok [OF assms(1) r st(1)] and b = append_seq [OF assms(1) r st(1)] and c = append_new_above [OF assms(1) r st(1)]
  have "sorted_wrt (<) (map ev_seq es')" unfolding b(2) by (rule sorted_wrt_upt)
  then show ?thesis using a b c assign_all_timestamps [of clk es "last_seq ops en" es'] by (auto simp: appended_def st(2))
qed

lemma store_append_err:
  assumes "inv (en_store en)" and "room ops en" and "length es \<le> 2 ^ 32" and "store_append ops clk es en = (en', Inl e)"
  shows "en' = en\<lparr>en_store := en_store en'\<rparr>" and "inv (en_store en')" and "log (en_store en') = log (en_store en)"
    and "last_seq ops en \<le> last_seq ops en'" and "last_seq ops en' \<le> last_seq ops en + length es"
proof -
  from assms(4) obtain st err where st: "st_append ops clk es (en_store en) = (st, Inl err)" "en' = en\<lparr>en_store := st\<rparr>"
    by (auto simp: store_append_def split: prod.splits sum.splits)
  have r: "last_seq ops en + length es < 2 ^ 64" using assms(2,3) by (simp add: room_def)
  show "en' = en\<lparr>en_store := en_store en'\<rparr>" "inv (en_store en')" "log (en_store en') = log (en_store en)"
    "last_seq ops en \<le> last_seq ops en'" "last_seq ops en' \<le> last_seq ops en + length es"
    using append_err [OF assms(1) r st(1)] by (simp_all add: st(2))
qed

text \<open>A change that appends nothing and keeps the view.\<close>

lemma advances_same:
  assumes "engine_inv ops inv en" and "inv (en_store en')" and "log (en_store en') = log (en_store en)"
    and "last_seq ops en \<le> last_seq ops en'" and "eng_view en' = eng_view en" and "book_ok (eng_book en')"
    and "book_seq (eng_book en') \<le> last_seq ops en'" and "hm_ok (es_pair_tokens (en_state en'))" and "secrets_ok en'"
  shows "advances C ops log inv en en'"
proof -
  have "view_ok (last_seq ops en') (eng_view en')"
    using assms(1,4,5) view_ok_mono unfolding engine_inv_def state_ok_def by metis
  then have i: "engine_inv ops inv en'" using assms by (simp add: engine_inv_def state_ok_def)
  have "\<forall>e\<in>set (log (en_store en)). 0 \<le> ev_seq e" by simp
  then have "extends_by C ops log en en' [] 0" using assms by (simp add: extends_by_def)
  with i show ?thesis unfolding advances_def by blast
qed

lemma advances_failed:
  assumes "engine_inv ops inv en" and "room ops en" and "length es \<le> 2 ^ 32" and "store_append ops clk es en = (en', Inl e)"
  shows "advances C ops log inv en en'"
proof -
  have i: "inv (en_store en)" using assms(1) by (simp add: engine_inv_def)
  note a = store_append_err [OF i assms(2-4)]
  have "en_state en' = en_state en" "en_secrets en' = en_secrets en" by (subst a(1), simp)+
  with a assms(1) show ?thesis
    by (intro advances_same) (auto simp: engine_inv_def state_ok_def secrets_ok_def)
qed

text \<open>A change that appends events and moves the view as they say.\<close>

lemma advances_events:
  assumes "engine_inv ops inv en" and "appended es es' en en1" and "en_store en' = en_store en1"
    and "project_all C es' (eng_view en) = Some (eng_view en')"
    and "state_ok (last_seq ops en') (en_state en')" and "secrets_ok en'"
  shows "advances C ops log inv en en'"
proof -
  have "engine_inv ops inv en'" using assms(2,3,5,6) by (simp add: engine_inv_def appended_def)
  moreover have "extends_by C ops log en en' es' 0" using assms(2-4) by (auto simp: extends_by_def appended_def)
  ultimately show ?thesis unfolding advances_def by blast
qed

text \<open>Applying appended events to the book.\<close>

lemma apply_appended:
  assumes "state_ok (last_seq ops en) (en_state en)" and "appended es es' en en1" and "en_state en2 = (en_state en1)\<lparr>es_auction_log := al\<rparr>"
    and "seq_opt (order_effect (co_dec C)) (map ev_data es) (find_order (eng_book en)) = Some l"
  obtains b where "apply_events C es' en2 = Some (en2\<lparr>en_state := (en_state en2)\<lparr>es_book := b\<rparr>\<rparr>)"
    and "book_ok b" and "find_order b = l" and "book_seq b \<le> last_seq ops en1"
proof -
  have st: "en_state en1 = en_state en" using assms(2) unfolding appended_def by (metis engine.select_convs(1) engine.surjective engine.update_convs(2))
  have ok: "book_ok (eng_book en)" "book_seq (eng_book en) \<le> last_seq ops en" using assms(1) by (simp_all add: state_ok_def)
  have s: "sorted_wrt (<) (map ev_seq es')" "\<forall>e\<in>set es'. book_seq (eng_book en) < ev_seq e"
    "\<forall>e\<in>set es'. ev_seq e \<le> last_seq ops en1" "last_seq ops en \<le> last_seq ops en1" "map ev_data es' = map ev_data es"
    using assms(2) ok(2) by (auto simp: appended_def)
  from book_apply_all_effects [OF ok(1) s(1,2), of "co_dec C" l] s(5) assms(4) obtain b where
    b: "book_apply_all (co_dec C) es' (eng_book en) = Some b" "book_ok b" "find_order b = l"
      "book_seq b = fold max (map ev_seq es') (book_seq (eng_book en))" by auto
  have "book_seq b \<le> last_seq ops en1" unfolding b(4) using s(3,4) ok(2) by (intro fold_max_le) auto
  with b show ?thesis by (intro that [of b]) (simp_all add: apply_events_def assms(3) st)
qed

end

end
