(* ===== verification/EngineSteps.thy ===== *)
theory EngineSteps
  imports EngineInv
begin

text \<open>
  Every critical section keeps the engine's invariant and moves its view exactly as the events it
  appends say, on success and on every error path.
\<close>

section \<open>Counting orders\<close>

lemma active_order_count_card: "book_ok b \<Longrightarrow> active_order_count b = card (dom (find_order b))"
proof -
  assume ok: "book_ok b"
  have "order_id ` ran (find_order b) = dom (find_order b)"
    using bk.entry_law [OF ok] by (force simp: ran_def)
  with set_iter_all [OF ok] show ?thesis
    by (metis active_order_count_flat distinct_card length_map list.set_map)
qed

lemma active_order_count_for_trader_card:
  assumes "book_ok b"
  shows "active_order_count_for_trader b t = card (trader_orders (find_order b) t)"
proof -
  let ?f = "filter (\<lambda>ord. trader ord = t) (iter_all b)"
  have "set (map order_id ?f) = trader_orders (find_order b) t"
    using set_iter_all(1) [OF assms] bk.entry_law [OF assms] by (force simp: trader_orders_def ran_def)
  moreover have "distinct (map order_id ?f)" using set_iter_all(2) [OF assms] by (rule distinct_map_filter)
  ultimately show ?thesis by (metis active_order_count_for_trader_flat distinct_card length_map)
qed

lemma book_length:
  assumes "state_ok n s"
  shows "length (iter_all (es_book s)) \<le> MAX_ACTIVE_ORDERS"
  using assms active_order_count_card [of "es_book s"]
  by (simp add: state_ok_def view_ok_def view_def active_order_count_flat)

lemma iter_all_find:
  assumes "book_ok b"
  shows "ord \<in> set (iter_all b) \<longleftrightarrow> find_order b (order_id ord) = Some ord"
  using set_iter_all(1) [OF assms] bk.entry_law [OF assms] by (auto simp: ran_def)

lemma view_ok_pairs:
  assumes "view_ok n v" and "v_orders v' = v_orders v" and "n \<le> n'"
    and "\<And>i ord cfg. v_orders v i = Some ord \<Longrightarrow> v_pairs v (order_pair ord) = Some cfg \<Longrightarrow> pc_status cfg \<noteq> Delisted \<Longrightarrow>
      \<exists>cfg'. v_pairs v' (order_pair ord) = Some cfg' \<and> pc_status cfg' \<noteq> Delisted"
  shows "view_ok n' v'"
proof -
  have "resting_ok n' (v_pairs v') i ord" if "v_orders v i = Some ord" for i ord
  proof -
    have "resting_ok n (v_pairs v) i ord" using that assms(1) by (simp add: view_ok_def)
    with assms(3) assms(4) [OF that] show ?thesis by (auto simp: resting_ok_def)
  qed
  with assms(1,2) show ?thesis by (auto simp: view_ok_def)
qed

lemma view_ok_set_status:
  assumes "view_ok n v" and "n \<le> n'"
    and "\<And>i ord. v_orders v i = Some ord \<Longrightarrow> st = Delisted \<Longrightarrow> order_pair ord \<noteq> key"
  shows "view_ok n' (v\<lparr>v_pairs := (v_pairs v)(key := map_option (pc_status_update (\<lambda>_. st)) (v_pairs v key))\<rparr>)"
proof (rule view_ok_pairs [OF assms(1) _ assms(2)])
  fix i ord cfg
  assume "v_orders v i = Some ord" "v_pairs v (order_pair ord) = Some cfg" "pc_status cfg \<noteq> Delisted"
  then show "\<exists>cfg'. v_pairs (v\<lparr>v_pairs := (v_pairs v)(key := map_option (pc_status_update (\<lambda>_. st)) (v_pairs v key))\<rparr>)
      (order_pair ord) = Some cfg' \<and> pc_status cfg' \<noteq> Delisted"
    using assms(3) by (cases "order_pair ord = key") auto
qed simp

definition without :: "uuid set \<Rightarrow> (uuid \<Rightarrow> order option) \<Rightarrow> uuid \<Rightarrow> order option" where
  "without I l i = (if i \<in> I then None else l i)"

lemma without_Some [simp]: "without I l i = Some x \<longleftrightarrow> i \<notin> I \<and> l i = Some x" "without I l i = None \<longleftrightarrow> i \<in> I \<or> l i = None"
  by (simp_all add: without_def)

lemma view_orders: "v_orders (view s) = find_order (es_book s)"
  by (simp add: view_def)

lemma secrets_shrink:
  "secrets_ok en \<Longrightarrow> shrinks (find_order (eng_book en)) (find_order (eng_book en')) \<Longrightarrow> en_secrets en' = en_secrets en \<Longrightarrow> secrets_ok en'"
  by (auto simp: secrets_ok_def elim!: shrinksD)

lemma seq_opt_cancels:
  "seq_opt (order_effect D) (map (\<lambda>i. OrderCancelled i r) ids) l = Some (without (set ids) l)"
  "seq_opt (order_effect D) (map OrderExpired ids) l = Some (without (set ids) l)"
  by (induction ids arbitrary: l) (auto simp: order_effect_def without_def fun_eq_iff)

lemma view_ok_without:
  assumes "view_ok n v" and "n \<le> n'"
  shows "view_ok n' (v\<lparr>v_orders := without I (v_orders v)\<rparr>)"
  by (rule view_ok_shrink [OF assms(1) shrinks_remove [OF assms(1)] assms(2)]) auto

lemma set_order_ids_for:
  assumes "book_ok b"
  shows "set (order_ids_for b p) = {i. \<exists>ord. find_order b i = Some ord \<and> order_pair ord = p}"
    and "length (order_ids_for b p) \<le> length (iter_all b)"
proof -
  have ok: "hm_ok (books b)" "list_all sub_book_ok (books b)" using assms by (simp_all add: book_ok_def)
  let ?f = "filter (\<lambda>ord. order_pair ord = p \<and> order_side ord = Buy) (iter_all b) @
    filter (\<lambda>ord. order_pair ord = p \<and> order_side ord = Sell) (iter_all b)"
  have ids: "order_ids_for b p = map order_id ?f"
  proof (cases "hm_get (books b) p")
    case (Some pb)
    then have "(p, pb) \<in> set (books b)" by (rule map_of_SomeD)
    then have "\<forall>e\<in>set (pb_bids pb @ pb_asks pb). order_id (snd e) = fst e"
      using ok(2) by (fastforce simp: list_all_iff sub_book_ok_def entry_ok_def)
    then show ?thesis using Some filter_flat [OF ok, of p] by (auto simp: order_ids_for_def iter_all_flat)
  qed (use filter_flat [OF ok, of p] in \<open>simp add: order_ids_for_def iter_all_flat\<close>)
  have "set ?f = {ord \<in> set (iter_all b). order_pair ord = p}" using side.exhaust by auto
  also have "\<dots> = {ord. find_order b (order_id ord) = Some ord \<and> order_pair ord = p}"
    by (simp add: iter_all_find [OF assms])
  finally show "set (order_ids_for b p) = {i. \<exists>ord. find_order b i = Some ord \<and> order_pair ord = p}"
    unfolding ids list.set_map using bk.entry_law [OF assms] by (auto simp: image_iff)
  have "length (filter P xs @ filter Q xs) \<le> length xs" if "\<And>x. P x \<Longrightarrow> \<not> Q x" for P Q and xs :: "order list"
    using that by (induction xs) auto
  from this [of "\<lambda>ord. order_pair ord = p \<and> order_side ord = Buy" "\<lambda>ord. order_pair ord = p \<and> order_side ord = Sell"]
  show "length (order_ids_for b p) \<le> length (iter_all b)" unfolding ids length_map by simp
qed

lemma canonical_key: "pair_parse p = Inr key \<Longrightarrow> canonicalise_replayed_pair key = key"
  using canonical_pair_parses pair_parse_canonical_form by (fastforce simp: canonicalise_replayed_pair_def)

lemma hm_ok_set_pair_status: "hm_ok (es_pair_tokens s) \<Longrightarrow> hm_ok (es_pair_tokens (set_pair_status key st s))"
  by (auto simp: set_pair_status_def split: option.split)

lemma logged_interval: "as_millis_u64 (as_millis_u64 d * 1000000) = as_millis_u64 d"
  by (simp add: as_millis_u64_def)

lemma logged_replayed:
  assumes "\<forall>a. co_addr_parse C (co_addr_hex C a) = Some a" and "pc_status cfg = Active"
  shows "logged (replayed_config C (co_addr_hex C (pc_base_token cfg)) (co_addr_hex C (pc_quote_token cfg))
      (pc_min_order_size cfg) (pc_tick_size cfg) (map_option as_millis_u64 (pc_auction_interval cfg))
      (pc_base_decimals cfg) (pc_quote_decimals cfg)) = logged cfg"
  using assms
  by (cases cfg) (auto simp: replayed_config_def logged_def parse_address_or_zero_logged_def option.map_comp logged_interval
      intro!: option.map_cong)

section \<open>What a placement persists\<close>

lemma derive_any_balance:
  assumes "derive_order_secrets C a sd p sz bal pos salt = Inr sec"
  shows "derive_order_secrets C a sd p sz 0 0 salt = Inr (sec\<lparr>os_balance := 0, os_position := 0\<rparr>)"
  using assms by (auto simp: derive_order_secrets_def split: sum.splits option.splits)

lemma derive_encodable:
  assumes "collab_ok C" and "derive_order_secrets C a sd p sz bal pos salt = Inr sec" and "representable p" and "representable sz"
  shows "encodable p" and "encodable sz"
proof -
  from assms(2) obtain lp ls where "decimal_to_scalar (co_dec C) p = Inr lp" "decimal_to_scalar (co_dec C) sz = Inr ls"
    by (auto simp: derive_order_secrets_def compute_poseidon_commitment_fr_def from_decimals_def
        split: sum.splits option.splits)
  then show "encodable p" "encodable sz"
    using decimal_to_scalar_Inr assms(1,3,4) unfolding collab_ok_def by blast+
qed

text \<open>The order, secrets and replay keys of a placement are those its event stands for.\<close>

lemma place_placed_as:
  assumes "collab_ok C" and "place_precheck C s ct caller = Inr (d, key)"
    and "place_build C d key spend pf ct i now = Inr (ord, sec, rp)"
  shows "placed_as C ct i now sq = Some (ord\<lparr>order_seq := sq\<rparr>, rp, os_commitment sec)"
    and "order_id ord = i" and "submitted_at ord = now" and "0 < price ord" and "encodable (price ord)"
    and "0 < remaining_size ord" and "remaining_size ord = order_size ord" and "encodable (remaining_size ord)"
    and "trader ord = caller" and "order_pair ord = key" and "now < expires_at ord" and "expires_at ord \<le> now + int MAX_TTL"
proof -
  from assms(2) have d: "co_decrypt C ct = Inr d" "pair_parse (do_pair d) = Inr key" "0 < do_price d" "0 < do_size d"
    "do_trader d = caller"
    by (auto simp: place_precheck_def split: if_splits sum.splits)
  from assms(3) obtain expiry salt nonce bal pos where b: "validate_order_freshness C (do_expires_at_unix_nanos d) now = Inr expiry"
    "parse_order_salt C (do_salt d) = Inr salt" "parse_order_nonce C (do_nonce d) = Inr nonce"
    "ord = new_order d key ct i now expiry 0"
    "derive_order_secrets C (addr_bytes (do_trader d)) (side_u8 (do_side d)) (do_price d) (do_size d) bal pos salt = Inr sec"
    "rp = \<lparr>rp_nullifier = os_nullifier sec, rp_order_nonce_digest = order_nonce_digest C (do_trader d) nonce\<rparr>"
    by (auto simp: place_build_def Let_def new_order_def split: if_splits sum.splits)
  from b(1) have e: "order_expiry_from_unix_nanos C (do_expires_at_unix_nanos d) = Inr expiry"
    "now < expiry" "expiry \<le> now + int MAX_TTL"
    by (auto simp: validate_order_freshness_def split: sum.splits if_splits)
  show "placed_as C ct i now sq = Some (ord\<lparr>order_seq := sq\<rparr>, rp, os_commitment sec)"
    unfolding placed_as_def using d b e derive_any_balance [OF b(5)] by (simp add: new_order_def)
  have "representable (do_price d)" "representable (do_size d)" using assms(1) d(1) unfolding collab_ok_def by blast+
  from derive_encodable [OF assms(1) b(5) this] d e
  show "order_id ord = i" "submitted_at ord = now" "0 < price ord" "encodable (price ord)" "0 < remaining_size ord"
    "remaining_size ord = order_size ord" "encodable (remaining_size ord)" "trader ord = caller" "order_pair ord = key"
    "now < expires_at ord" "expires_at ord \<le> now + int MAX_TTL"
    by (simp_all add: b(4) new_order_def)
qed

text \<open>A view stays in order when a new order joins it below its capacities.\<close>

lemma trader_orders_insert:
  "l i = None \<Longrightarrow> trader_orders (l(i \<mapsto> ord)) t = (if trader ord = t then insert i (trader_orders l t) else trader_orders l t)"
  by (auto simp: trader_orders_def)

lemma view_ok_insert:
  assumes "view_ok n v" and "v_orders v i = None" and "n < m" and "m \<le> n'" and "order_seq ord = m" and "resting_ok m (v_pairs v) i ord"
    and "card (dom (v_orders v)) < MAX_ACTIVE_ORDERS" and "card (trader_orders (v_orders v) (trader ord)) < MAX_ACTIVE_ORDERS_PER_TRADER"
    and "v_orders v' = (v_orders v)(i \<mapsto> ord)" and "v_pairs v' = v_pairs v"
  shows "view_ok n' v'"
proof -
  have fin: "finite (dom (v_orders v))" and each: "\<And>j x. v_orders v j = Some x \<Longrightarrow> resting_ok n (v_pairs v) j x"
    and inj: "\<And>j k x y. v_orders v j = Some x \<Longrightarrow> v_orders v k = Some y \<Longrightarrow> order_seq x = order_seq y \<Longrightarrow> j = k"
    and cap: "\<And>t. card (trader_orders (v_orders v) t) \<le> MAX_ACTIVE_ORDERS_PER_TRADER"
    using assms(1) by (auto simp: view_ok_def)
  have ft: "finite (trader_orders (v_orders v) t)" for t
    by (rule finite_subset [OF _ fin]) (auto simp: trader_orders_def)
  have "card (trader_orders ((v_orders v)(i \<mapsto> ord)) t) \<le> MAX_ACTIVE_ORDERS_PER_TRADER" for t
    using assms(8) ft cap
    by (auto simp: trader_orders_insert [where l = "v_orders v", OF assms(2)] card_insert_if Suc_le_eq)
  moreover have "card (dom ((v_orders v)(i \<mapsto> ord))) \<le> MAX_ACTIVE_ORDERS"
    using assms(7) fin by (simp add: card_insert_if)
  moreover have "resting_ok n' (v_pairs v) j x" if "((v_orders v)(i \<mapsto> ord)) j = Some x" for j x
    using that each [of j x] assms(3,4,6) by (cases "j = i") (auto simp: resting_ok_def)
  moreover have "order_seq x \<noteq> m" if "v_orders v j = Some x" for j x
    using each [OF that] assms(3) by (auto simp: resting_ok_def)
  then have "j = k" if "((v_orders v)(i \<mapsto> ord)) j = Some x" "((v_orders v)(i \<mapsto> ord)) k = Some y" "order_seq x = order_seq y" for j k x y
    using that inj [of j x k y] assms(5) by (auto split: if_splits)
  moreover have "finite (dom ((v_orders v)(i \<mapsto> ord)))" using fin by simp
  ultimately show ?thesis unfolding view_ok_def assms(9,10) by blast
qed

context event_store
begin

lemma appended_facts:
  assumes "appended es es' en en1"
  shows "en_state en1 = en_state en" and "en_secrets en1 = en_secrets en" and "last_seq ops en \<le> last_seq ops en1"
    and "map ev_data es' = map ev_data es"
proof -
  have "en1 = en\<lparr>en_store := en_store en1\<rparr>" using assms by (simp add: appended_def)
  then show "en_state en1 = en_state en" "en_secrets en1 = en_secrets en"
    by (metis engine.select_convs(1,3) engine.surjective engine.update_convs(2))+
qed (use assms in \<open>simp_all add: appended_def\<close>)

lemma advances_refl: "engine_inv ops inv en \<Longrightarrow> advances C ops log inv en en"
  by (rule advances_same) (simp_all add: engine_inv_def state_ok_def)

text \<open>One append and what follows it under the lock.\<close>

lemma op_advances:
  assumes "engine_inv ops inv en" and "room ops en" and "length es \<le> 2 ^ 32"
    and "\<And>en1 e. store_append ops clk es en = (en1, Inl e) \<Longrightarrow> en' = en1"
    and "\<And>en1 es'. store_append ops clk es en = (en1, Inr es') \<Longrightarrow> appended es es' en en1 \<Longrightarrow>
      en_store en' = en_store en1 \<and> project_all C es' (eng_view en) = Some (eng_view en') \<and>
      state_ok (last_seq ops en1) (en_state en') \<and> secrets_ok en'"
  shows "advances C ops log inv en en'"
proof -
  have i: "inv (en_store en)" using assms(1) by (simp add: engine_inv_def)
  obtain en1 r where a: "store_append ops clk es en = (en1, r)" by (cases "store_append ops clk es en")
  show ?thesis
  proof (cases r)
    case (Inl e)
    then show ?thesis using advances_failed [OF assms(1-3), of clk en1 e C] a assms(4) by simp
  next
    case (Inr es')
    have ap: "appended es es' en en1" using store_append_ok [OF i assms(2,3)] a Inr by simp
    with assms(5) [of en1 es'] a Inr have "en_store en' = en_store en1"
      "project_all C es' (eng_view en) = Some (eng_view en')" "state_ok (last_seq ops en1) (en_state en')" "secrets_ok en'"
      by simp_all
    then show ?thesis by (intro advances_events [OF assms(1) ap]) simp_all
  qed
qed

section \<open>The registry\<close>

lemma register_advances:
  assumes "collab_ok C" and "engine_inv ops inv en" and "room ops en" and "pc_status cfg = Active"
    and "register_pair_with_event C ops clk now pair cfg en = (en', r)"
  shows "advances C ops log inv en en'"
proof (cases "\<exists>key. pair_parse pair = Inr key \<and> hm_get (es_pair_tokens (en_state en)) key = None")
  case False
  then have "en' = en" using assms(5)
    by (auto simp: register_pair_with_event_def split: sum.splits if_splits option.splits)
  then show ?thesis using assms(2) by (simp add: advances_refl)
next
  case True
  then obtain key where k: "pair_parse pair = Inr key" "hm_get (es_pair_tokens (en_state en)) key = None" by blast
  have i: "state_ok (last_seq ops en) (en_state en)" "secrets_ok en" using assms(2) by (simp_all add: engine_inv_def)
  show ?thesis
  proof (rule op_advances [OF assms(2,3)])
    fix en1 e
    assume "store_append ops clk [event_at now (pair_registered_event C key cfg)] en = (en1, Inl e)"
    then show "en' = en1" using assms(5) k by (simp add: register_pair_with_event_def)
  next
    fix en1 es
    assume s: "store_append ops clk [event_at now (pair_registered_event C key cfg)] en = (en1, Inr es)"
      and a: "appended [event_at now (pair_registered_event C key cfg)] es en en1"
    have e': "en' = register_pair_without_event key cfg en1"
      using assms(5) k s by (simp add: register_pair_with_event_def)
    note f = appended_facts [OF a]
    from f(4) obtain e where e: "es = [e]" "ev_data e = pair_registered_event C key cfg"
      by (auto simp: event_at_def new_event_def)
    have st: "eng_view en' = (eng_view en)\<lparr>v_pairs := (v_pairs (eng_view en))(key \<mapsto> logged cfg)\<rparr>"
      "eng_book en' = eng_book en" "hm_ok (es_pair_tokens (en_state en'))"
      using i(1) by (auto simp: e' register_pair_without_event_def f(1) view_pairs state_ok_def)
    have "\<forall>a. co_addr_parse C (co_addr_hex C a) = Some a" using assms(1) by (simp add: collab_ok_def)
    note lr = logged_replayed [OF this assms(4)]
    have "project_all C es (eng_view en) = Some (eng_view en')"
      by (simp add: e project_def pair_registered_event_def st(1) lr canonical_key [OF k(1)])
    moreover have "view_ok (last_seq ops en1) (eng_view en')"
    proof (rule view_ok_pairs [of "last_seq ops en" "eng_view en"])
      have "v_pairs (eng_view en) key = None" using k(2) by (simp add: view_def)
      then show "\<exists>cfg'. v_pairs (eng_view en') (order_pair ord) = Some cfg' \<and> pc_status cfg' \<noteq> Delisted"
        if "v_pairs (eng_view en) (order_pair ord) = Some c" "pc_status c \<noteq> Delisted" for ord c
        using that by (auto simp: st(1))
    qed (use i(1) f(3) in \<open>simp_all add: state_ok_def st(1)\<close>)
    ultimately show "en_store en' = en_store en1 \<and> project_all C es (eng_view en) = Some (eng_view en') \<and>
        state_ok (last_seq ops en1) (en_state en') \<and> secrets_ok en'"
      using i f st by (auto simp: state_ok_def secrets_ok_def e' register_pair_without_event_def)
  qed simp
qed

lemma suspend_advances:
  assumes "engine_inv ops inv en" and "room ops en" and "suspend_pair ops clk now pair en = (en', r)"
  shows "advances C ops log inv en en'"
proof (cases "\<exists>key cfg. pair_parse pair = Inr key \<and> hm_get (es_pair_tokens (en_state en)) key = Some cfg \<and> pc_status cfg = Active")
  case False
  then have "en' = en" using assms(3)
    by (auto simp: suspend_pair_def split: sum.splits option.splits pair_status.splits)
  then show ?thesis using assms(1) by (simp add: advances_refl)
next
  case True
  then obtain key cfg where k: "pair_parse pair = Inr key" "hm_get (es_pair_tokens (en_state en)) key = Some cfg"
    "pc_status cfg = Active" by blast
  have i: "state_ok (last_seq ops en) (en_state en)" "secrets_ok en" using assms(1) by (simp_all add: engine_inv_def)
  show ?thesis
  proof (rule op_advances [OF assms(1,2)])
    fix en1 e
    assume "store_append ops clk [event_at now (PairSuspended key)] en = (en1, Inl e)"
    then show "en' = en1" using assms(3) k by (simp add: suspend_pair_def)
  next
    fix en1 es
    assume s: "store_append ops clk [event_at now (PairSuspended key)] en = (en1, Inr es)"
      and a: "appended [event_at now (PairSuspended key)] es en en1"
    have e': "en' = en1\<lparr>en_state := set_pair_status key Suspended (en_state en1)\<rparr>"
      using assms(3) k s by (simp add: suspend_pair_def)
    note f = appended_facts [OF a]
    from f(4) obtain e where e: "es = [e]" "ev_data e = PairSuspended key" by (auto simp: event_at_def new_event_def)
    have "project_all C es (eng_view en) = Some (eng_view en')"
      using canonical_key [OF k(1)] by (simp add: e project_def e' f(1) view_set_pair_status Let_def)
    moreover have "view_ok (last_seq ops en1) (eng_view en')"
      using view_ok_set_status [of "last_seq ops en" "eng_view en" "last_seq ops en1" Suspended key] i(1) f(3)
      by (simp add: state_ok_def e' f(1) view_set_pair_status)
    ultimately show "en_store en' = en_store en1 \<and> project_all C es (eng_view en) = Some (eng_view en') \<and>
        state_ok (last_seq ops en1) (en_state en') \<and> secrets_ok en'"
      using i f by (auto simp: state_ok_def secrets_ok_def e' hm_ok_set_pair_status)
  qed simp
qed

text \<open>Cancelling the open orders of a pair and delisting it, as one append.\<close>

lemma delist_success:
  assumes "state_ok (last_seq ops en) (en_state en)" and "canonicalise_replayed_pair key = key"
  defines "ids \<equiv> order_ids_for (eng_book en) key"
  assumes "appended (delist_events now ids key) es en en1"
  obtains b where "apply_events C es en1 = Some (en1\<lparr>en_state := (en_state en)\<lparr>es_book := b\<rparr>\<rparr>)"
    and "project_all C es (eng_view en) = Some (view (set_pair_status key Delisted ((en_state en)\<lparr>es_book := b\<rparr>)))"
    and "state_ok (last_seq ops en1) (set_pair_status key Delisted ((en_state en)\<lparr>es_book := b\<rparr>))"
    and "find_order b = without (set ids) (find_order (eng_book en))"
proof -
  let ?l = "without (set ids) (find_order (eng_book en))"
  let ?C = "map (\<lambda>i. OrderCancelled i ''pair delisted'') ids"
  have ok: "book_ok (eng_book en)" "hm_ok (es_pair_tokens (en_state en))" "view_ok (last_seq ops en) (eng_view en)"
    using assms(1) by (simp_all add: state_ok_def)
  note f = appended_facts [OF assms(4)]
  have d: "map ev_data (delist_events now ids key) = ?C @ [PairDelisted key]"
    by (simp add: delist_events_def event_at_def new_event_def)
  have "seq_opt (order_effect (co_dec C)) (?C @ [PairDelisted key]) (find_order (eng_book en)) = Some ?l"
    by (simp add: seq_opt_append seq_opt_cancels order_effect_def)
  then obtain b where b: "apply_events C es en1 = Some (en1\<lparr>en_state := (en_state en1)\<lparr>es_book := b\<rparr>\<rparr>)"
    "book_ok b" "find_order b = ?l" "book_seq b \<le> last_seq ops en1"
    using apply_appended [OF assms(1,4), of en1 "es_auction_log (en_state en1)" C ?l] d by auto
  from f(4) obtain xs e where xs: "es = xs @ [e]" "map ev_data xs = ?C" "ev_data e = PairDelisted key"
    unfolding d by (auto simp: map_eq_append_conv)
  have v: "view (set_pair_status key Delisted ((en_state en)\<lparr>es_book := b\<rparr>)) = (eng_view en)\<lparr>v_orders := ?l,
      v_pairs := (v_pairs (eng_view en))(key := map_option (pc_status_update (\<lambda>_. Delisted)) (v_pairs (eng_view en) key))\<rparr>"
    by (simp add: view_set_pair_status view_book b(3))
  have "list_all order_event (map ev_data xs)" unfolding xs(2) by (simp add: list_all_iff)
  then have "list_all (\<lambda>e. order_event (ev_data e)) xs" by (simp add: list_all_iff)
  then have "project_all C xs (eng_view en) = Some ((eng_view en)\<lparr>v_orders := ?l\<rparr>)"
    by (simp add: project_all_orders xs(2) seq_opt_cancels) (simp add: view_def)
  then have p: "project_all C es (eng_view en) = Some (view (set_pair_status key Delisted ((en_state en)\<lparr>es_book := b\<rparr>)))"
    by (simp add: xs(1) project_all_append project_def xs(3) assms(2) Let_def v)
  have "view_ok (last_seq ops en1) ((eng_view en)\<lparr>v_orders := ?l\<rparr>)"
    using view_ok_without [OF ok(3) f(3), of "set ids"] by (simp add: view_def)
  moreover have "order_pair ord \<noteq> key" if "?l i = Some ord" for i ord
    using that set_order_ids_for(1) [OF ok(1), of key] by (auto simp: without_def ids_def split: if_splits)
  ultimately have "view_ok (last_seq ops en1) (view (set_pair_status key Delisted ((en_state en)\<lparr>es_book := b\<rparr>)))"
    using view_ok_set_status [of "last_seq ops en1" "(eng_view en)\<lparr>v_orders := ?l\<rparr>" "last_seq ops en1" Delisted key]
    by (simp add: v)
  with b ok(2) have "state_ok (last_seq ops en1) (set_pair_status key Delisted ((en_state en)\<lparr>es_book := b\<rparr>))"
    by (simp add: state_ok_def hm_ok_set_pair_status)
  with b p f(1) show ?thesis by (intro that [of b]) simp_all
qed

lemma store_append_no_panic: "store_append ops clk es en \<noteq> (en', Inl EnginePanic)"
  by (simp add: store_append_def split: prod.split sum.split)

lemma delist_advances:
  assumes "engine_inv ops inv en" and "room ops en" and "delist_locked C ops clk now pair en = (en', r)"
  shows "advances C ops log inv en en'" and "r \<noteq> Inl EnginePanic"
proof -
  let ?P = "advances C ops log inv en en' \<and> r \<noteq> Inl EnginePanic"
  have ?P
  proof (cases "\<exists>key cfg. pair_parse pair = Inr key \<and> hm_get (es_pair_tokens (en_state en)) key = Some cfg \<and> pc_status cfg \<noteq> Delisted")
    case False
    then have "en' = en" "r \<noteq> Inl EnginePanic" using assms(3)
      by (auto simp: delist_locked_def split: sum.splits option.splits pair_status.splits)
    then show ?thesis using assms(1) by (simp add: advances_refl)
  next
    case True
    then obtain key cfg where k: "pair_parse pair = Inr key" "hm_get (es_pair_tokens (en_state en)) key = Some cfg"
      "pc_status cfg \<noteq> Delisted" by blast
    have i: "state_ok (last_seq ops en) (en_state en)" "secrets_ok en" using assms(1) by (simp_all add: engine_inv_def)
    let ?ids = "order_ids_for (eng_book en) key" let ?es = "delist_events now ?ids key"
    have len: "length ?es \<le> 2 ^ 32"
      using set_order_ids_for(2) [of "eng_book en" key] book_length [OF i(1)] i(1)
      by (simp add: delist_events_def MAX_ACTIVE_ORDERS_def state_ok_def)
    have eq: "(en', r) = (case store_append ops clk ?es en of
        (en', Inl e) \<Rightarrow> (en', Inl e)
      | (en', Inr es) \<Rightarrow> (case apply_events C es en' of
           None \<Rightarrow> (en', Inl EnginePanic)
         | Some en2 \<Rightarrow> (en2\<lparr>en_state := set_pair_status key Delisted (en_state en2)\<rparr>, Inr ?ids)))"
      using k assms(3) by (cases "pc_status cfg") (simp_all add: delist_locked_def Let_def)
    have suc: "en_store en' = en_store en1 \<and> project_all C es (eng_view en) = Some (eng_view en') \<and>
        state_ok (last_seq ops en1) (en_state en') \<and> secrets_ok en' \<and> r = Inr ?ids"
      if s: "store_append ops clk ?es en = (en1, Inr es)" and a: "appended ?es es en en1" for en1 es
      by (rule delist_success [OF i(1) canonical_key [OF k(1)] a, of C])
        (use eq s i(2) appended_facts [OF a] in \<open>auto simp: secrets_ok_def without_def\<close>)
    have "r \<noteq> Inl EnginePanic"
      using eq suc store_append_no_panic [of clk ?es en] store_append_ok [OF _ assms(2) len] assms(1)
      by (auto simp: engine_inv_def split: prod.splits sum.splits)
    moreover have "advances C ops log inv en en'"
      by (rule op_advances [OF assms(1,2) len]) (use suc eq in auto)
    ultimately show ?thesis by simp
  qed
  then show "advances C ops log inv en en'" and "r \<noteq> Inl EnginePanic" by simp_all
qed

section \<open>Orders leave the book\<close>

text \<open>Events that only shrink the table of orders, appended and applied.\<close>

lemma order_events_applied:
  assumes "state_ok (last_seq ops en) (en_state en)" and "appended es es' en en1" and "list_all order_event (map ev_data es)"
    and "seq_opt (order_effect (co_dec C)) (map ev_data es) (find_order (eng_book en)) = Some l"
    and "shrinks (find_order (eng_book en)) l"
  obtains b where "apply_events C es' en1 = Some (en1\<lparr>en_state := (en_state en)\<lparr>es_book := b\<rparr>\<rparr>)"
    and "project_all C es' (eng_view en) = Some (view ((en_state en)\<lparr>es_book := b\<rparr>))"
    and "state_ok (last_seq ops en1) ((en_state en)\<lparr>es_book := b\<rparr>)" and "find_order b = l"
proof -
  note f = appended_facts [OF assms(2)]
  obtain b where b: "apply_events C es' en1 = Some (en1\<lparr>en_state := (en_state en1)\<lparr>es_book := b\<rparr>\<rparr>)"
    "book_ok b" "find_order b = l" "book_seq b \<le> last_seq ops en1"
    using apply_appended [OF assms(1,2), of en1 "es_auction_log (en_state en1)" C l] assms(4) by auto
  have v: "view ((en_state en)\<lparr>es_book := b\<rparr>) = (eng_view en)\<lparr>v_orders := l\<rparr>" by (simp add: view_book b(3))
  have "list_all order_event (map ev_data es')" unfolding f(4) by (rule assms(3))
  then have "list_all (\<lambda>e. order_event (ev_data e)) es'" by (simp add: list_all_iff)
  then have p: "project_all C es' (eng_view en) = Some (view ((en_state en)\<lparr>es_book := b\<rparr>))"
    using assms(4) f(4) by (simp add: project_all_orders v) (simp add: view_def)
  have "view_ok (last_seq ops en1) (view ((en_state en)\<lparr>es_book := b\<rparr>))"
    by (rule view_ok_shrink [of "last_seq ops en" "eng_view en" l]) (use assms(1,5) f(3) in \<open>simp_all add: state_ok_def v view_orders\<close>)
  with b assms(1) have "state_ok (last_seq ops en1) ((en_state en)\<lparr>es_book := b\<rparr>)" by (simp add: state_ok_def)
  with b p f(1) show ?thesis by (intro that [of b]) simp_all
qed

lemma shrinks_without: "state_ok n s \<Longrightarrow> shrinks (find_order (es_book s)) (without I (find_order (es_book s)))"
  using shrinks_remove [of n "view s" "without I (find_order (es_book s))"] by (simp add: state_ok_def view_orders)

lemma cancel_advances:
  assumes "engine_inv ops inv en" and "room ops en" and "cancel_locked C ops clk now i reason en = (en', r)"
  shows "advances C ops log inv en en'" and "r \<noteq> Inl EnginePanic"
proof -
  let ?es = "[event_at now (OrderCancelled i (case reason of None \<Rightarrow> ''user cancelled'' | Some r \<Rightarrow> r))]"
  have st: "state_ok (last_seq ops en) (en_state en)" "secrets_ok en" "inv (en_store en)"
    using assms(1) by (simp_all add: engine_inv_def)
  show "advances C ops log inv en en'" "r \<noteq> Inl EnginePanic"
  proof -
    have suc: "en_store en' = en_store en1 \<and> project_all C es (eng_view en) = Some (eng_view en') \<and>
        state_ok (last_seq ops en1) (en_state en') \<and> secrets_ok en' \<and> r = Inr ()"
      if h: "has_order (eng_book en) i" and s: "store_append ops clk ?es en = (en1, Inr es)" and a: "appended ?es es en en1" for en1 es
    proof (rule order_events_applied [OF st(1) a _ _ shrinks_without [OF st(1), of "{i}"], of C])
      show "seq_opt (order_effect (co_dec C)) (map ev_data ?es) (find_order (eng_book en)) =
          Some (without {i} (find_order (eng_book en)))"
        by (simp add: event_at_def new_event_def order_effect_def without_def fun_eq_iff)
      fix b
      assume b: "apply_events C es en1 = Some (en1\<lparr>en_state := (en_state en)\<lparr>es_book := b\<rparr>\<rparr>)"
        "project_all C es (eng_view en) = Some (view ((en_state en)\<lparr>es_book := b\<rparr>))"
        "state_ok (last_seq ops en1) ((en_state en)\<lparr>es_book := b\<rparr>)" "find_order b = without {i} (find_order (eng_book en))"
      have e': "en' = en1\<lparr>en_state := (en_state en)\<lparr>es_book := b\<rparr>\<rparr>" "r = Inr ()"
        using h s b(1) assms(3) by (simp_all add: cancel_locked_def Let_def)
      have "secrets_ok en'"
        by (rule secrets_shrink [OF st(2)]) (simp_all add: e' b(4) appended_facts [OF a] shrinks_without [OF st(1)])
      with b e' show ?thesis by simp
    qed (simp add: event_at_def new_event_def)
    show "advances C ops log inv en en'"
    proof (cases "has_order (eng_book en) i")
      case True
      then show ?thesis
        by (intro op_advances [OF assms(1,2), of ?es clk]) (use suc assms(3) in \<open>auto simp: cancel_locked_def Let_def\<close>)
    qed (use assms in \<open>auto simp: cancel_locked_def intro: advances_refl\<close>)
    show "r \<noteq> Inl EnginePanic"
      using assms(3) suc store_append_no_panic [of clk ?es en] store_append_ok [OF st(3) assms(2), of ?es clk]
      by (auto simp: cancel_locked_def Let_def split: prod.splits sum.splits if_splits)
  qed
qed

lemma expiry_data:
  "map ev_data (expiry_events now b) = map OrderExpired (map order_id (filter (\<lambda>ord. expires_at ord \<noteq> 0 \<and> expires_at ord \<le> now) (iter_all b)))"
  by (simp add: expiry_events_def collect_expired_flat new_event_def)

lemma expire_advances:
  assumes "engine_inv ops inv en" and "room ops en"
  shows "\<exists>en'. tick_expire C ops clk now en = Some en' \<and> advances C ops log inv en en'"
proof (cases "expiry_events now (eng_book en) = []")
  case True
  then show ?thesis using advances_refl [OF assms(1)] by (simp add: tick_expire_def)
next
  case False
  let ?es = "expiry_events now (eng_book en)"
  let ?I = "set (map order_id (filter (\<lambda>ord. expires_at ord \<noteq> 0 \<and> expires_at ord \<le> now) (iter_all (eng_book en))))"
  have st: "state_ok (last_seq ops en) (en_state en)" "secrets_ok en" "inv (en_store en)"
    using assms(1) by (simp_all add: engine_inv_def)
  have "length ?es \<le> length (iter_all (eng_book en))" by (simp add: expiry_events_def collect_expired_flat)
  then have len: "length ?es \<le> 2 ^ 32" using book_length [OF st(1)] by (simp add: MAX_ACTIVE_ORDERS_def)
  obtain en1 r where a: "store_append ops clk ?es en = (en1, r)" by (cases "store_append ops clk ?es en")
  show ?thesis
  proof (cases r)
    case (Inl e)
    then show ?thesis using a False advances_failed [OF assms len] by (simp add: tick_expire_def)
  next
    case (Inr es)
    have ap: "appended ?es es en en1" using store_append_ok [OF st(3) assms(2) len] a Inr by simp
    have eff: "seq_opt (order_effect (co_dec C)) (map ev_data ?es) (find_order (eng_book en)) = Some (without ?I (find_order (eng_book en)))"
      unfolding expiry_data by (rule seq_opt_cancels(2))
    have oe: "list_all order_event (map ev_data ?es)" unfolding expiry_data by (simp add: list_all_iff)
    obtain b where b: "apply_events C es en1 = Some (en1\<lparr>en_state := (en_state en)\<lparr>es_book := b\<rparr>\<rparr>)"
      "project_all C es (eng_view en) = Some (view ((en_state en)\<lparr>es_book := b\<rparr>))"
      "state_ok (last_seq ops en1) ((en_state en)\<lparr>es_book := b\<rparr>)" "find_order b = without ?I (find_order (eng_book en))"
      by (rule order_events_applied [OF st(1) ap oe eff shrinks_without [OF st(1)]])
    let ?en = "en1\<lparr>en_state := (en_state en)\<lparr>es_book := b\<rparr>\<rparr>"
    have "secrets_ok ?en"
      by (rule secrets_shrink [OF st(2)]) (simp_all add: b(4) appended_facts [OF ap] shrinks_without [OF st(1)])
    then have "advances C ops log inv en ?en" by (intro advances_events [OF assms(1) ap]) (simp_all add: b)
    then show ?thesis using b(1) a Inr False by (simp add: tick_expire_def)
  qed
qed

section \<open>Orders join the book\<close>

lemma persist_guard_None:
  assumes "persist_guard C s ord ct rp = None" and "book_ok (es_book s)"
  shows "\<exists>cfg. hm_get (es_pair_tokens s) (order_pair ord) = Some cfg \<and> pc_status cfg = Active"
    and "ciphertext_digest C ct \<notin> set (es_seen_ciphertexts s)" and "rp_nullifier rp \<notin> set (es_spent_nullifiers s)"
    and "rp_order_nonce_digest rp \<notin> set (es_spent_order_nonces s)"
    and "card (dom (find_order (es_book s))) < MAX_ACTIVE_ORDERS"
    and "card (trader_orders (find_order (es_book s)) (trader ord)) < MAX_ACTIVE_ORDERS_PER_TRADER"
  using assms(1) active_order_count_card [OF assms(2)] active_order_count_for_trader_card [OF assms(2)]
  by (auto simp: persist_guard_def ensure_order_capacity_def pair_config_of_def split: option.splits if_splits pair_status.splits)

lemma admit_success:
  assumes "state_ok (last_seq ops en) (en_state en)" and "secrets_ok en"
    and "appended [event_at now (OrderPlaced i c pf ct)] es en en1" and "now \<noteq> 0"
    and "\<And>sq. placed_as C ct i now sq = Some (ord\<lparr>order_seq := sq\<rparr>, rp, c)"
    and "order_id ord = i" and "0 < price ord" and "encodable (price ord)" and "0 < remaining_size ord"
    and "remaining_size ord = order_size ord" and "encodable (remaining_size ord)"
    and "find_order (eng_book en) i = None" and "persist_guard C (en_state en) ord ct rp = None"
  obtains b where "apply_events C es en1 = Some (en1\<lparr>en_state := (en_state en)\<lparr>es_book := b\<rparr>\<rparr>)"
    and "project_all C es (eng_view en) =
      Some (view (admit_order C (ord\<lparr>order_seq := ev_seq (hd es)\<rparr>) ct rp ((en_state en)\<lparr>es_book := b\<rparr>)))"
    and "state_ok (last_seq ops en1) (admit_order C (ord\<lparr>order_seq := ev_seq (hd es)\<rparr>) ct rp ((en_state en)\<lparr>es_book := b\<rparr>))"
    and "find_order (es_book (admit_order C (ord\<lparr>order_seq := ev_seq (hd es)\<rparr>) ct rp ((en_state en)\<lparr>es_book := b\<rparr>))) =
      (find_order (eng_book en))(i \<mapsto> ord\<lparr>order_seq := ev_seq (hd es)\<rparr>)"
proof -
  have ok: "book_ok (eng_book en)" "hm_ok (es_pair_tokens (en_state en))" "view_ok (last_seq ops en) (eng_view en)"
    using assms(1) by (simp_all add: state_ok_def)
  note f = appended_facts [OF assms(3)] and g = persist_guard_None [OF assms(13) ok(1)]
  from f(4) assms(3,4) obtain e where e: "es = [e]" "ev_data e = OrderPlaced i c pf ct" "ev_timestamp e = now"
    "last_seq ops en < ev_seq e" "ev_seq e \<le> last_seq ops en1"
    by (auto simp: appended_def event_at_def new_event_def)
  obtain b where b: "apply_events C es en1 = Some (en1\<lparr>en_state := (en_state en1)\<lparr>es_book := b\<rparr>\<rparr>)"
    "book_ok b" "find_order b = find_order (eng_book en)" "book_seq b \<le> last_seq ops en1"
    using apply_appended [OF assms(1,3), of en1 "es_auction_log (en_state en1)" C "find_order (eng_book en)"]
    by (auto simp: event_at_def new_event_def order_effect_def)
  let ?o = "ord\<lparr>order_seq := ev_seq e\<rparr>" let ?s = "(en_state en)\<lparr>es_book := b\<rparr>"
  have fresh: "find_order (es_book ?s) (order_id ?o) = None" "book_ok (es_book ?s)" "0 < remaining_size ?o"
    using assms(6,9,12) b by simp_all
  note a = admit_book [OF fresh(2,1,3), of C ct rp]
  from g(1) obtain cfg where cfg: "v_pairs (eng_view en) (order_pair ord) = Some cfg" "pc_status cfg = Active"
    by (auto simp: view_def)
  have v: "view ?s = eng_view en" by (simp add: view_book b(3)) (simp add: view_def)
  have p: "project_all C es (eng_view en) = Some (view (admit_order C ?o ct rp ?s))"
    unfolding a(3) v using assms(9,12) cfg(1) by (simp add: e project_def assms(5,6)) (simp add: view_orders)
  have "view_ok (last_seq ops en1) (view (admit_order C ?o ct rp ?s))"
    by (rule view_ok_insert [OF ok(3), where i = i and m = "ev_seq e" and ord = ?o])
      (use g e(4,5) assms(6-12) cfg in \<open>simp_all add: a(3) v view_orders resting_ok_def\<close>)
  then have "state_ok (last_seq ops en1) (admit_order C ?o ct rp ?s)"
    using a(1,2) b(4) ok(2) by (simp add: state_ok_def) (simp add: admit_order_def)
  moreover have "find_order (es_book (admit_order C ?o ct rp ?s)) = (find_order (eng_book en))(i \<mapsto> ?o)"
    using a(3) by (simp flip: view_orders add: v assms(6))
  ultimately show ?thesis using b(1) f(1) p by (intro that [of b]) (simp_all add: e(1))
qed

lemma place_advances:
  assumes "collab_ok C" and "engine_inv ops inv en" and "room ops en"
    and "place_precheck C s ct caller = Inr (d, key)" and "place_build C d key spend pf ct i now = Inr (ord, sec, rp)"
    and "find_order (eng_book en) i = None" and "now \<noteq> 0"
    and "persist_order_placed C ops clk ord sec (os_commitment sec) pf ct rp en = (en', r)"
  shows "advances C ops log inv en en'" and "r \<noteq> Inl EnginePanic"
proof -
  have st: "state_ok (last_seq ops en) (en_state en)" "secrets_ok en" "inv (en_store en)"
    using assms(2) by (simp_all add: engine_inv_def)
  note p = place_placed_as [OF assms(1,4,5)]
  let ?es = "[event_at now (OrderPlaced i (os_commitment sec) pf ct)]"
  have "advances C ops log inv en en' \<and> r \<noteq> Inl EnginePanic"
  proof (cases "persist_guard C (en_state en) ord ct rp")
    case (Some e)
    then have "en' = en" "r \<noteq> Inl EnginePanic"
      using assms(8) by (auto simp: persist_order_placed_def persist_guard_def ensure_order_capacity_def
          split: option.splits pair_status.splits if_splits)
    then show ?thesis using assms(2) by (simp add: advances_refl)
  next
    case None
    note eq = assms(8) [unfolded persist_order_placed_def None option.case p(2,3) Let_def]
    have suc: "en_store en' = en_store en1 \<and> project_all C es (eng_view en) = Some (eng_view en') \<and>
        state_ok (last_seq ops en1) (en_state en') \<and> secrets_ok en' \<and> r \<noteq> Inl EnginePanic"
      if s: "store_append ops clk ?es en = (en1, Inr es)" and a: "appended ?es es en en1" for en1 es
      by (rule admit_success [OF st(1,2) a assms(7) p(1,2,4,5,6,7,8) assms(6) None])
        (use eq s st(2) appended_facts [OF a] p(2) in \<open>auto simp: secrets_ok_def hm_get_insert\<close>)
    have "r \<noteq> Inl EnginePanic"
      using eq suc store_append_no_panic [of clk ?es en] store_append_ok [OF st(3) assms(3), of ?es clk]
      by (auto split: prod.splits sum.splits)
    moreover have "advances C ops log inv en en'"
      by (rule op_advances [OF assms(2,3), of ?es clk]) (use suc eq in auto)
    ultimately show ?thesis by simp
  qed
  then show "advances C ops log inv en en'" and "r \<noteq> Inl EnginePanic" by simp_all
qed

end

end
