(* ===== verification/EngineRuns.thy ===== *)
theory EngineRuns
  imports EngineSteps
begin

text \<open>
  Auction rounds and batches keep the invariant; then the step relation of the engine, its
  reachable states, and what holds in all of them.
\<close>

section \<open>The fills of a round on the table of orders\<close>

context order_table
begin

lemma fills_lookup: "ok t \<Longrightarrow> map_option lookup (seq_opt fil fs t) = seq_opt (fill_lookup D) fs (lookup t)"
proof (induction fs arbitrary: t)
  case (Cons f fs)
  show ?case
  proof (cases "fil f t")
    case None
    then show ?thesis using fil_law [OF Cons.prems, of f] by simp
  next
    case (Some t')
    then have "fill_lookup D f (lookup t) = Some (lookup t')" using fil_law [OF Cons.prems, of f] by simp
    with Some Cons.IH [OF fil_ok [OF Cons.prems Some]] show ?thesis by simp
  qed
qed simp

end

definition match_fills :: "auction_match list \<Rightarrow> fill list" where
  "match_fills ms = concat (map (\<lambda>m. [m_bid m, m_ask m]) ms)"

lemma order_effect_matched:
  "order_effect D (OrderMatched aid x y p sz) l = do { l' \<leftarrow> fill_lookup D x l; fill_lookup D y l' }"
  by (simp add: order_effect_def)

lemma seq_opt_matched:
  "seq_opt (order_effect D) (map (\<lambda>m. OrderMatched aid (m_bid m) (m_ask m) (m_price m) (m_size m)) ms) l =
   seq_opt (fill_lookup D) (match_fills ms) l"
proof (induction ms arbitrary: l)
  case (Cons m ms)
  have "seq_opt (fill_lookup D) (match_fills (m # ms)) l =
      do { l1 \<leftarrow> fill_lookup D (m_bid m) l; l2 \<leftarrow> fill_lookup D (m_ask m) l1; seq_opt (fill_lookup D) (match_fills ms) l2 }"
    by (cases "fill_lookup D (m_bid m) l") (simp_all add: match_fills_def)
  moreover have "seq_opt (order_effect D) (map (\<lambda>m. OrderMatched aid (m_bid m) (m_ask m) (m_price m) (m_size m)) ms) =
      seq_opt (fill_lookup D) (match_fills ms)" using Cons.IH by (rule ext)
  ultimately show ?case by (simp add: order_effect_matched)
qed (simp add: match_fills_def)

lemma total_match_fills:
  assumes "\<forall>m\<in>set ms. fill_size (m_bid m) = m_size m \<and> fill_size (m_ask m) = m_size m"
  shows "total_fills (match_fills ms) i = bid_fills ms i + ask_fills ms i"
  using assms by (induction ms) (auto simp: total_fills_def match_fills_def bid_fills_def ask_fills_def)

lemma auction_inputs:
  fixes p :: string
  assumes "state_ok n s"
  defines "bids \<equiv> book_bids (es_book s) p" and "asks \<equiv> book_asks (es_book s) p"
  shows "auction_input_ok bids asks" and "distinct (map order_id bids)" and "distinct (map order_id asks)"
    and "\<And>ord. ord \<in> set bids \<Longrightarrow> find_order (es_book s) (order_id ord) = Some ord \<and> order_side ord = Buy"
    and "\<And>ord. ord \<in> set asks \<Longrightarrow> find_order (es_book s) (order_id ord) = Some ord \<and> order_side ord = Sell"
proof -
  have ok: "book_ok (es_book s)" using assms(1) by (simp add: state_ok_def)
  note b = book_sides_facts [OF ok, of p]
  show "distinct (map order_id bids)" "distinct (map order_id asks)" using b(5,6) by (simp_all add: bids_def asks_def)
  show fb: "find_order (es_book s) (order_id ord) = Some ord \<and> order_side ord = Buy" if "ord \<in> set bids" for ord
    using that b(1) by (simp add: bids_def)
  show fa: "find_order (es_book s) (order_id ord) = Some ord \<and> order_side ord = Sell" if "ord \<in> set asks" for ord
    using that b(2) by (simp add: asks_def)
  have enc: "encodable_order ord" if "find_order (es_book s) i = Some ord" for i ord
    using that assms(1) by (auto simp: state_ok_def view_ok_def view_orders resting_ok_def encodable_order_def)
  have "length (filter P xs) + length (filter Q xs) \<le> length xs" if "\<And>x. P x \<Longrightarrow> \<not> Q x" for P Q and xs :: "order list"
    using that by (induction xs) auto
  from this [of "\<lambda>ord. order_pair ord = p \<and> order_side ord = Buy" "\<lambda>ord. order_pair ord = p \<and> order_side ord = Sell" "iter_all (es_book s)"]
  have "length bids + length asks \<le> length (iter_all (es_book s))"
    by (simp add: bids_def asks_def book_sides [OF ok] sort_bids_def sort_asks_def)
  then have "length bids + length asks \<le> 16384" using book_length [OF assms(1)] by (simp add: MAX_ACTIVE_ORDERS_def)
  then show "auction_input_ok bids asks" using fa fb enc unfolding auction_input_ok_def list_all_iff by blast
qed

lemma fills_multiple:
  assumes "\<forall>m\<in>set ms. is_multiple 8 (m_size m)"
  shows "is_multiple 8 (bid_fills ms i)" and "is_multiple 8 (ask_fills ms i)"
proof -
  have "is_multiple 8 (sum_list (map m_size (filter P ms)))" for P
    using assms by (induction ms) (auto intro: is_multiple_add)
  then show "is_multiple 8 (bid_fills ms i)" and "is_multiple 8 (ask_fills ms i)" by (simp_all add: bid_fills_def ask_fills_def)
qed

text \<open>An order trades on its own side only, and within what it has left.\<close>

lemma round_bound:
  assumes "dec_exact D" and "state_ok n s" and "run D aid p (book_bids (es_book s) p) (book_asks (es_book s) p) = Some (Some r)"
    and "find_order (es_book s) i = Some ord"
  shows "bid_fills (matches r) i + ask_fills (matches r) i \<le> remaining_size ord"
proof -
  let ?bids = "book_bids (es_book s) p" let ?asks = "book_asks (es_book s) p"
  have ok: "book_ok (es_book s)" using assms(2) by (simp add: state_ok_def)
  note a = auction_inputs [OF assms(2), where p = p] and side = book_sides_facts(1,2) [OF ok, of p]
  note pr = proper_match_ids(1,2) [OF run_proper [OF assms(1) a(1) assms(3) a(3)]]
  note rf = run_fills(3,4) [OF assms(1) a(1) assms(3) a(2,3)]
  have id: "order_id ord = i" and pos: "0 < remaining_size ord" using bk.entry_law [OF ok assms(4)] by simp_all
  have nb: "bid_fills (matches r) i = 0" if "ord \<notin> set ?bids"
    using pr(1) a(4) that assms(4) by (intro fills_other(1)) fastforce
  have na: "ask_fills (matches r) i = 0" if "ord \<notin> set ?asks"
    using pr(2) a(5) that assms(4) by (intro fills_other(2)) fastforce
  have "ord \<notin> set ?bids \<or> ord \<notin> set ?asks" using a(4,5) by fastforce
  then show ?thesis
  proof
    assume "ord \<notin> set ?bids"
    then show ?thesis using nb na rf(2) [of ord] pos id by (cases "ord \<in> set ?asks") simp_all
  next
    assume "ord \<notin> set ?asks"
    then show ?thesis using nb na rf(1) [of ord] pos id by (cases "ord \<in> set ?bids") simp_all
  qed
qed

lemma shrinks_debit:
  assumes "\<And>i. 0 \<le> q i \<and> is_multiple 8 (q i)"
    and "\<And>i ord. l i = Some ord \<Longrightarrow> encodable (remaining_size ord) \<and> 0 < remaining_size ord \<and> q i \<le> remaining_size ord"
  shows "shrinks l (debit_lookup q l)"
proof -
  have e: "encodable (remaining_size ord - q i)" "q i \<le> remaining_size ord" "0 \<le> q i" if "l i = Some ord" for i ord
    using assms(1) [of i] assms(2) [OF that] encodable_between [of "remaining_size ord" "remaining_size ord - q i"]
    by (simp_all add: is_multiple_diff encodable_mult8)
  then show ?thesis
    by (auto simp: shrinks_def debit_lookup_def less_le split: option.splits if_splits)
qed

lemma round_fills:
  assumes "dec_exact D" and "state_ok n s" and "run D aid p (book_bids (es_book s) p) (book_asks (es_book s) p) = Some (Some r)"
  defines "q \<equiv> \<lambda>i. bid_fills (matches r) i + ask_fills (matches r) i"
  shows "seq_opt (fill_lookup D) (match_fills (matches r)) (find_order (es_book s)) = Some (debit_lookup q (find_order (es_book s)))"
    and "shrinks (find_order (es_book s)) (debit_lookup q (find_order (es_book s)))"
    and "length (matches r) \<le> 16384 * 16384"
proof -
  let ?b = "es_book s" let ?bids = "book_bids ?b p" let ?asks = "book_asks ?b p" let ?fs = "match_fills (matches r)"
  have ok: "book_ok ?b" using assms(2) by (simp add: state_ok_def)
  note a = auction_inputs [OF assms(2), where p = p]
  obtain bs as where f: "fill_bids (clearing_price r) (eligible_bids (clearing_price r) (sort_bids ?bids))
       (eligible_asks (clearing_price r) (sort_asks ?asks)) = (bs, as, matches r)"
    by (rule run_result [OF assms(1) a(1) assms(3)])
  note el = eligible_encodable [OF a(1), of "clearing_price r"]
  note enc = fill_bids_encodable [OF f el(1,2)]
  note pr = proper_match_ids [OF run_proper [OF assms(1) a(1) assms(3) a(3)]]
  note rf = run_fills [OF assms(1) a(1) assms(3) a(2,3)]
  have "length (eligible_bids (clearing_price r) (sort_bids ?bids)) * length (eligible_asks (clearing_price r) (sort_asks ?asks)) \<le> 16384 * 16384"
    using el(3,4) a(1) by (intro mult_le_mono) (simp_all add: auction_input_ok_def)
  with enc show "length (matches r) \<le> 16384 * 16384" by (meson order_trans)
  have t: "total_fills ?fs = q" using pr(5,6) by (simp add: fun_eq_iff q_def total_match_fills)
  have bound: "q i \<le> remaining_size ord" if i: "find_order ?b i = Some ord" for i ord
    unfolding q_def using assms(1-3) i by (rule round_bound)
  have each: "encodable (remaining_size ord) \<and> 0 < remaining_size ord" if "find_order ?b i = Some ord" for i ord
    using that assms(2) by (auto simp: state_ok_def view_ok_def view_orders resting_ok_def)
  have fills: "encodable (fill_size g) \<and> 0 < fill_size g \<and> find_order ?b (fill_order_id g) \<noteq> None" if g: "g \<in> set ?fs" for g
  proof -
    from g obtain m where m: "m \<in> set (matches r)" "g = m_bid m \<or> g = m_ask m" by (auto simp: match_fills_def)
    then have "encodable (m_size m)" using enc by (simp add: list_all_iff)
    then show ?thesis using m pr(1-3,5,6) [OF m(1)] a(4,5) by fastforce
  qed
  from bk.fills_debit [OF assms(1) ok, of ?fs] fills each bound t obtain b' where
    b': "seq_opt (apply_fill D) ?fs ?b = Some b'" "find_order b' = debit_lookup q (find_order ?b)" by auto
  then show "seq_opt (fill_lookup D) ?fs (find_order ?b) = Some (debit_lookup q (find_order ?b))"
    using bk.fills_lookup [OF ok, of D ?fs] by simp
  have "0 \<le> q i" for i using fills_nonneg [of "matches r" i] pr(3) by (simp add: q_def)
  moreover have "is_multiple 8 (q i)" for i
    using fills_multiple [of "matches r" i] enc encodable_mult8 by (auto simp: q_def list_all_iff intro: is_multiple_add)
  ultimately show "shrinks (find_order ?b) (debit_lookup q (find_order ?b))" using each bound by (intro shrinks_debit) simp_all
qed

section \<open>Changes outside the view\<close>

text \<open>Pending batches, the round counters and the timing settings are no part of a view.\<close>

definition similar :: "'st engine \<Rightarrow> 'st engine \<Rightarrow> bool" where
  "similar en en' \<longleftrightarrow>
     en_store en' = en_store en \<and> en_secrets en' = en_secrets en \<and> eng_view en' = eng_view en \<and>
     eng_book en' = eng_book en \<and> es_pair_tokens (en_state en') = es_pair_tokens (en_state en)"

fun batch_data :: "event_data \<Rightarrow> bool" where
  "batch_data (BatchSubmitted _ _ _ _ _) = True"
| "batch_data (BatchConfirmed _ _) = True"
| "batch_data (BatchSettled _ _ _) = True"
| "batch_data (BatchFolded _ _ _ _) = True"
| "batch_data _ = False"

lemma batch_data_order: "batch_data d \<Longrightarrow> order_event d"
  by (cases d) simp_all

lemma batch_data_effect: "batch_data d \<Longrightarrow> order_effect D d l = Some l"
  by (cases d) (simp_all add: order_effect_def)

section \<open>A round of the tick\<close>

context event_store
begin

lemma round_success:
  assumes "state_ok (last_seq ops en) (en_state en)" and "dec_exact (co_dec C)"
    and "run (co_dec C) aid p (book_bids (eng_book en) p) (book_asks (eng_book en) p) = Some (Some r)"
    and "appended (round_events now r) es en en1"
  defines "q \<equiv> \<lambda>i. bid_fills (matches r) i + ask_fills (matches r) i"
  obtains b where
    "apply_events C es (log_auction (executed_record now r) en1) =
       Some (en1\<lparr>en_state := (en_state en)\<lparr>es_auction_log := es_auction_log (en_state en) @ [executed_record now r], es_book := b\<rparr>\<rparr>)"
    and "project_all C es (eng_view en) =
       Some (view ((en_state en)\<lparr>es_auction_log := es_auction_log (en_state en) @ [executed_record now r], es_book := b\<rparr>))"
    and "state_ok (last_seq ops en1) ((en_state en)\<lparr>es_auction_log := es_auction_log (en_state en) @ [executed_record now r], es_book := b\<rparr>)"
    and "find_order b = debit_lookup q (find_order (eng_book en))"
proof -
  let ?l = "debit_lookup q (find_order (eng_book en))" let ?al = "es_auction_log (en_state en) @ [executed_record now r]"
  let ?m = "map (\<lambda>m. OrderMatched (res_auction_id r) (m_bid m) (m_ask m) (m_price m) (m_size m)) (matches r)"
  note f = appended_facts [OF assms(4)] and rf = round_fills [OF assms(2,1,3), folded q_def]
  have d: "map ev_data (round_events now r) = AuctionExecuted (res_auction_id r) (res_pair r) (clearing_price r)
      (matched_volume r) (length (matches r) mod 2 ^ 32) now # ?m"
    by (simp add: round_events_def match_event_def event_at_def new_event_def)
  have eff: "seq_opt (order_effect (co_dec C)) ?m (find_order (eng_book en)) = Some ?l"
    using rf(1) by (simp add: seq_opt_matched)
  then have eff': "seq_opt (order_effect (co_dec C)) (map ev_data (round_events now r)) (find_order (eng_book en)) = Some ?l"
    unfolding d by (simp add: order_effect_def [of _ "AuctionExecuted _ _ _ _ _ _"])
  have la: "en_state (log_auction (executed_record now r) en1) = (en_state en1)\<lparr>es_auction_log := ?al\<rparr>"
    by (simp add: log_auction_def f(1))
  obtain b where b: "apply_events C es (log_auction (executed_record now r) en1) =
      Some ((log_auction (executed_record now r) en1)\<lparr>en_state := (en_state (log_auction (executed_record now r) en1))\<lparr>es_book := b\<rparr>\<rparr>)"
    "book_ok b" "find_order b = ?l" "book_seq b \<le> last_seq ops en1"
    by (rule apply_appended [OF assms(1,4) la eff'])
  let ?s = "(en_state en)\<lparr>es_auction_log := ?al, es_book := b\<rparr>"
  have v: "view ?s = (eng_view en)\<lparr>v_orders := ?l, v_auctions := ?al\<rparr>" by (simp add: view_def b(3))
  from f(4) obtain e xs where xs: "es = e # xs" "map ev_data xs = ?m"
    "ev_data e = AuctionExecuted (res_auction_id r) (res_pair r) (clearing_price r) (matched_volume r) (length (matches r) mod 2 ^ 32) now"
    unfolding d by auto
  have "list_all order_event (map ev_data xs)" unfolding xs(2) by (simp add: list_all_iff)
  then have oe: "list_all (\<lambda>e. order_event (ev_data e)) xs" by (simp add: list_all_iff)
  have "project C e (eng_view en) = Some ((eng_view en)\<lparr>v_auctions := ?al\<rparr>)"
    by (simp add: project_def xs(3) executed_record_def) (simp add: view_def)
  then have p: "project_all C es (eng_view en) = Some (view ?s)"
    using eff by (simp add: xs(1) project_all_orders [OF oe] xs(2) view_orders v)
  have "view_ok (last_seq ops en1) (view ?s)"
    by (rule view_ok_shrink [of "last_seq ops en" "eng_view en" ?l])
      (use assms(1) rf(2) f(3) in \<open>simp_all add: state_ok_def v view_orders\<close>)
  then have "state_ok (last_seq ops en1) ?s" using b(2,4) assms(1) by (simp add: state_ok_def)
  with b p f(1) show ?thesis by (intro that [of b]) (simp_all add: log_auction_def)
qed

lemma tick_pair_advances:
  assumes "collab_ok C" and "engine_inv ops inv en" and "room ops en"
  shows "\<exists>en' ns pas. tick_pair C ops clk now aid bid pair en = Some (en', ns, pas) \<and> advances C ops log inv en en'"
proof -
  have st: "state_ok (last_seq ops en) (en_state en)" "secrets_ok en" "inv (en_store en)"
    using assms(2) by (simp_all add: engine_inv_def)
  have dx: "dec_exact (co_dec C)" using assms(1) by (simp add: collab_ok_def)
  let ?run = "run (co_dec C) (aid pair) pair (book_bids (eng_book en) pair) (book_asks (eng_book en) pair)"
  obtain R where R: "?run = Some R" using run_exact [OF dx auction_inputs(1) [OF st(1)]] by blast
  show ?thesis
  proof (cases "\<exists>r u. R = Some r \<and> clearing_price_encodable C r = Inr u")
    case False
    then have "tick_pair C ops clk now aid bid pair en = Some (en, [], [])"
      using R by (auto simp: tick_pair_def Let_def split: option.splits sum.splits)
    then show ?thesis using advances_refl [OF assms(2)] by simp
  next
    case True
    then obtain r u where r: "R = Some r" "clearing_price_encodable C r = Inr u" by blast
    note run = R [unfolded r(1)]
    have len: "length (round_events now r) \<le> 2 ^ 32" using round_fills(3) [OF dx st(1) run] by (simp add: round_events_def)
    obtain en1 x where x: "store_append ops clk (round_events now r) en = (en1, x)" by (cases "store_append ops clk (round_events now r) en")
    show ?thesis
    proof (cases x)
      case (Inl e)
      then show ?thesis using x r R advances_failed [OF assms(2,3) len] by (simp add: tick_pair_def Let_def)
    next
      case (Inr es)
      have ap: "appended (round_events now r) es en en1" using store_append_ok [OF st(3) assms(3) len] x Inr by simp
      show ?thesis
      proof (rule round_success [OF st(1) dx run ap])
        fix b
        let ?s = "(en_state en)\<lparr>es_auction_log := es_auction_log (en_state en) @ [executed_record now r], es_book := b\<rparr>"
        assume b: "apply_events C es (log_auction (executed_record now r) en1) = Some (en1\<lparr>en_state := ?s\<rparr>)"
          "project_all C es (eng_view en) = Some (view ?s)" "state_ok (last_seq ops en1) ?s"
          "find_order b = debit_lookup (\<lambda>i. bid_fills (matches r) i + ask_fills (matches r) i) (find_order (eng_book en))"
        have "secrets_ok (en1\<lparr>en_state := ?s\<rparr>)"
          by (rule secrets_shrink [OF st(2)]) (simp_all add: b(4) round_fills(2) [OF dx st(1) run] appended_facts [OF ap])
        then have "advances C ops log inv en (en1\<lparr>en_state := ?s\<rparr>)" by (intro advances_events [OF assms(2) ap]) (simp_all add: b)
        then show ?thesis using x Inr r R b(1) by (simp add: tick_pair_def Let_def)
      qed
    qed
  qed
qed

section \<open>Batches\<close>

lemma advances_similar:
  assumes "advances C ops log inv e1 e2" and "similar e2 e3"
  shows "advances C ops log inv e1 e3"
  using assms by (auto simp: advances_def similar_def engine_inv_def state_ok_def secrets_ok_def extends_by_def)

lemma similar_advances: "engine_inv ops inv en \<Longrightarrow> similar en en' \<Longrightarrow> advances C ops log inv en en'"
  by (rule advances_similar [OF advances_refl])

text \<open>A batch event changes no view, appended with or without applying it.\<close>

lemma batch_appended:
  assumes "engine_inv ops inv en" and "room ops en" and "batch_data d" and "store_append ops clk [event_at t d] en = (en1, r)"
  shows "advances C ops log inv en en1" and "last_seq ops en1 \<le> last_seq ops en + 1"
proof -
  have st: "inv (en_store en)" "state_ok (last_seq ops en) (en_state en)" "secrets_ok en"
    using assms(1) by (simp_all add: engine_inv_def)
  have "advances C ops log inv en en1 \<and> last_seq ops en1 \<le> last_seq ops en + 1"
  proof (cases r)
    case (Inl e)
    then show ?thesis
      using advances_failed [OF assms(1,2), of "[event_at t d]" clk en1 e C] store_append_err(5) [OF st(1) assms(2), of "[event_at t d]"] assms(4)
      by simp
  next
    case (Inr es)
    have ap: "appended [event_at t d] es en en1" using store_append_ok [OF st(1) assms(2)] assms(4) Inr by simp
    note f = appended_facts [OF ap]
    from f(4) obtain e where e: "es = [e]" "ev_data e = d" by (auto simp: event_at_def new_event_def)
    have "project_all C es (eng_view en) = Some (eng_view en1)"
      using assms(3) by (simp add: e project_order_event batch_data_order batch_data_effect f(1))
    moreover have "state_ok (last_seq ops en1) (en_state en1)"
      using st(2) f(1,3) view_ok_mono by (auto simp: state_ok_def)
    ultimately have "advances C ops log inv en en1"
      using st(3) f by (intro advances_events [OF assms(1) ap]) (simp_all add: secrets_ok_def)
    then show ?thesis using ap by (simp add: appended_def)
  qed
  then show "advances C ops log inv en en1" "last_seq ops en1 \<le> last_seq ops en + 1" by simp_all
qed

text \<open>Applying batch events that are already in the log, however late.\<close>

lemma batch_applied:
  assumes "engine_inv ops inv en" and "\<forall>e\<in>set es. batch_data (ev_data e) \<and> 0 < ev_seq e \<and> ev_seq e \<le> last_seq ops en"
  shows "\<exists>en'. apply_events C es en = Some en' \<and> advances C ops log inv en en'"
proof -
  have "\<exists>b'. book_apply_all (co_dec C) es b = Some b' \<and> book_ok b' \<and> find_order b' = find_order b \<and> book_seq b' \<le> last_seq ops en"
    if "book_ok b" "book_seq b \<le> last_seq ops en" for b
    using assms(2) that
  proof (induction es arbitrary: b)
    case (Cons e es)
    have "\<exists>b1. book_apply (co_dec C) e b = Some b1 \<and> find_order b1 = find_order b"
    proof (cases "ev_seq e \<le> book_seq b")
      case True
      then show ?thesis using Cons.prems by (simp add: book_apply_seen)
    next
      case False
      then show ?thesis using book_apply_effect [OF Cons.prems(2), of e "co_dec C"] Cons.prems(1) by (auto simp: batch_data_effect)
    qed
    then obtain b1 where b1: "book_apply (co_dec C) e b = Some b1" "find_order b1 = find_order b" by blast
    have "book_seq b1 \<le> last_seq ops en" using book_apply_seq [OF b1(1)] Cons.prems by simp
    then show ?case using Cons.IH [of b1] b1 book_apply_ok [OF Cons.prems(2) b1(1)] Cons.prems(1) by auto
  qed simp
  from this [of "eng_book en"] assms(1) obtain b' where b': "book_apply_all (co_dec C) es (eng_book en) = Some b'"
    "book_ok b'" "find_order b' = find_order (eng_book en)" "book_seq b' \<le> last_seq ops en"
    by (auto simp: engine_inv_def state_ok_def)
  have "advances C ops log inv en (en\<lparr>en_state := (en_state en)\<lparr>es_book := b'\<rparr>\<rparr>)"
    using assms(1) b' by (intro advances_same) (auto simp: engine_inv_def state_ok_def secrets_ok_def view_def)
  then show ?thesis using b'(1) by (simp add: apply_events_def)
qed

lemma finalize_pending_advances:
  assumes "engine_inv ops inv en" and "room ops en" and "finalize_pending_batch C ops clk p pf inputs sms en = (en', r)"
  shows "advances C ops log inv en en'"
proof -
  let ?d = "batch_submitted_event (pa_batch_id p) (pa_auction_id p) (pa_matches p) pf"
  let ?e = "event_at (pa_auction_at p) ?d"
  have d: "batch_data ?d" by (simp add: batch_submitted_event_def)
  have st: "inv (en_store en)" using assms(1) by (simp add: engine_inv_def)
  obtain en1 x where x: "store_append ops clk [?e] en = (en1, x)" by (cases "store_append ops clk [?e] en")
  note ad = batch_appended [OF assms(1,2) d x]
  show ?thesis
  proof (cases x)
    case (Inl e)
    then show ?thesis using x assms(3) ad(1) by (simp add: finalize_pending_batch_def)
  next
    case (Inr es)
    have ap: "appended [?e] es en en1" using store_append_ok [OF st assms(2)] x Inr by simp
    have "\<forall>e\<in>set es. batch_data (ev_data e) \<and> 0 < ev_seq e \<and> ev_seq e \<le> last_seq ops en1"
      using ap d by (auto simp: appended_def event_at_def new_event_def)
    moreover have "engine_inv ops inv en1" using ad(1) [of C] by (simp add: advances_def)
    ultimately obtain en2 where e2: "apply_events C es en1 = Some en2" "advances C ops log inv en1 en2"
      using batch_applied by blast
    then have "en' = insert_batch (new_pending_batch (pa_batch_id p) (pa_auction_id p) (pa_matches p) sms pf inputs) en2"
      using x Inr assms(3) by (simp add: finalize_pending_batch_def)
    then have "similar en2 en'" by (simp add: similar_def insert_batch_def)
    then show ?thesis using advances_trans [OF ad(1) e2(2)] advances_similar by blast
  qed
qed

end

end
