(* ===== verification/EngineReach.thy ===== *)
theory EngineReach
  imports EngineRuns
begin

text \<open>
  The step relation of the engine, with a rule for every critical section and for every append
  outside the lock. A client call, a tick or a submission is a sequence of such steps, and
  concurrent ones interleave freely. Each rule asks for room in the \<^verbatim>\<open>u64\<close> sequence; the identifier
  of a placement is new to the book, as a version 4 UUID is, and its clock is past 1970.

  What every reachable engine satisfies is proved once over the store contract, and restated for
  the file store.
\<close>

section \<open>Steps\<close>

inductive step :: "collab \<Rightarrow> 'st store_ops \<Rightarrow> 'st engine \<Rightarrow> 'st engine \<Rightarrow> bool" for C :: collab and ops :: "'st store_ops" where
  register: "register_pair_with_event C ops clk now pair cfg en = (en', r) \<Longrightarrow> pc_status cfg = Active \<Longrightarrow> room ops en \<Longrightarrow> step C ops en en'"
| suspend: "suspend_pair ops clk now pair en = (en', r) \<Longrightarrow> room ops en \<Longrightarrow> step C ops en en'"
| delist: "delist_locked C ops clk now pair en = (en', r) \<Longrightarrow> room ops en \<Longrightarrow> step C ops en en'"
| place: "place_precheck C s1 ct caller = Inr (d, key) \<Longrightarrow> place_registry_check C s2 d key = Inr spend \<Longrightarrow>
    place_build C d key spend pf ct i now = Inr (ord, sec, rp) \<Longrightarrow> find_order (eng_book en) i = None \<Longrightarrow> now \<noteq> 0 \<Longrightarrow>
    persist_order_placed C ops clk ord sec (os_commitment sec) pf ct rp en = (en', r) \<Longrightarrow> room ops en \<Longrightarrow> step C ops en en'"
| cancel: "cancel_locked C ops clk now i reason en = (en', r) \<Longrightarrow> room ops en \<Longrightarrow> step C ops en en'"
| drop: "find_order (eng_book en) i = None \<Longrightarrow> step C ops en (drop_secret i en)"
| prune: "step C ops en (prune_dead_secrets en)"
| expire: "tick_expire C ops clk now en = Some en' \<Longrightarrow> room ops en \<Longrightarrow> step C ops en en'"
| round: "tick_pair C ops clk now aid bid pair en = Some (en', ns, pas) \<Longrightarrow> room ops en \<Longrightarrow> step C ops en en'"
| fold: "fold_batch C ops clk A now p en = Some (en', fin) \<Longrightarrow> last_seq ops en + 2 ^ 33 < 2 ^ 64 \<Longrightarrow> step C ops en en'"
| acquire: "submit_acquire i en = Some (en', pb) \<Longrightarrow> step C ops en en'"
| failure: "step C ops en (note_submit_failure inow i en)"
| confirm_event: "confirm_append ops clk now i tx en = (en', r) \<Longrightarrow> room ops en \<Longrightarrow> step C ops en en'"
| settled_event: "store_append ops clk [event_at now (BatchSettled i block tx)] en = (en', r) \<Longrightarrow> room ops en \<Longrightarrow> step C ops en en'"
| confirm: "confirm_apply C es i en = (en', r) \<Longrightarrow>
    \<forall>e\<in>set es. batch_data (ev_data e) \<and> 0 < ev_seq e \<and> ev_seq e \<le> last_seq ops en \<Longrightarrow> step C ops en en'"
| compact: "compact_events_before ops b en = (en', r) \<Longrightarrow> b \<le> last_seq ops en + 1 \<Longrightarrow> step C ops en en'"
| finalize_every: "step C ops en (set_finalize_every n en)"
| timeout: "step C ops en (set_submit_timeout dur en)"
| backoff: "step C ops en (set_retry_backoff mn mx en)"

abbreviation steps :: "collab \<Rightarrow> 'st store_ops \<Rightarrow> 'st engine \<Rightarrow> 'st engine \<Rightarrow> bool" where
  "steps C ops \<equiv> (step C ops)\<^sup>*\<^sup>*"

lemma similar_changes:
  "submit_acquire i en = Some (en', pb) \<Longrightarrow> similar en en'"
  "similar en (note_submit_failure inow i en)" "similar en (remove_batch i en)" "similar en (set_finalize_every n en)"
  "similar en (set_submit_timeout dur en)" "similar en (set_retry_backoff mn mx en)" "similar en (set_ivc_payload i pl en)"
  "similar en (fst (bump_round pair en))"
  by (auto simp: similar_def submit_acquire_def note_submit_failure_def remove_batch_def set_finalize_every_def
      set_submit_timeout_def set_retry_backoff_def set_ivc_payload_def bump_round_def view_def Let_def split: option.splits if_splits)

lemma find_new: "find_order \<lparr>books = [], book_seq = 0\<rparr> = (\<lambda>_. None)"
  by (simp add: find_order_def fun_eq_iff)

context event_store
begin

lemma finalize_batch_advances:
  assumes "engine_inv ops inv en" and "room ops en" and "finalize_batch C ops clk A p en = (en', fin)"
  shows "advances C ops log inv en en'"
proof (cases "\<exists>fp sms. ag_finalize A (pa_batch_id p) (pa_pair p) = Inr fp \<and> build_settlement_matches p (en_state en) = Inr sms")
  case False
  then have "en' = en" using assms(3) by (auto simp: finalize_batch_def split: sum.splits)
  then show ?thesis using advances_refl [OF assms(1)] by simp
next
  case True
  then obtain fp sms where fs: "ag_finalize A (pa_batch_id p) (pa_pair p) = Inr fp" "build_settlement_matches p (en_state en) = Inr sms" by blast
  obtain en1 x where x: "finalize_pending_batch C ops clk p (fp_proof_bytes fp) (replicate 6 0) sms en = (en1, x)"
    by (cases "finalize_pending_batch C ops clk p (fp_proof_bytes fp) (replicate 6 0) sms en")
  have "similar en1 en'" using fs x assms(3) similar_changes(7) by (cases x) (auto simp: finalize_batch_def similar_def)
  then show ?thesis using finalize_pending_advances [OF assms(1,2) x] advances_similar by blast
qed

lemma fold_batch_advances:
  assumes "engine_inv ops inv en" and "last_seq ops en + 2 ^ 33 < 2 ^ 64" and "fold_batch C ops clk A now p en = Some (en', fin)"
  shows "advances C ops log inv en en'"
proof (cases "\<exists>w adm ext u. build_batch_witness C (pa_batch_id p) (pa_auction_id p) (pa_matches p) (pa_orders p) en = Inr w \<and>
    admitted_commitments (en_secrets en) (pa_admitted_order_ids p) = Some adm \<and>
    from_witness_with_admitted (co_dec C) (co_hex_decode C) (co_sponge C) w (map m_price (pa_matches p))
      (map m_size (pa_matches p)) (en_batch_size en) adm = Inr ext \<and> ag_fold_step A (pa_batch_id p) (pa_pair p) ext = Inr u")
  case False
  then have "en' = en" using assms(3) by (auto simp: fold_batch_def split: sum.splits option.splits if_splits)
  then show ?thesis using advances_refl [OF assms(1)] by simp
next
  case True
  then obtain w adm ext u where h: "build_batch_witness C (pa_batch_id p) (pa_auction_id p) (pa_matches p) (pa_orders p) en = Inr w"
    "admitted_commitments (en_secrets en) (pa_admitted_order_ids p) = Some adm"
    "from_witness_with_admitted (co_dec C) (co_hex_decode C) (co_sponge C) w (map m_price (pa_matches p))
      (map m_size (pa_matches p)) (en_batch_size en) adm = Inr ext" "ag_fold_step A (pa_batch_id p) (pa_pair p) ext = Inr u" by blast
  obtain en1 k where k: "bump_round (pa_pair p) en = (en1, k)" by (cases "bump_round (pa_pair p) en")
  let ?d = "BatchFolded (pa_batch_id p) k (pa_pair p) (fr_to_bytes32 (xi_admitted_root ext))"
  obtain en2 x where x: "store_append ops clk [event_at now ?d] en1 = (en2, x)" by (cases "store_append ops clk [event_at now ?d] en1")
  have s1: "similar en en1" using similar_changes(8) [of en "pa_pair p"] by (simp add: k)
  have r1: "room ops en1" "last_seq ops en1 = last_seq ops en" using assms(2) s1 by (simp_all add: room_def similar_def)
  have a1: "advances C ops log inv en en1" by (rule similar_advances [OF assms(1) s1])
  then have i1: "engine_inv ops inv en1" by (simp add: advances_def)
  note a2 = batch_appended [OF i1 r1(1) _ x]
  have i2: "engine_inv ops inv en2" using a2(1) [of C] by (simp add: advances_def)
  have r2: "room ops en2" using a2(2) r1 assms(2) by (simp add: room_def)
  have "advances C ops log inv en2 en'"
    using assms(3) h k x finalize_batch_advances [OF i2 r2] advances_refl [OF i2]
    by (auto simp: fold_batch_def Let_def split: if_splits prod.splits)
  then show ?thesis using a1 a2(1) [of C] advances_trans batch_data.simps(4) by blast
qed

lemma compact_advances:
  assumes "engine_inv ops inv en" and "compact_events_before ops b en = (en', r)" and "b \<le> last_seq ops en + 1"
  shows "advances C ops log inv en en'"
proof -
  have i: "inv (en_store en)" using assms(1) by (simp add: engine_inv_def)
  obtain st where st: "st_compact_before ops b (en_store en) = (st, r)" "en' = en\<lparr>en_store := st\<rparr>"
    using assms(2) by (auto simp: compact_events_before_def split: prod.splits)
  show ?thesis
  proof (cases r)
    case (Inl e)
    with compact_err [OF i] st assms(1) show ?thesis
      by (intro advances_same) (auto simp: engine_inv_def state_ok_def secrets_ok_def)
  next
    case (Inr u)
    with compact_ok [OF i] st have c: "log st = filter (\<lambda>e. b \<le> ev_seq e) (log (en_store en))"
      "st_last_seq ops st = last_seq ops en" "inv st" by auto
    then have "extends_by C ops log en en' [] b" using assms(3) by (simp add: extends_by_def st(2))
    moreover have "engine_inv ops inv en'" using assms(1) c by (simp add: engine_inv_def st(2) secrets_ok_def)
    ultimately show ?thesis unfolding advances_def by blast
  qed
qed

lemma secrets_advances:
  assumes "engine_inv ops inv en" and "en' = en\<lparr>en_secrets := sec\<rparr>"
    and "\<And>i. find_order (eng_book en) i \<noteq> None \<Longrightarrow> hm_get sec i = hm_get (en_secrets en) i"
  shows "advances C ops log inv en en'"
  using assms by (intro advances_same) (auto simp: engine_inv_def state_ok_def secrets_ok_def)

lemma hm_get_filter_key: "P k \<Longrightarrow> hm_get (filter (\<lambda>(i, _). P i) m) k = hm_get m k"
  by (induction m) auto

lemma step_advances:
  assumes "collab_ok C" and "engine_inv ops inv en" and "step C ops en en'"
  shows "advances C ops log inv en en'"
  using assms(3)
proof cases
  case (register clk now pair cfg r)
  then show ?thesis using register_advances [OF assms(1,2)] by blast
next
  case (place s1 ct caller d key s2 spend pf i now ord sec rp clk r)
  then show ?thesis using place_advances(1) [OF assms(1,2) place(7,1,3,4,5,6)] by simp
next
  case (drop i)
  then show ?thesis
    by (intro secrets_advances [OF assms(2), of _ "hm_remove i (en_secrets en)"]) (auto simp: drop_secret_def hm_get_remove)
next
  case prune
  then show ?thesis
    using hm_get_filter_key [where P = "has_order (eng_book en)"]
    by (intro secrets_advances [OF assms(2), of _ "filter (\<lambda>(i, _). has_order (eng_book en) i) (en_secrets en)"])
      (auto simp: prune_dead_secrets_def has_order_find)
next
  case (expire clk now)
  then show ?thesis using expire_advances [OF assms(2)] by (metis option.inject)
next
  case (round clk now aid bid pair ns pas)
  then show ?thesis using tick_pair_advances [OF assms(1,2)] by (metis option.inject prod.inject)
next
  case (fold clk A now p fin)
  then show ?thesis using fold_batch_advances [OF assms(2)] by blast
next
  case (confirm_event clk now i tx r)
  then show ?thesis by (intro batch_appended(1) [OF assms(2) confirm_event(2), of "BatchConfirmed i tx"]) (simp_all add: confirm_append_def)
next
  case (settled_event clk now i block tx r)
  then show ?thesis by (intro batch_appended(1) [OF assms(2) settled_event(2), of "BatchSettled i block tx"]) simp_all
next
  case (confirm es i r)
  obtain en1 where en1: "apply_events C es en = Some en1" "advances C ops log inv en en1"
    using batch_applied [OF assms(2) confirm(2)] by blast
  then have "en' = remove_batch i en1" using confirm(1) by (simp add: confirm_apply_def)
  then show ?thesis using advances_similar [OF en1(2)] similar_changes(3) by blast
next
  case (compact b r)
  then show ?thesis using compact_advances [OF assms(2)] by blast
next
  case suspend
  then show ?thesis by (intro suspend_advances [OF assms(2)])
next
  case delist
  then show ?thesis by (intro delist_advances(1) [OF assms(2)])
next
  case cancel
  then show ?thesis by (intro cancel_advances(1) [OF assms(2)])
next
  case acquire
  then show ?thesis by (intro similar_advances [OF assms(2)] similar_changes(1))
qed (simp_all add: similar_advances [OF assms(2)] similar_changes)

lemma steps_advance:
  assumes "collab_ok C" and "steps C ops en en'" and "engine_inv ops inv en"
  shows "advances C ops log inv en en'"
  using assms(2)
proof induction
  case (step e1 e2)
  then show ?case using step_advances [OF assms(1)] advances_trans unfolding advances_def by blast
qed (rule advances_refl [OF assms(3)])

lemma engine_new_inv: "inv st \<Longrightarrow> engine_inv ops inv (engine_new st iv)"
  by (auto simp: engine_inv_def engine_new_def state_ok_def secrets_ok_def engine_state_new_def view_def view_ok_def
      book_new_def book_ok_def find_new flat_def trader_orders_def)

lemma reachable_inv:
  assumes "collab_ok C" and "inv st" and "log st = []" and "steps C ops (engine_new st iv) en"
  shows "engine_inv ops inv en"
    and "\<exists>hist b. log (en_store en) = filter (\<lambda>e. b \<le> ev_seq e) hist \<and> log_ok hist (last_seq ops en) \<and>
      project_all C hist view_empty = Some (eng_view en)"
proof -
  have a: "advances C ops log inv (engine_new st iv) en" by (rule steps_advance [OF assms(1,4) engine_new_inv [of st iv, OF assms(2)]])
  then show "engine_inv ops inv en" by (simp add: advances_def)
  from a obtain es b where e: "extends_by C ops log (engine_new st iv) en es b" by (auto simp: advances_def)
  have "eng_view (engine_new st iv) = view_empty"
    by (auto simp: engine_new_def engine_state_new_def view_def view_empty_def book_new_def find_order_def fun_eq_iff)
  moreover have "last_seq ops en < 2 ^ 64" using \<open>engine_inv ops inv en\<close> log_wf by (auto simp: engine_inv_def log_ok_def)
  ultimately show "\<exists>hist b. log (en_store en) = filter (\<lambda>e. b \<le> ev_seq e) hist \<and> log_ok hist (last_seq ops en) \<and>
      project_all C hist view_empty = Some (eng_view en)"
    using e assms(3) by (intro exI [of _ es] exI [of _ b]) (auto simp: extends_by_def engine_new_def log_ok_def)
qed

end

end
