(* ===== verification/EngineEffects.thy ===== *)
theory EngineEffects
  imports EngineReach
begin

text \<open>
  What the operations do when they succeed, and what they leave alone when they do not: placement,
  cancellation, delisting, expiry, an auction round and the witness of its batches. Client calls are
  shown to be sequences of the steps of \<open>EngineReach\<close>.
\<close>

section \<open>Spent keys\<close>

text \<open>The three spent sets only grow.\<close>

lemma project_spent:
  "project C e v = Some v' \<Longrightarrow> v_seen v \<subseteq> v_seen v' \<and> v_nullifiers v \<subseteq> v_nullifiers v' \<and> v_nonces v \<subseteq> v_nonces v'"
  by (cases "ev_data e") (auto simp: project_def Let_def split: option.splits if_splits)

lemma project_all_spent:
  "project_all C es v = Some v' \<Longrightarrow> v_seen v \<subseteq> v_seen v' \<and> v_nullifiers v \<subseteq> v_nullifiers v' \<and> v_nonces v \<subseteq> v_nonces v'"
proof (induction es arbitrary: v)
  case (Cons e es)
  then obtain v1 where "project C e v = Some v1" "project_all C es v1 = Some v'" by (auto split: bind_splits)
  then show ?case using Cons.IH project_spent by blast
qed simp

lemma persist_guard_spent:
  assumes "ciphertext_digest C ct \<in> set (es_seen_ciphertexts s) \<or> rp_nullifier rp \<in> set (es_spent_nullifiers s) \<or>
    rp_order_nonce_digest rp \<in> set (es_spent_order_nonces s)"
  shows "persist_guard C s ord ct rp \<noteq> None"
  using assms by (auto simp: persist_guard_def split: option.split pair_status.split)

lemma persist_success:
  assumes "persist_order_placed C ops clk ord sec cm pf ct rp en = (en', Inr sq)"
  shows "persist_guard C (en_state en) ord ct rp = None"
    and "ciphertext_digest C ct \<in> set (es_seen_ciphertexts (en_state en'))"
    and "rp_nullifier rp \<in> set (es_spent_nullifiers (en_state en'))"
    and "rp_order_nonce_digest rp \<in> set (es_spent_order_nonces (en_state en'))"
  using assms by (auto simp: persist_order_placed_def admit_order_def Let_def split: option.splits prod.splits sum.splits)

lemma store_append_state: "store_append ops clk es en = (en', r) \<Longrightarrow> en_state en' = en_state en \<and> en_secrets en' = en_secrets en"
  by (auto simp: store_append_def split: prod.splits sum.splits)

lemma persist_failure:
  assumes "persist_order_placed C ops clk ord sec cm pf ct rp en = (en', Inl e)"
  shows "en_state en' = en_state en" and "en_secrets en' = en_secrets en"
  using assms by (auto simp: persist_order_placed_def Let_def split: option.splits prod.splits sum.splits dest: store_append_state)

lemma resting_facts:
  assumes "state_ok n s" and "find_order (es_book s) i = Some ord"
  shows "resting_ok n (v_pairs (view s)) i ord"
    and "\<exists>cfg. hm_get (es_pair_tokens s) (order_pair ord) = Some cfg \<and> pc_status cfg \<noteq> Delisted"
proof -
  show r: "resting_ok n (v_pairs (view s)) i ord" using assms by (simp add: state_ok_def view_ok_def view_orders)
  then obtain cfg where "v_pairs (view s) (order_pair ord) = Some cfg" "pc_status cfg \<noteq> Delisted" by (auto simp: resting_ok_def)
  then show "\<exists>cfg. hm_get (es_pair_tokens s) (order_pair ord) = Some cfg \<and> pc_status cfg \<noteq> Delisted"
    by (auto simp: view_def)
qed

section \<open>The batches of a round\<close>

lemma chunks_concat: "concat (chunks n xs) = xs"
  by (induction n xs rule: chunks.induct) simp_all

lemma chunks_size: "c \<in> set (chunks n xs) \<Longrightarrow> 0 < n \<Longrightarrow> c \<noteq> [] \<and> length c \<le> n"
  by (induction n xs rule: chunks.induct) auto

lemma chunks_elem: "c \<in> set (chunks n xs) \<Longrightarrow> x \<in> set c \<Longrightarrow> x \<in> set xs"
  using chunks_concat [of n xs] by (metis UN_I set_concat)

lemma round_aggregation_matches:
  assumes "pa \<in> set (round_aggregations k now bid r orders adm)"
  shows "pa_matches pa \<in> set (chunks k (matches r))" and "pa_orders pa = orders" and "pa_admitted_order_ids pa = adm"
    and "pa_auction_id pa = res_auction_id r" and "pa_pair pa = res_pair r"
proof -
  have "order_matched_to_match (m_bid m) (m_ask m) (m_price m) (m_size m) = m" for m by (simp add: order_matched_to_match_def)
  then show "pa_matches pa \<in> set (chunks k (matches r))" "pa_orders pa = orders" "pa_admitted_order_ids pa = adm"
    "pa_auction_id pa = res_auction_id r" "pa_pair pa = res_pair r"
    using assms by (auto simp: round_aggregations_def in_set_enumerate_eq)
qed

lemma concat_round_aggregations: "concat (map pa_matches (round_aggregations k now bid r orders adm)) = matches r"
proof -
  have "order_matched_to_match (m_bid m) (m_ask m) (m_price m) (m_size m) = m" for m by (simp add: order_matched_to_match_def)
  then have "map pa_matches (round_aggregations k now bid r orders adm) = map snd (enumerate 0 (chunks k (matches r)))"
    by (simp add: round_aggregations_def o_def case_prod_beta)
  then show ?thesis by (simp add: chunks_concat)
qed

lemma hm_get_order_snapshot:
  assumes "book_ok b" and "i \<in> (\<lambda>m. fill_order_id (m_bid m)) ` set ms \<union> (\<lambda>m. fill_order_id (m_ask m)) ` set ms"
  shows "hm_get (order_snapshot b ms) i = find_order b i"
proof -
  let ?ids = "\<lambda>ms. (\<lambda>m. fill_order_id (m_bid m)) ` set ms \<union> (\<lambda>m. fill_order_id (m_ask m)) ` set ms"
  let ?F = "\<lambda>m acc. snapshot_order b (fill_order_id (m_ask m)) (snapshot_order b (fill_order_id (m_bid m)) acc)"
  have one: "hm_get (snapshot_order b j acc) k = (if j = k \<and> find_order b k \<noteq> None then find_order b k else hm_get acc k)" for j k acc
    using bk.entry_law [OF assms(1), of j] by (auto simp: snapshot_order_def hm_get_insert split: option.split)
  show ?thesis
  proof (cases "find_order b i")
    case None
    then have "hm_get (fold ?F ms acc) i = hm_get acc i" for acc by (induction ms arbitrary: acc) (simp_all add: one)
    with None show ?thesis by (simp add: order_snapshot_def)
  next
    case (Some ord)
    then have "hm_get (fold ?F ms acc) i = (if i \<in> ?ids ms then Some ord else hm_get acc i)" for acc
      by (induction ms arbitrary: acc) (auto simp: one)
    with Some assms(2) show ?thesis by (simp add: order_snapshot_def)
  qed
qed

text \<open>As long as the secrets of the round's orders are still there, every batch has its witness.\<close>

lemma round_witness:
  assumes "book_ok (eng_book en)" and "secrets_ok en" and "en_secrets en' = en_secrets en"
    and "\<And>m. m \<in> set (matches r) \<Longrightarrow> find_order (eng_book en) (fill_order_id (m_bid m)) \<noteq> None \<and> find_order (eng_book en) (fill_order_id (m_ask m)) \<noteq> None"
    and "pa \<in> set (round_aggregations k now bid r (order_snapshot (eng_book en) (matches r)) adm)"
  shows "\<exists>w. build_batch_witness C (pa_batch_id pa) (pa_auction_id pa) (pa_matches pa) (pa_orders pa) en' = Inr w"
proof -
  note ra = round_aggregation_matches [OF assms(5)]
  have "\<exists>y. match_witness_of C (en_secrets en') (pa_orders pa) m = Inr y" if "m \<in> set (pa_matches pa)" for m
  proof -
    have m: "m \<in> set (matches r)" using chunks_elem [OF ra(1) that] .
    obtain x y where xy: "find_order (eng_book en) (fill_order_id (m_bid m)) = Some x" "find_order (eng_book en) (fill_order_id (m_ask m)) = Some y"
      using assms(4) [OF m] by auto
    moreover obtain sx sy where "hm_get (en_secrets en) (fill_order_id (m_bid m)) = Some sx" "hm_get (en_secrets en) (fill_order_id (m_ask m)) = Some sy"
      using assms(2) xy unfolding secrets_ok_def by (metis not_Some_eq)
    ultimately show ?thesis using m hm_get_order_snapshot [OF assms(1)] by (simp add: match_witness_of_def Let_def ra(2) assms(3))
  qed
  then have "\<exists>ws. collectE (match_witness_of C (en_secrets en') (pa_orders pa)) (pa_matches pa) = Inr ws"
    unfolding collectE_Inr_iff by blast
  then show ?thesis by (auto simp: build_batch_witness_def)
qed

section \<open>Delisting is for good\<close>

definition pair_delisted :: "engine_state \<Rightarrow> string \<Rightarrow> bool" where
  "pair_delisted s key \<longleftrightarrow> (\<exists>cfg. hm_get (es_pair_tokens s) key = Some cfg \<and> pc_status cfg = Delisted)"

lemma apply_events_pairs: "apply_events C es en = Some en' \<Longrightarrow> es_pair_tokens (en_state en') = es_pair_tokens (en_state en)"
  by (auto simp: apply_events_def split: option.splits)

lemma set_pair_status_delisted:
  "pair_delisted s key \<Longrightarrow> (k = key \<Longrightarrow> st = Delisted) \<Longrightarrow> pair_delisted (set_pair_status k st s) key"
  by (auto simp: pair_delisted_def set_pair_status_def hm_get_insert split: option.split)

lemma pairs_similar: "similar en en' \<Longrightarrow> es_pair_tokens (en_state en') = es_pair_tokens (en_state en)"
  by (simp add: similar_def)

abbreviation eng_pairs :: "'st engine \<Rightarrow> (string, pair_config) hash_map" where
  "eng_pairs en \<equiv> es_pair_tokens (en_state en)"

lemma append_pairs: "store_append ops clk es en = (en', r) \<Longrightarrow> eng_pairs en' = eng_pairs en"
  using store_append_state by metis

lemma persist_pairs: "persist_order_placed C ops clk ord sec cm pf ct rp en = (en', r) \<Longrightarrow> eng_pairs en' = eng_pairs en"
  by (auto simp: persist_order_placed_def Let_def admit_order_def split: option.splits prod.splits sum.splits
      dest!: append_pairs apply_events_pairs)

lemma cancel_pairs: "cancel_locked C ops clk now i reason en = (en', r) \<Longrightarrow> eng_pairs en' = eng_pairs en"
  by (auto simp: cancel_locked_def Let_def split: option.splits prod.splits sum.splits if_splits dest!: append_pairs apply_events_pairs)

lemma expire_pairs: "tick_expire C ops clk now en = Some en' \<Longrightarrow> eng_pairs en' = eng_pairs en"
  by (auto simp: tick_expire_def Let_def split: prod.splits sum.splits if_splits dest!: append_pairs apply_events_pairs)

lemma round_pairs: "tick_pair C ops clk now aid bid pair en = Some (en', ns, pas) \<Longrightarrow> eng_pairs en' = eng_pairs en"
  by (auto simp: tick_pair_def Let_def log_auction_def split: option.splits prod.splits sum.splits
      dest!: append_pairs apply_events_pairs)

lemma finalize_pending_pairs: "finalize_pending_batch C ops clk p pf inputs sms en = (en', r) \<Longrightarrow> eng_pairs en' = eng_pairs en"
  by (auto simp: finalize_pending_batch_def insert_batch_def split: option.splits prod.splits sum.splits
      dest!: append_pairs apply_events_pairs)

lemma finalize_batch_pairs: "eng_pairs (fst (finalize_batch C ops clk A p en)) = eng_pairs en"
  by (auto simp: finalize_batch_def pairs_similar [OF similar_changes(7)] split: prod.splits sum.splits dest!: finalize_pending_pairs)

lemma fold_pairs: "fold_batch C ops clk A now p en = Some (en', fin) \<Longrightarrow> eng_pairs en' = eng_pairs en"
proof -
  assume f: "fold_batch C ops clk A now p en = Some (en', fin)"
  obtain en1 k where k: "bump_round (pa_pair p) en = (en1, k)" by (cases "bump_round (pa_pair p) en")
  have 1: "eng_pairs en1 = eng_pairs en" using similar_changes(8) [of en "pa_pair p"] by (simp add: k similar_def)
  have 2: "eng_pairs (fst (store_append ops clk es en1)) = eng_pairs en" for es
    using 1 append_pairs [of ops clk es en1] by (cases "store_append ops clk es en1") simp
  show ?thesis using f finalize_batch_pairs [of C ops clk A p] 1 2
    by (auto simp: fold_batch_def k Let_def split: sum.splits option.splits if_splits) (metis fst_conv)+
qed

lemma confirm_pairs: "confirm_apply C es i en = (en', r) \<Longrightarrow> eng_pairs en' = eng_pairs en"
  by (auto simp: confirm_apply_def remove_batch_def split: option.splits dest: apply_events_pairs)

lemma delist_keeps_delisted:
  assumes "delist_locked C ops clk now pair en = (en', r)" and "pair_delisted (en_state en) key"
  shows "pair_delisted (en_state en') key"
proof -
  consider "en' = en" | "eng_pairs en' = eng_pairs en"
    | k s where "es_pair_tokens s = eng_pairs en" "en_state en' = set_pair_status k Delisted s"
    using assms(1)
    by (fastforce simp: delist_locked_def Let_def split: sum.splits option.splits prod.splits pair_status.splits
        dest: append_pairs apply_events_pairs)
  then show ?thesis
  proof cases
    case 3
    then show ?thesis using assms(2) set_pair_status_delisted [of s key k Delisted] by (simp add: pair_delisted_def)
  qed (use assms(2) in \<open>simp_all add: pair_delisted_def\<close>)
qed

lemma step_keeps_delisted:
  assumes "step C ops en en'" and "pair_delisted (en_state en) key"
  shows "pair_delisted (en_state en') key"
proof -
  have same: "pair_delisted (en_state en') key" if "eng_pairs en' = eng_pairs en" using assms(2) that by (simp add: pair_delisted_def)
  from assms(1) show ?thesis
  proof cases
    case (register clk now pair cfg r)
    then show ?thesis using assms(2)
      by (auto simp: register_pair_with_event_def register_pair_without_event_def pair_delisted_def hm_get_insert
          split: sum.splits if_splits option.splits prod.splits dest!: append_pairs)
  next
    case (suspend clk now pair r)
    then show ?thesis using assms(2)
      by (auto simp: suspend_pair_def pair_delisted_def set_pair_status_def hm_get_insert
          split: sum.splits option.splits prod.splits pair_status.splits dest!: append_pairs)
  next
    case (delist clk now pair r)
    from delist(1) assms(2) show ?thesis by (rule delist_keeps_delisted)
  next
    case (confirm_event clk now i tx r)
    then show ?thesis using append_pairs by (intro same) (simp add: confirm_append_def)
  next
    case (acquire i pb)
    then show ?thesis by (intro same pairs_similar similar_changes(1))
  next
    case (compact b r)
    then show ?thesis by (intro same) (auto simp: compact_events_before_def split: prod.splits)
  next
    case place
    then show ?thesis by (intro same persist_pairs)
  next
    case cancel
    then show ?thesis by (intro same cancel_pairs)
  next
    case expire
    then show ?thesis by (intro same expire_pairs)
  next
    case round
    then show ?thesis by (intro same round_pairs)
  next
    case fold
    then show ?thesis by (intro same fold_pairs)
  next
    case settled_event
    then show ?thesis by (intro same append_pairs)
  next
    case confirm
    then show ?thesis by (intro same confirm_pairs)
  qed (use assms(2) in \<open>simp_all add: pair_delisted_def pairs_similar [OF similar_changes(2)] pairs_similar [OF similar_changes(4)]
      pairs_similar [OF similar_changes(5)] pairs_similar [OF similar_changes(6)] drop_secret_def prune_dead_secrets_def\<close>)
qed

lemma steps_keep_delisted: "steps C ops en en' \<Longrightarrow> pair_delisted (en_state en) key \<Longrightarrow> pair_delisted (en_state en') key"
  by (induction rule: rtranclp_induct) (auto intro: step_keeps_delisted)

context event_store
begin

section \<open>Client calls are sequences of steps\<close>

lemma place_steps:
  assumes "place_encrypted_order C ops clk now i pf ct caller en = (en', r)" and "find_order (eng_book en) i = None"
    and "now \<noteq> 0" and "room ops en"
  shows "steps C ops en en'"
proof (cases "\<exists>d key spend ord sec rp. place_precheck C (en_state en) ct caller = Inr (d, key) \<and>
    place_registry_check C (en_state en) d key = Inr spend \<and> place_build C d key spend pf ct i now = Inr (ord, sec, rp)")
  case False
  then have "en' = en" using assms(1) by (auto simp: place_encrypted_order_def split: sum.splits prod.splits)
  then show ?thesis by simp
next
  case True
  then obtain d key spend ord sec rp where h: "place_precheck C (en_state en) ct caller = Inr (d, key)"
    "place_registry_check C (en_state en) d key = Inr spend" "place_build C d key spend pf ct i now = Inr (ord, sec, rp)" by blast
  obtain en1 x where x: "persist_order_placed C ops clk ord sec (os_commitment sec) pf ct rp en = (en1, x)"
    by (cases "persist_order_placed C ops clk ord sec (os_commitment sec) pf ct rp en")
  have "en' = en1" using assms(1) h x by (auto simp: place_encrypted_order_def split: sum.splits)
  moreover have "step C ops en en1" using h x assms(2-4) by (intro step.place)
  ultimately show ?thesis by simp
qed

lemma place_effect:
  assumes "collab_ok C" and "engine_inv ops inv en" and "room ops en"
    and "place_precheck C s ct caller = Inr (d, key)" and "place_build C d key spend pf ct i now = Inr (ord, sec, rp)"
    and "find_order (eng_book en) i = None" and "now \<noteq> 0"
    and "persist_order_placed C ops clk ord sec (os_commitment sec) pf ct rp en = (en', Inr sq)"
  shows "find_order (eng_book en') = (find_order (eng_book en))(i \<mapsto> ord\<lparr>order_seq := sq\<rparr>)"
    and "sq = last_seq ops en + 1" and "hm_get (en_secrets en') i = Some sec"
    and "\<exists>e. log (en_store en') = log (en_store en) @ [e] \<and> ev_seq e = last_seq ops en + 1"
proof -
  have st: "state_ok (last_seq ops en) (en_state en)" "secrets_ok en" "inv (en_store en)"
    using assms(2) by (simp_all add: engine_inv_def)
  note p = place_placed_as [OF assms(1,4,5)] and g = persist_success(1) [OF assms(8)]
  let ?es = "[event_at now (OrderPlaced i (os_commitment sec) pf ct)]"
  note eq = assms(8) [unfolded persist_order_placed_def g option.case p(2,3) Let_def]
  obtain en1 es where s: "store_append ops clk ?es en = (en1, Inr es)" using eq by (auto split: prod.splits sum.splits)
  have a: "appended ?es es en en1" using store_append_ok [OF st(3) assms(3) _ s] by simp
  from a obtain e where e: "es = [e]" by (auto simp: appended_def map_eq_Cons_conv)
  show "find_order (eng_book en') = (find_order (eng_book en))(i \<mapsto> ord\<lparr>order_seq := sq\<rparr>)"
    by (rule admit_success [OF st(1,2) a assms(7) p(1,2,4,5,6,7,8) assms(6) g]) (use eq s in \<open>auto\<close>)
  have sq: "sq = ev_seq e \<and> hm_get (en_secrets en') i = Some sec \<and> en_store en' = en_store en1"
    by (rule admit_success [OF st(1,2) a assms(7) p(1,2,4,5,6,7,8) assms(6) g]) (use eq s e p(2) in \<open>auto simp: hm_get_insert\<close>)
  then show "hm_get (en_secrets en') i = Some sec" by simp
  show "sq = last_seq ops en + 1" using sq a e by (auto simp: appended_def)
  show "\<exists>e. log (en_store en') = log (en_store en) @ [e] \<and> ev_seq e = last_seq ops en + 1" using sq a e by (auto simp: appended_def)
qed

lemma cancel_effect:
  assumes "engine_inv ops inv en" and "room ops en" and "cancel_locked C ops clk now i reason en = (en', Inr u)"
  shows "find_order (eng_book en') = without {i} (find_order (eng_book en))" and "en_secrets en' = en_secrets en"
proof -
  let ?es = "[event_at now (OrderCancelled i (case reason of None \<Rightarrow> ''user cancelled'' | Some r \<Rightarrow> r))]"
  have st: "state_ok (last_seq ops en) (en_state en)" "inv (en_store en)" using assms(1) by (simp_all add: engine_inv_def)
  from assms(3) obtain en1 es where s: "store_append ops clk ?es en = (en1, Inr es)" "apply_events C es en1 = Some en'"
    by (auto simp: cancel_locked_def Let_def split: if_splits prod.splits sum.splits option.splits)
  have ap: "appended ?es es en en1" using store_append_ok [OF st(2) assms(2) _ s(1)] by simp
  have eff: "seq_opt (order_effect (co_dec C)) (map ev_data ?es) (find_order (eng_book en)) = Some (without {i} (find_order (eng_book en)))"
    by (simp add: event_at_def new_event_def order_effect_def without_def fun_eq_iff)
  obtain b where "apply_events C es en1 = Some (en1\<lparr>en_state := (en_state en)\<lparr>es_book := b\<rparr>\<rparr>)"
    "find_order b = without {i} (find_order (eng_book en))"
    by (rule order_events_applied [OF st(1) ap _ eff shrinks_without [OF st(1)]]) (simp_all add: event_at_def new_event_def)
  then show "find_order (eng_book en') = without {i} (find_order (eng_book en))" "en_secrets en' = en_secrets en"
    using s(2) appended_facts [OF ap] by auto
qed

lemma cancel_steps:
  assumes "engine_inv ops inv en" and "room ops en" and "cancel_order C ops clk now i reason en = (en', r)"
  shows "steps C ops en en'"
proof -
  obtain en1 x where x: "cancel_locked C ops clk now i reason en = (en1, x)" by (cases "cancel_locked C ops clk now i reason en")
  have s1: "step C ops en en1" using x assms(2) by (rule step.cancel)
  show ?thesis
  proof (cases x)
    case (Inl e)
    then show ?thesis using x s1 assms(3) by (auto simp: cancel_order_def)
  next
    case (Inr u)
    then have "find_order (eng_book en1) i = None" using cancel_effect(1) [OF assms(1,2)] x by (simp add: without_def)
    then have "step C ops en1 (drop_secret i en1)" by (rule step.drop)
    then show ?thesis using x Inr s1 assms(3) by (auto simp: cancel_order_def)
  qed
qed

lemma delist_effect:
  assumes "engine_inv ops inv en" and "room ops en" and "delist_locked C ops clk now pair en = (en', Inr ids)" and "pair_parse pair = Inr key"
  shows "\<exists>cfg. hm_get (es_pair_tokens (en_state en')) key = Some cfg \<and> pc_status cfg = Delisted"
    and "find_order (eng_book en') = without (set ids) (find_order (eng_book en))"
    and "\<forall>i ord. find_order (eng_book en') i = Some ord \<longrightarrow> order_pair ord \<noteq> key"
    and "set ids = {i. \<exists>ord. find_order (eng_book en) i = Some ord \<and> order_pair ord = key}"
proof -
  have st: "state_ok (last_seq ops en) (en_state en)" "inv (en_store en)" using assms(1) by (simp_all add: engine_inv_def)
  have ok: "book_ok (eng_book en)" using st(1) by (simp add: state_ok_def)
  let ?ids = "order_ids_for (eng_book en) key" let ?es = "delist_events now ?ids key"
  from assms(3,4) obtain cfg where cfg: "hm_get (es_pair_tokens (en_state en)) key = Some cfg"
    by (auto simp: delist_locked_def split: option.splits)
  have "(\<exists>cfg. hm_get (es_pair_tokens (en_state en')) key = Some cfg \<and> pc_status cfg = Delisted) \<and>
    find_order (eng_book en') = without (set ids) (find_order (eng_book en)) \<and> set ids = set ?ids"
  proof (cases "pc_status cfg = Delisted")
    case True
    then have e: "en' = en" "ids = []" using assms(3,4) cfg by (simp_all add: delist_locked_def)
    have "order_pair ord \<noteq> key" if "find_order (eng_book en) i = Some ord" for i ord
      using resting_facts(2) [OF st(1) that] True cfg by auto
    then have "set ?ids = {}" using set_order_ids_for(1) [OF ok, of key] by auto
    with e True cfg show ?thesis by (simp add: without_def fun_eq_iff)
  next
    case False
    then obtain en1 es en2 where s: "store_append ops clk ?es en = (en1, Inr es)" "apply_events C es en1 = Some en2"
      "en' = en2\<lparr>en_state := set_pair_status key Delisted (en_state en2)\<rparr>" "ids = ?ids"
      using assms(3,4) cfg
      by (cases "pc_status cfg") (auto simp: delist_locked_def Let_def split: prod.splits sum.splits option.splits)
    have len: "length ?es \<le> 2 ^ 32"
      using set_order_ids_for(2) [OF ok, of key] book_length [OF st(1)] by (simp add: delist_events_def MAX_ACTIVE_ORDERS_def)
    have ap: "appended ?es es en en1" using store_append_ok [OF st(2) assms(2) len s(1)] .
    show ?thesis
      by (rule delist_success [OF st(1) canonical_key [OF assms(4)] ap, of C])
        (use s cfg in \<open>auto simp: set_pair_status_def hm_get_insert\<close>)
  qed
  with set_order_ids_for(1) [OF ok, of key]
  show "\<exists>cfg. hm_get (es_pair_tokens (en_state en')) key = Some cfg \<and> pc_status cfg = Delisted"
    "find_order (eng_book en') = without (set ids) (find_order (eng_book en))"
    "\<forall>i ord. find_order (eng_book en') i = Some ord \<longrightarrow> order_pair ord \<noteq> key"
    "set ids = {i. \<exists>ord. find_order (eng_book en) i = Some ord \<and> order_pair ord = key}" by auto
qed

lemma drop_secrets_steps: "\<forall>i\<in>set ids. find_order (eng_book en) i = None \<Longrightarrow> steps C ops en (fold drop_secret ids en)"
proof (induction ids arbitrary: en)
  case (Cons i ids)
  then have "step C ops en (drop_secret i en)" by (intro step.drop) simp
  moreover have "steps C ops (drop_secret i en) (fold drop_secret ids (drop_secret i en))"
    using Cons.prems by (intro Cons.IH) (simp add: drop_secret_def)
  ultimately show ?case by (simp add: converse_rtranclp_into_rtranclp)
qed simp

lemma delist_steps:
  assumes "engine_inv ops inv en" and "room ops en" and "delist_pair C ops clk now pair en = (en', r)"
  shows "steps C ops en en'"
proof -
  obtain en1 x where x: "delist_locked C ops clk now pair en = (en1, x)" by (cases "delist_locked C ops clk now pair en")
  have s1: "step C ops en en1" using x assms(2) by (rule step.delist)
  show ?thesis
  proof (cases x)
    case (Inl e)
    then show ?thesis using x s1 assms(3) by (auto simp: delist_pair_def)
  next
    case (Inr ids)
    obtain key where "pair_parse pair = Inr key" using x Inr by (auto simp: delist_locked_def split: sum.splits)
    then have "\<forall>i\<in>set ids. find_order (eng_book en1) i = None"
      using delist_effect(2) [OF assms(1,2), of C clk now pair en1 ids key] x Inr by (simp add: without_def)
    then have "steps C ops en1 (fold drop_secret ids en1)" by (rule drop_secrets_steps)
    then show ?thesis using x Inr s1 assms(3) by (auto simp: delist_pair_def intro: converse_rtranclp_into_rtranclp)
  qed
qed

section \<open>Expiry\<close>

lemma expire_effect:
  assumes "engine_inv ops inv en" and "room ops en" and "tick_expire C ops clk now en = Some en'"
    and "\<And>en1 e. store_append ops clk (expiry_events now (eng_book en)) en \<noteq> (en1, Inl e)"
  shows "find_order (eng_book en') i = Some ord \<longleftrightarrow>
    find_order (eng_book en) i = Some ord \<and> \<not> (expires_at ord \<noteq> 0 \<and> expires_at ord \<le> now)"
proof -
  let ?es = "expiry_events now (eng_book en)"
  let ?ex = "filter (\<lambda>ord. expires_at ord \<noteq> 0 \<and> expires_at ord \<le> now) (iter_all (eng_book en))"
  let ?I = "set (map order_id ?ex)"
  have st: "state_ok (last_seq ops en) (en_state en)" "inv (en_store en)" using assms(1) by (simp_all add: engine_inv_def)
  have ok: "book_ok (eng_book en)" using st(1) by (simp add: state_ok_def)
  have f: "find_order (eng_book en') = without ?I (find_order (eng_book en))"
  proof (cases "?es = []")
    case True
    then have "?I = {}" using expiry_data [of now "eng_book en"] by simp
    then show ?thesis using assms(3) True by (simp add: tick_expire_def without_def fun_eq_iff)
  next
    case False
    obtain en1 es where s: "store_append ops clk ?es en = (en1, Inr es)" "apply_events C es en1 = Some en'"
      using assms(3,4) False by (cases "store_append ops clk ?es en"; cases "snd (store_append ops clk ?es en)") (auto simp: tick_expire_def)
    have "length ?es \<le> length (iter_all (eng_book en))" by (simp add: expiry_events_def collect_expired_flat)
    then have len: "length ?es \<le> 2 ^ 32" using book_length [OF st(1)] by (simp add: MAX_ACTIVE_ORDERS_def)
    have ap: "appended ?es es en en1" using store_append_ok [OF st(2) assms(2) len s(1)] .
    have eff: "seq_opt (order_effect (co_dec C)) (map ev_data ?es) (find_order (eng_book en)) = Some (without ?I (find_order (eng_book en)))"
      unfolding expiry_data by (rule seq_opt_cancels(2))
    have oe: "list_all order_event (map ev_data ?es)" unfolding expiry_data by (simp add: list_all_iff)
    show ?thesis by (rule order_events_applied [OF st(1) ap oe eff shrinks_without [OF st(1)]]) (use s(2) in auto)
  qed
  have "i \<in> ?I \<longleftrightarrow> expires_at ord \<noteq> 0 \<and> expires_at ord \<le> now" if "find_order (eng_book en) i = Some ord"
  proof -
    have "order_id ord = i" using bk.entry_law [OF ok that] by simp
    moreover have "x = ord" if "x \<in> set (iter_all (eng_book en))" "order_id x = i" for x
      using that iter_all_find [OF ok, of x] \<open>find_order (eng_book en) i = Some ord\<close> by simp
    moreover have "ord \<in> set (iter_all (eng_book en))" using that iter_all_find [OF ok, of ord] \<open>order_id ord = i\<close> by simp
    ultimately show ?thesis unfolding set_map set_filter by blast
  qed
  then show ?thesis unfolding f without_Some by blast
qed

section \<open>A round\<close>

lemma round_effect:
  assumes "collab_ok C" and "engine_inv ops inv en" and "room ops en"
    and "run (co_dec C) (aid pair) pair (book_bids (eng_book en) pair) (book_asks (eng_book en) pair) = Some (Some r)"
    and "tick_pair C ops clk now aid bid pair en = Some (en', n # ns, pas)"
  shows "find_order (eng_book en') = debit_lookup (\<lambda>i. bid_fills (matches r) i + ask_fills (matches r) i) (find_order (eng_book en))"
    and "en_secrets en' = en_secrets en"
    and "pas = round_aggregations (en_batch_size en) now (bid pair) r (order_snapshot (eng_book en) (matches r))
       (map order_id (book_bids (eng_book en) pair @ book_asks (eng_book en) pair))"
    and "es_auction_log (en_state en') = es_auction_log (en_state en) @ [executed_record now r]"
proof -
  have st: "state_ok (last_seq ops en) (en_state en)" "inv (en_store en)" using assms(2) by (simp_all add: engine_inv_def)
  have dx: "dec_exact (co_dec C)" using assms(1) by (simp add: collab_ok_def)
  from assms(4,5) obtain en1 es where s: "store_append ops clk (round_events now r) en = (en1, Inr es)"
    "apply_events C es (log_auction (executed_record now r) en1) = Some en'"
    "pas = round_aggregations (en_batch_size en) now (bid pair) r (order_snapshot (eng_book en) (matches r))
       (map order_id (book_bids (eng_book en) pair @ book_asks (eng_book en) pair))"
    by (auto simp: tick_pair_def Let_def split: option.splits sum.splits prod.splits)
  have len: "length (round_events now r) \<le> 2 ^ 32" using round_fills(3) [OF dx st(1) assms(4)] by (simp add: round_events_def)
  have ap: "appended (round_events now r) es en en1" using store_append_ok [OF st(2) assms(3) len s(1)] .
  show "find_order (eng_book en') = debit_lookup (\<lambda>i. bid_fills (matches r) i + ask_fills (matches r) i) (find_order (eng_book en))"
    "en_secrets en' = en_secrets en" "es_auction_log (en_state en') = es_auction_log (en_state en) @ [executed_record now r]"
    by (rule round_success [OF st(1) dx assms(4) ap]; use s(2) appended_facts(2) [OF ap] in simp)+
  show "pas = round_aggregations (en_batch_size en) now (bid pair) r (order_snapshot (eng_book en) (matches r))
       (map order_id (book_bids (eng_book en) pair @ book_asks (eng_book en) pair))" by (rule s(3))
qed

end

end
