(* ===== verification/FileDurability.thy ===== *)
theory FileDurability
  imports FileStore
begin

text \<open>
  The file backend below its cache: which bytes are on disk after an append, a crash and a
  compaction, and what reopening the file returns.
\<close>

section \<open>What is on disk\<close>

definition frame :: "codec \<Rightarrow> event \<Rightarrow> bytes" where
  "frame cd e = (case cd_ser cd e of None \<Rightarrow> [] | Some p \<Rightarrow> to_be_bytes (length p mod 2 ^ 32) @ p)"

definition frames :: "codec \<Rightarrow> event list \<Rightarrow> bytes" where
  "frames cd es = concat (map (frame cd) es)"

text \<open>What the store relies on of the codec, for an event: its image can be read back and fits a record.\<close>

definition record_ok :: "codec \<Rightarrow> event \<Rightarrow> bool" where
  "record_ok cd e \<longleftrightarrow>
     (case cd_ser cd e of None \<Rightarrow> False
      | Some p \<Rightarrow> p \<noteq> [] \<and> length p \<le> MAX_RECORD_BYTES \<and> cd_de cd p = Some e)"

definition crash :: "nat \<Rightarrow> file_store \<Rightarrow> bytes" where
  "crash m s = fs_file s @ take m (fs_buf s)"

definition fs_clean :: "codec \<Rightarrow> file_store \<Rightarrow> bool" where
  "fs_clean cd s \<longleftrightarrow> fs_orphan s = None \<and> fs_buf s = [] \<and> fs_path s = frames cd (fs_events s) \<and>
     list_all (record_ok cd) (fs_events s)"

text \<open>The events whose records are whole within the first \<open>n\<close> bytes.\<close>

fun whole :: "codec \<Rightarrow> nat \<Rightarrow> event list \<Rightarrow> event list" where
  "whole cd n [] = []"
| "whole cd n (e # es) = (if length (frame cd e) \<le> n then e # whole cd (n - length (frame cd e)) es else [])"

lemma frames_simps [simp]:
  "frames cd [] = []" "frames cd (e # es) = frame cd e @ frames cd es"
  "frames cd (es @ es') = frames cd es @ frames cd es'"
  by (simp_all add: frames_def)

lemma unat_byte: "unat (word_of_nat n :: byte) = n mod 256"
  by (simp add: unat_of_nat)

lemma from_to_be_bytes:
  assumes "n < 2 ^ 32"
  shows "from_be_bytes (to_be_bytes n) = n"
proof -
  have "n div 2 ^ 24 mod 256 = n div 2 ^ 24" using assms by (simp add: less_mult_imp_div_less)
  moreover have "n div 2 ^ 16 = n div 2 ^ 24 * 256 + n div 2 ^ 16 mod 256"
    using div_mult_mod_eq [of "n div 2 ^ 16" 256] by (simp add: div_mult2_eq [symmetric])
  moreover have "n div 2 ^ 8 = n div 2 ^ 16 * 256 + n div 2 ^ 8 mod 256"
    using div_mult_mod_eq [of "n div 2 ^ 8" 256] by (simp add: div_mult2_eq [symmetric])
  moreover have "n = n div 2 ^ 8 * 256 + n mod 256" by simp
  ultimately show ?thesis
    unfolding from_be_bytes_def to_be_bytes_def by (simp only: foldl.simps unat_byte mult_0 add_0)
qed

lemma record_okE:
  assumes "record_ok cd e"
  obtains p where "cd_ser cd e = Some p" and "frame cd e = to_be_bytes (length p) @ p" and "p \<noteq> []"
    and "length p \<le> MAX_RECORD_BYTES" and "cd_de cd p = Some e"
    and "from_be_bytes (to_be_bytes (length p)) = length p"
proof -
  obtain p where p: "cd_ser cd e = Some p" "p \<noteq> []" "length p \<le> MAX_RECORD_BYTES" "cd_de cd p = Some e"
    using assms by (auto simp: record_ok_def split: option.splits)
  then have "length p < 2 ^ 32" by (simp add: MAX_RECORD_BYTES_def)
  with p from_to_be_bytes [of "length p"] show ?thesis by (intro that) (simp_all add: frame_def)
qed

lemma length_to_be_bytes [simp]: "length (to_be_bytes n) = 4"
  by (simp add: to_be_bytes_def)

lemma load_frame:
  assumes "record_ok cd e"
  shows "load_loop cd [] (frame cd e @ rest) evs sq g =
    load_loop cd [] rest (evs @ [e]) (max sq (ev_seq e)) (g + length (frame cd e))"
proof -
  obtain p where p: "frame cd e = to_be_bytes (length p) @ p" "p \<noteq> []" "length p \<le> MAX_RECORD_BYTES"
    "cd_de cd p = Some e" "from_be_bytes (to_be_bytes (length p)) = length p" using assms by (rule record_okE)
  have "load_loop cd [] (to_be_bytes (length p) @ p @ rest) evs sq g =
      load_loop cd [] rest (evs @ [e]) (if sq < ev_seq e then ev_seq e else sq) (g + (4 + length p))"
    using p(2-5) by (subst load_loop.simps) (simp add: io_pop_def Let_def)
  then show ?thesis by (simp add: p(1) max_def not_le)
qed

lemma load_torn:
  assumes "record_ok cd e" and "n < length (frame cd e)"
  shows "load_loop cd [] (take n (frame cd e)) evs sq g = ([], Inr (evs, sq, g))"
proof -
  obtain p where p: "frame cd e = to_be_bytes (length p) @ p" "p \<noteq> []" "length p \<le> MAX_RECORD_BYTES"
    "from_be_bytes (to_be_bytes (length p)) = length p" using assms(1) by (rule record_okE)
  show ?thesis
  proof (cases "n < 4")
    case True
    then have "length (take n (frame cd e)) < 4" by simp
    then show ?thesis by (subst load_loop.simps) (simp add: io_pop_def del: length_take)
  next
    case False
    then have "take 4 (take n (frame cd e)) = to_be_bytes (length p)"
      "length (drop 4 (take n (frame cd e))) < length p" using assms(2) by (simp_all add: p(1))
    with False p(2-4) assms(2) show ?thesis by (subst load_loop.simps) (simp add: io_pop_def Let_def)
  qed
qed

lemma load_prefix:
  assumes "list_all (record_ok cd) es"
  shows "load_loop cd [] (take n (frames cd es)) evs sq g =
    ([], Inr (evs @ whole cd n es, fold max (map ev_seq (whole cd n es)) sq, g + length (frames cd (whole cd n es))))"
  using assms
proof (induction es arbitrary: n evs sq g)
  case Nil
  show ?case by (subst load_loop.simps) (simp add: io_pop_def)
next
  case (Cons e es)
  then have e: "record_ok cd e" by simp
  show ?case
  proof (cases "length (frame cd e) \<le> n")
    case True
    then have "take n (frames cd (e # es)) = frame cd e @ take (n - length (frame cd e)) (frames cd es)" by simp
    then show ?thesis using Cons.IH Cons.prems True by (simp add: load_frame [OF e] max.commute)
  next
    case False
    then have "take n (frames cd (e # es)) = take n (frame cd e)" by simp
    then show ?thesis using load_torn [OF e] False by simp
  qed
qed

lemma whole_prefix: "\<exists>k. whole cd n es = take k es"
proof (induction es arbitrary: n)
  case (Cons e es)
  then obtain k where "whole cd (n - length (frame cd e)) es = take k es" by blast
  then show ?case
    by (cases "length (frame cd e) \<le> n") (auto intro: exI [of _ "Suc k"] exI [of _ 0])
qed simp

lemma whole_bytes: "length (frames cd (whole cd n es)) \<le> n \<and> take (length (frames cd (whole cd n es))) (frames cd es) = frames cd (whole cd n es)"
proof (induction es arbitrary: n)
  case (Cons e es)
  from Cons.IH [of "n - length (frame cd e)"] show ?case by auto
qed simp

lemma whole_all: "length (frames cd es) \<le> n \<Longrightarrow> whole cd n es = es"
  by (induction es arbitrary: n) auto

lemma whole_append: "whole cd (length (frames cd es) + n) (es @ es') = es @ whole cd n es'"
  by (induction es) auto

text \<open>Opening a file that holds a prefix of good records.\<close>

lemma open_prefix:
  assumes "list_all (record_ok cd) es"
  shows "fs_open cd [] (take n (frames cd es)) =
    (frames cd (whole cd n es),
     Inr \<lparr>fs_path = frames cd (whole cd n es), fs_orphan = None, fs_buf = [], fs_events = whole cd n es,
          fs_seq = fold max (map ev_seq (whole cd n es)) 0, fs_io = []\<rparr>)"
proof -
  have "take (length (frames cd (whole cd n es))) (take n (frames cd es)) = frames cd (whole cd n es)"
    using whole_bytes [of cd n es] by (simp add: min_def)
  then show ?thesis
    by (simp add: fs_open_def load_and_truncate_def io_pop_def load_prefix [OF assms] Let_def io_then_def io_call_def
        io_next_def)
qed

text \<open>What an append leaves behind, whatever fails: the old file, and some prefix of the new records.\<close>

definition wrote :: "bytes \<Rightarrow> file_store \<Rightarrow> file_store \<Rightarrow> event_error + unit \<Rightarrow> bool" where
  "wrote bs s s' r \<longleftrightarrow> fs_path s' = fs_path s \<and> fs_orphan s' = fs_orphan s \<and>
     (\<exists>n. fs_buf s' = fs_buf s @ take n bs \<and> (r = Inr () \<longrightarrow> take n bs = bs))"

definition writes :: "bytes \<Rightarrow> unit file_op \<Rightarrow> bool" where
  "writes bs f \<longleftrightarrow> (\<forall>s. wrote bs s (fst (f s)) (snd (f s)))"

lemma wrote_fail: "wrote bs s s' (Inl e) \<Longrightarrow> wrote (bs @ bs') s s' (Inl e)"
proof -
  assume w: "wrote bs s s' (Inl e)"
  then obtain n where n: "fs_buf s' = fs_buf s @ take n bs" unfolding wrote_def by blast
  have "take n bs = take (min n (length bs)) (bs @ bs')" by (simp add: min_def)
  with n have "fs_buf s' = fs_buf s @ take (min n (length bs)) (bs @ bs')" by (simp only:)
  with w show ?thesis unfolding wrote_def by blast
qed

lemma wrote_trans: "wrote bs s s1 (Inr ()) \<Longrightarrow> wrote bs' s1 s' r \<Longrightarrow> wrote (bs @ bs') s s' r"
proof -
  assume w: "wrote bs s s1 (Inr ())" "wrote bs' s1 s' r"
  then obtain n where n: "fs_buf s' = fs_buf s1 @ take n bs'" "r = Inr () \<longrightarrow> take n bs' = bs'"
    unfolding wrote_def by blast
  have p: "fs_buf s1 = fs_buf s @ bs" "fs_path s' = fs_path s" "fs_orphan s' = fs_orphan s"
    using w by (auto simp: wrote_def)
  have "fs_buf s' = fs_buf s @ take (length bs + n) (bs @ bs')" by (simp add: n(1) p(1))
  moreover have "r = Inr () \<longrightarrow> take (length bs + n) (bs @ bs') = bs @ bs'" using n(2) by simp
  ultimately show ?thesis using p(2,3) unfolding wrote_def by blast
qed

lemma writes_then: "writes bs f \<Longrightarrow> writes bs' g \<Longrightarrow> writes (bs @ bs') (io_then f (\<lambda>_. g))"
proof (unfold writes_def, rule allI)
  fix s
  assume f: "\<forall>s. wrote bs s (fst (f s)) (snd (f s))" and g: "\<forall>s. wrote bs' s (fst (g s)) (snd (g s))"
  obtain s1 r1 where s1: "f s = (s1, r1)" by (cases "f s")
  have w: "wrote bs s s1 r1" using f s1 by (metis fst_conv snd_conv)
  show "wrote (bs @ bs') s (fst (io_then f (\<lambda>_. g) s)) (snd (io_then f (\<lambda>_. g) s))"
  proof (cases r1)
    case (Inl e)
    with w show ?thesis by (simp add: io_then_def s1 wrote_fail)
  next
    case (Inr u)
    with w wrote_trans [of bs s s1 bs'] g show ?thesis by (simp add: io_then_def s1)
  qed
qed

lemma writes_write_all: "writes bs (write_all bs)"
  unfolding writes_def wrote_def
  by (auto simp: write_all_def io_next_def split: list.splits io_result.splits intro: exI [of _ "length bs"])

lemma writes_records: "writes (frames cd es) (write_records cd es)"
proof (induction es)
  case Nil
  show ?case by (simp add: writes_def wrote_def io_return_def)
next
  case (Cons e es)
  show ?case
  proof (cases "cd_ser cd e")
    case None
    then show ?thesis by (auto simp: writes_def wrote_def io_error_def intro: exI [of _ 0])
  next
    case (Some p)
    have "writes (to_be_bytes (length p mod 2 ^ 32) @ p @ frames cd es) (write_records cd (e # es))"
      unfolding write_records.simps Some option.case by (intro writes_then writes_write_all Cons.IH)
    then show ?thesis by (simp add: frame_def Some)
  qed
qed

lemma flush_crash:
  assumes "flush s = (s', r)"
  shows "\<exists>n. crash m s' = fs_file s @ take n (fs_buf s)" and "fs_orphan s = None \<Longrightarrow> fs_orphan s' = None"
    and "r = Inr () \<Longrightarrow> fs_file s' = fs_file s @ fs_buf s \<and> fs_buf s' = []"
proof -
  have "take n xs @ take m (drop n xs) = take (n + m) xs" for n and xs :: bytes by (simp add: take_add)
  then show "\<exists>n. crash m s' = fs_file s @ take n (fs_buf s)"
    using assms
    by (auto simp: flush_def io_next_def crash_def fs_file_def fs_put_def
        split: list.splits io_result.splits option.splits intro: exI [of _ "length (fs_buf s)"]; blast)
qed (use assms in \<open>auto simp: flush_def io_next_def fs_file_def fs_put_def split: list.splits io_result.splits option.splits\<close>)

lemma io_call_disk:
  assumes "io_call s = (s', r)"
  shows "fs_path s' = fs_path s" "fs_orphan s' = fs_orphan s" "fs_buf s' = fs_buf s"
  using assms by (auto simp: io_call_def io_next_def split: list.splits io_result.splits)

lemma append_disk:
  assumes "fs_append cd clk es s = (s', r)" and "assign_all clk es (fs_seq s) = (es', sq')"
    and "fs_orphan s = None" and "fs_buf s = []"
  shows "fs_orphan s' = None" and "\<exists>n. crash m s' = fs_path s @ take n (frames cd es')"
    and "r = Inr x \<Longrightarrow> fs_path s' = fs_path s @ frames cd es' \<and> fs_buf s' = []"
proof -
  let ?s = "s\<lparr>fs_seq := sq'\<rparr>"
  obtain s1 r1 where w: "write_records cd es' ?s = (s1, r1)" by (cases "write_records cd es' ?s")
  have "wrote (frames cd es') ?s s1 r1" using writes_records [of cd es'] w unfolding writes_def by (metis fst_conv snd_conv)
  then obtain n where s1: "fs_path s1 = fs_path s" "fs_orphan s1 = None" "fs_buf s1 = take n (frames cd es')"
    and ok1: "r1 = Inr () \<Longrightarrow> fs_buf s1 = frames cd es'" using assms(3,4) by (auto simp: wrote_def)
  obtain s2 r2 where f: "flush s1 = (s2, r2)" by (cases "flush s1")
  note s2 = flush_crash [OF f]
  obtain s3 r3 where c: "io_call s2 = (s3, r3)" by (cases "io_call s2")
  note s3 = io_call_disk [OF c]
  have file1: "fs_file s1 = fs_path s" using s1 by (simp add: fs_file_def)
  have r: "(s', r) = (case r1 of Inl e \<Rightarrow> (s1, Inl e) | Inr _ \<Rightarrow> (case r2 of Inl e \<Rightarrow> (s2, Inl e) | Inr _ \<Rightarrow>
      (case r3 of Inl e \<Rightarrow> (s3, Inl e) | Inr _ \<Rightarrow> (s3\<lparr>fs_events := fs_events s3 @ es'\<rparr>, Inr es'))))"
    using assms(1) w f c by (simp add: fs_append_def assms(2) io_then_def split: sum.split)
  consider (1) "s' = s1" "\<And>x. r \<noteq> Inr x" | (2) "r1 = Inr ()" "s' = s2" "\<And>x. r \<noteq> Inr x"
    | (3) "r1 = Inr ()" "r2 = Inr ()" "fs_path s' = fs_path s2" "fs_orphan s' = fs_orphan s2" "fs_buf s' = fs_buf s2"
    using r s3 by (cases r1; cases r2; cases r3) auto
  then have "fs_orphan s' = None \<and> (\<exists>n. crash m s' = fs_path s @ take n (frames cd es')) \<and>
      (r = Inr x \<longrightarrow> fs_path s' = fs_path s @ frames cd es' \<and> fs_buf s' = [])"
  proof cases
    case 1
    then show ?thesis using s1 by (auto simp: crash_def file1 take_take)
  next
    case 2
    then show ?thesis using s2(1,2) s1(2) ok1 by (auto simp: file1)
  next
    case 3
    then have "fs_file s2 = fs_path s @ frames cd es'" "fs_buf s2 = []" "fs_orphan s2 = None"
      using s2(2,3) s1(2) ok1 by (auto simp: file1)
    with 3 show ?thesis by (auto simp: crash_def fs_file_def intro: exI [of _ "length (frames cd es')"])
  qed
  then show "fs_orphan s' = None" "\<exists>n. crash m s' = fs_path s @ take n (frames cd es')"
    "r = Inr x \<Longrightarrow> fs_path s' = fs_path s @ frames cd es' \<and> fs_buf s' = []" by blast+
qed

section \<open>The promises of the file backend\<close>

text \<open>C4. Crash consistency of the file log: whatever fails during an append to a clean store and whenever the
  process dies, reopening the file succeeds and returns the events stored before followed by a prefix of the new ones, each whole,
  and leaves a clean store; after an append that reported success it returns all of them.\<close>

theorem append_is_crash_consistent:
  assumes "fs_clean cd s" and "fs_append cd clk es s = (s', r)" and "assign_all clk es (fs_seq s) = (es', sq')"
    and "list_all (record_ok cd) es'"
  shows "\<exists>k st. fs_open cd [] (crash m s') = (fs_path st, Inr st) \<and> fs_clean cd st \<and>
           fs_events st = fs_events s @ take k es' \<and> (r = Inr es' \<longrightarrow> fs_events st = fs_events s @ es')"
proof -
  have c: "fs_orphan s = None" "fs_buf s = []" "fs_path s = frames cd (fs_events s)"
    "list_all (record_ok cd) (fs_events s)" using assms(1) by (simp_all add: fs_clean_def)
  note d = append_disk [OF assms(2,3) c(1,2)]
  let ?all = "fs_events s @ es'"
  obtain n where n: "crash m s' = frames cd (fs_events s) @ take n (frames cd es')" using d(2) c(3) by metis
  let ?n = "length (frames cd (fs_events s)) + n"
  let ?st = "\<lparr>fs_path = frames cd (whole cd ?n ?all), fs_orphan = None, fs_buf = [], fs_events = whole cd ?n ?all,
      fs_seq = fold max (map ev_seq (whole cd ?n ?all)) 0, fs_io = []\<rparr>"
  have ok: "list_all (record_ok cd) ?all" using c(4) assms(4) by simp
  have "crash m s' = take ?n (frames cd ?all)" by (simp add: n)
  then have op: "fs_open cd [] (crash m s') = (fs_path ?st, Inr ?st)" using open_prefix [OF ok, of ?n] by simp
  obtain k where k: "whole cd n es' = take k es'" using whole_prefix by blast
  have ev: "fs_events ?st = fs_events s @ take k es'" by (simp add: whole_append k)
  have "fs_clean cd ?st" using ev ok by (auto simp: fs_clean_def whole_append k list_all_iff dest: in_set_takeD)
  moreover have "fs_events ?st = ?all" if "r = Inr es'"
  proof -
    have "crash m s' = frames cd ?all" using d(1) d(3) [of es'] that c(3) by (simp add: crash_def fs_file_def)
    then have "take n (frames cd es') = frames cd es'" using n by simp
    then have "whole cd n es' = es'" by (intro whole_all) (simp only: take_all_iff)
    then show ?thesis by (simp add: whole_append)
  qed
  ultimately show ?thesis using op ev by blast
qed

definition sample_codec :: codec where
  "sample_codec = \<lparr>cd_ser = (\<lambda>e. Some [word_of_nat (ev_seq e)]),
     cd_de = (\<lambda>bs. Some ((new_event (OrderExpired 1))\<lparr>ev_seq := unat (hd bs), ev_timestamp := 7\<rparr>))\<rparr>"

definition sample_file :: file_store where
  "sample_file = \<lparr>fs_path = [], fs_orphan = None, fs_buf = [], fs_events = [], fs_seq = 0, fs_io = [IoOk, IoOk, IoOk, IoOk, IoFail 6]\<rparr>"

theorem append_is_crash_consistent_witness:
  "\<exists>st. fs_open sample_codec [] (crash 3 (fst (fs_append sample_codec (\<lambda>_. 7)
            [new_event (OrderExpired 1), new_event (OrderExpired 1)] sample_file))) = (fs_path st, Inr st) \<and>
        fs_clean sample_codec st"
proof -
  let ?es = "[new_event (OrderExpired 1), new_event (OrderExpired 1)]"
  obtain s' r where a: "fs_append sample_codec (\<lambda>_. 7) ?es sample_file = (s', r)"
    by (cases "fs_append sample_codec (\<lambda>_. 7) ?es sample_file")
  obtain es' sq' where n: "assign_all (\<lambda>_. 7) ?es (fs_seq sample_file) = (es', sq')"
    by (cases "assign_all (\<lambda>_. 7) ?es (fs_seq sample_file)")
  have "list_all (record_ok sample_codec) es'"
    using n by (auto simp: sample_file_def assign_seq_and_timestamp_def record_ok_def sample_codec_def new_event_def
        MAX_RECORD_BYTES_def)
  moreover have "fs_clean sample_codec sample_file" by (simp add: fs_clean_def sample_file_def)
  ultimately show ?thesis using append_is_crash_consistent [OF _ a n, of 3] unfolding a by auto
qed

text \<open>Compaction: which of its calls touch the file.\<close>

definition same_disk :: "file_store \<Rightarrow> file_store \<Rightarrow> bool" where
  "same_disk s s' \<longleftrightarrow> fs_path s' = fs_path s \<and> fs_orphan s' = fs_orphan s \<and> fs_buf s' = fs_buf s"

lemma io_call_same_disk: "io_call s = (s', r) \<Longrightarrow> same_disk s s'"
  using io_call_disk by (simp add: same_disk_def)

lemma tmp_records_disk:
  assumes "tmp_records cd es acc s = (s', Inr tmp)"
  shows "tmp = acc @ frames cd es \<and> same_disk s s'"
  using assms
proof (induction es arbitrary: acc s)
  case Nil
  then show ?case by (simp add: io_return_def same_disk_def)
next
  case (Cons e es)
  from Cons.prems obtain p where p: "cd_ser cd e = Some p" by (auto simp: io_error_def split: option.splits)
  with Cons.prems obtain s1 s2 u1 u2 where c: "io_call s = (s1, Inr u1)" "io_call s1 = (s2, Inr u2)"
    and r: "tmp_records cd es (acc @ to_be_bytes (length p mod 2 ^ 32) @ p) s2 = (s', Inr tmp)"
    by (auto simp: io_then_cases)
  from Cons.IH [OF r] io_call_same_disk [OF c(1)] io_call_same_disk [OF c(2)] show ?case
    by (simp add: same_disk_def frame_def p)
qed

lemma rename_tmp_disk: "rename_tmp tmp s = (s', Inr u) \<Longrightarrow> fs_path s' = tmp \<and> fs_buf s' = fs_buf s"
  using io_call_disk by (force simp: rename_tmp_def io_then_cases)

lemma reopen_disk: "reopen s = (s', Inr u) \<Longrightarrow> fs_path s' = fs_path s \<and> fs_orphan s' = None \<and> fs_buf s' = []"
  by (auto simp: reopen_def io_then_cases same_disk_def dest!: io_call_same_disk)

lemma compact_disk:
  assumes "fs_compact_before cd b s = (s', Inr u)" and "b \<noteq> 0"
  shows "fs_path s' = frames cd (filter (\<lambda>e. b \<le> ev_seq e) (fs_events s)) \<and> fs_orphan s' = None \<and> fs_buf s' = [] \<and>
    fs_events s' = filter (\<lambda>e. b \<le> ev_seq e) (fs_events s)"
proof -
  from assms obtain s1 s2 s3 u1 u2 u3 where c: "flush s = (s1, Inr u1)" "io_call s1 = (s2, Inr u2)" "io_call s2 = (s3, Inr u3)"
    and k: "io_then (tmp_records cd (filter (\<lambda>e. b \<le> ev_seq e) (fs_events s3)) []) (\<lambda>tmp.
        io_then io_call (\<lambda>_. io_then io_call (\<lambda>_. io_then (rename_tmp tmp) (\<lambda>_. io_then reopen (\<lambda>_ s.
          (s\<lparr>fs_events := filter (\<lambda>e. b \<le> ev_seq e) (fs_events s)\<rparr>, Inr ())))))) s3 = (s', Inr u)"
    by (auto simp: fs_compact_before_def io_then_cases)
  from k obtain s4 s5 s6 s7 s8 tmp u5 u6 u7 u8 where
    t: "tmp_records cd (filter (\<lambda>e. b \<le> ev_seq e) (fs_events s3)) [] s3 = (s4, Inr tmp)" and
    d: "io_call s4 = (s5, Inr u5)" "io_call s5 = (s6, Inr u6)" and
    n: "rename_tmp tmp s6 = (s7, Inr u7)" and o: "reopen s7 = (s8, Inr u8)" and
    s': "s' = s8\<lparr>fs_events := filter (\<lambda>e. b \<le> ev_seq e) (fs_events s8)\<rparr>"
    by (auto simp: io_then_cases)
  have e3: "fs_events s3 = fs_events s"
    using keeps_cacheD [OF keeps_cache_basic(5) c(1)] keeps_cacheD [OF keeps_cache_basic(3) c(2)]
      keeps_cacheD [OF keeps_cache_basic(3) c(3)] by simp
  have "fs_events s8 = fs_events s3"
    using keeps_cacheD [OF keeps_cache_records(2) t] keeps_cacheD [OF keeps_cache_basic(3) d(1)]
      keeps_cacheD [OF keeps_cache_basic(3) d(2)] keeps_cacheD [OF keeps_cache_publish(1) n]
      keeps_cacheD [OF keeps_cache_publish(2) o] by simp
  then show ?thesis
    using tmp_records_disk [OF t] rename_tmp_disk [OF n] reopen_disk [OF o] e3 by (simp add: s')
qed

text \<open>C32. Compaction keeps what it promises, on disk too: when compacting a clean store succeeds, the file holds exactly
  the records of the events from the given sequence number on, and reopening it returns those.\<close>

theorem compaction_keeps_tail:
  assumes "fs_clean cd s" and "fs_compact_before cd b s = (s', Inr u)"
  shows "fs_clean cd s' \<and> fs_events s' = filter (\<lambda>e. b \<le> ev_seq e) (fs_events s) \<and>
    (\<exists>st. fs_open cd [] (crash m s') = (fs_path st, Inr st) \<and> fs_events st = filter (\<lambda>e. b \<le> ev_seq e) (fs_events s))"
proof -
  let ?kept = "filter (\<lambda>e. b \<le> ev_seq e) (fs_events s)"
  have ok: "list_all (record_ok cd) ?kept" using assms(1) by (auto simp: fs_clean_def list_all_iff)
  have s': "fs_path s' = frames cd ?kept \<and> fs_orphan s' = None \<and> fs_buf s' = [] \<and> fs_events s' = ?kept"
  proof (cases "b = 0")
    case True
    then have "s' = s" using assms(2) by (simp add: fs_compact_before_def)
    then show ?thesis using assms(1) True by (simp add: fs_clean_def)
  qed (rule compact_disk [OF assms(2)])
  have "fs_open cd [] (crash m s') = fs_open cd [] (take (length (frames cd ?kept)) (frames cd ?kept))"
    using s' by (simp add: crash_def fs_file_def)
  then show ?thesis
    using open_prefix [OF ok, of "length (frames cd ?kept)"] s' ok by (simp add: whole_all fs_clean_def)
qed

definition sample_file2 :: file_store where
  "sample_file2 = (let es = fst (assign_all (\<lambda>_. 7) [new_event (OrderExpired 1), new_event (OrderExpired 1)] 0) in
     \<lparr>fs_path = frames sample_codec es, fs_orphan = None, fs_buf = [], fs_events = es, fs_seq = 2, fs_io = []\<rparr>)"

lemma sample_file2_clean: "fs_clean sample_codec sample_file2"
  by (simp add: fs_clean_def sample_file2_def assign_seq_and_timestamp_def record_ok_def sample_codec_def new_event_def
        MAX_RECORD_BYTES_def)

theorem compaction_keeps_tail_witness:
  "fs_clean sample_codec (fst (fs_compact_before sample_codec 2 sample_file2)) \<and>
   fs_events (fst (fs_compact_before sample_codec 2 sample_file2)) = filter (\<lambda>e. 2 \<le> ev_seq e) (fs_events sample_file2)"
proof -
  have "snd (fs_compact_before sample_codec 2 sample_file2) = Inr ()"
    by (simp add: fs_compact_before_def sample_file2_def sample_codec_def io_then_def io_call_def io_next_def flush_def
        fs_put_def rename_tmp_def reopen_def io_return_def assign_seq_and_timestamp_def new_event_def Let_def)
  then obtain s' where s': "fs_compact_before sample_codec 2 sample_file2 = (s', Inr ())"
    by (cases "fs_compact_before sample_codec 2 sample_file2") simp
  show ?thesis using compaction_keeps_tail [OF sample_file2_clean s'] by (simp add: s')
qed

text \<open>Two ways in which an append that reported success is not durable.\<close>

lemma write_all_ok: "fs_io s = [] \<Longrightarrow> write_all bs s = (s\<lparr>fs_buf := fs_buf s @ bs\<rparr>, Inr ())"
  by (simp add: write_all_def io_next_def)

lemma append_one_ok:
  assumes "fs_io s = []" and "fs_buf s = []" and "assign_all clk [e] (fs_seq s) = ([e'], sq')" and "cd_ser cd e' = Some p"
  shows "fs_append cd clk [e] s =
    (fs_put (fs_file s @ frame cd e') (s\<lparr>fs_seq := sq'\<rparr>) \<lparr>fs_events := fs_events s @ [e']\<rparr>, Inr [e'])"
proof -
  have w: "write_records cd [e'] (s\<lparr>fs_seq := sq'\<rparr>) = (s\<lparr>fs_seq := sq', fs_buf := frame cd e'\<rparr>, Inr ())"
    using assms(1,2,4) by (simp add: io_then_def write_all_ok io_return_def frame_def)
  have f: "flush (s\<lparr>fs_seq := sq', fs_buf := frame cd e'\<rparr>) = (fs_put (fs_file s @ frame cd e') (s\<lparr>fs_seq := sq'\<rparr>), Inr ())"
    using assms(1,2) by (simp add: flush_def io_next_def fs_put_def fs_file_def split: option.split)
  have "io_call (fs_put (fs_file s @ frame cd e') (s\<lparr>fs_seq := sq'\<rparr>)) =
      (fs_put (fs_file s @ frame cd e') (s\<lparr>fs_seq := sq'\<rparr>), Inr ())"
    using assms(1) by (simp add: io_call_def io_next_def fs_put_def split: option.split)
  then show ?thesis
    by (simp add: fs_append_def assms(3) io_then_def w f del: write_records.simps assign_all.simps)
       (simp add: fs_put_def split: option.split)
qed

text \<open>C33. An event whose image exceeds the record limit is accepted by an append without an error, but reopening the
  file stops in front of it: the event, and every event appended after it, is gone.\<close>

theorem oversized_event_is_lost_on_reopen:
  assumes "fs_clean cd s" and "fs_io s = []" and "assign_all clk [e] (fs_seq s) = ([e'], sq')"
    and "cd_ser cd e' = Some p" and "MAX_RECORD_BYTES < length p" and "length p < 2 ^ 32"
  shows "snd (fs_append cd clk [e] s) = Inr [e'] \<and>
    (\<exists>st. snd (fs_open cd [] (fs_path (fst (fs_append cd clk [e] s)) @ later)) = Inr st \<and> fs_events st = fs_events s)"
proof -
  have c: "fs_orphan s = None" "fs_buf s = []" "fs_path s = frames cd (fs_events s)" "list_all (record_ok cd) (fs_events s)"
    using assms(1) by (simp_all add: fs_clean_def)
  note a = append_one_ok [OF assms(2) c(2) assms(3,4)]
  have path: "fs_path (fst (fs_append cd clk [e] s)) = frames cd (fs_events s) @ to_be_bytes (length p) @ p"
    using c(1,3) assms(4,6) by (simp add: a fs_put_def fs_file_def frame_def)
  have stop: "load_loop cd [] (to_be_bytes (length p) @ p @ later) evs sq g = ([], Inr (evs, sq, g))" for evs sq g
    using assms(5) from_to_be_bytes [OF assms(6)] by (subst load_loop.simps) (simp add: io_pop_def Let_def)
  have load: "load_loop cd [] (frames cd es @ to_be_bytes (length p) @ p @ later) evs sq g =
      ([], Inr (evs @ es, fold max (map ev_seq es) sq, g + length (frames cd es)))"
    if "list_all (record_ok cd) es" for es evs sq g
    using that by (induction es arbitrary: evs sq g) (simp_all add: stop load_frame max.commute)
  show ?thesis
    using load [OF c(4), of "[]" 0 0] unfolding path
    by (simp add: a fs_open_def load_and_truncate_def io_pop_def Let_def io_then_def io_call_def io_next_def)
qed

definition big_codec :: codec where
  "big_codec = \<lparr>cd_ser = (\<lambda>e. Some (replicate (MAX_RECORD_BYTES + 1) 0)), cd_de = (\<lambda>bs. None)\<rparr>"

theorem oversized_event_is_lost_on_reopen_witness:
  "\<exists>st. snd (fs_open big_codec [] (fs_path (fst (fs_append big_codec (\<lambda>_. 7) [new_event (OrderExpired 1)]
        (sample_file\<lparr>fs_io := []\<rparr>))))) = Inr st \<and> fs_events st = []"
proof -
  have n: "assign_all (\<lambda>_. 7) [new_event (OrderExpired 1)] (fs_seq (sample_file\<lparr>fs_io := []\<rparr>)) =
      ([(new_event (OrderExpired 1))\<lparr>ev_seq := 1, ev_timestamp := 7\<rparr>], 1)"
    by (simp add: sample_file_def assign_seq_and_timestamp_def new_event_def)
  have "fs_clean big_codec (sample_file\<lparr>fs_io := []\<rparr>)" by (simp add: fs_clean_def sample_file_def)
  from oversized_event_is_lost_on_reopen [OF this _ n, of "replicate (MAX_RECORD_BYTES + 1) 0" "[]"]
  show ?thesis by (simp add: big_codec_def MAX_RECORD_BYTES_def sample_file_def)
qed



end
