(* ===== verification/Sample.thy ===== *)
theory Sample
  imports EngineEffects FileDurability
begin

text \<open>
  A concrete instance of every parameter of the engine, shown to have the documented behaviour the
  theorems assume, and a small run of the engine on the file store: one pair, a bid and an ask that
  cross. The witnesses of the engine's properties use it.
\<close>

section \<open>Hexadecimal text\<close>

definition hex_digit :: "nat \<Rightarrow> char" where
  "hex_digit n = (''0123456789abcdef'' ! (n mod 16))"

fun hex_value :: "char \<Rightarrow> nat option" where
  "hex_value c =
     (if 48 \<le> code c \<and> code c \<le> 57 then Some (code c - 48)
      else if 97 \<le> code c \<and> code c \<le> 102 then Some (code c - 87) else None)"

definition hex_encode_ref :: "bytes \<Rightarrow> string" where
  "hex_encode_ref bs = concat (map (\<lambda>b. [hex_digit (unat b div 16), hex_digit (unat b mod 16)]) bs)"

fun hex_decode_ref :: "string \<Rightarrow> bytes option" where
  "hex_decode_ref [] = Some []"
| "hex_decode_ref [c] = None"
| "hex_decode_ref (c # d # s) = do { x \<leftarrow> hex_value c; y \<leftarrow> hex_value d; bs \<leftarrow> hex_decode_ref s; Some (of_nat (16 * x + y) # bs) }"

lemma hex_value_digit: "n < 16 \<Longrightarrow> hex_value (hex_digit n) = Some n"
proof -
  have "list_all (\<lambda>n. hex_value (hex_digit n) = Some n) [0..<16]" by code_simp
  moreover assume "n < 16"
  ultimately show ?thesis by (simp add: list_all_iff del: hex_value.simps)
qed

lemma hex_digit_no_x: "hex_digit n \<noteq> CHR ''x''"
proof -
  have "n mod 16 < 16" by simp
  then have "hex_value (hex_digit (n mod 16)) = Some (n mod 16)" by (rule hex_value_digit)
  moreover have "hex_digit (n mod 16) = hex_digit n" by (simp add: hex_digit_def)
  moreover have "hex_value (CHR ''x'') = None" by (simp add: code_def)
  ultimately show ?thesis by (metis option.distinct(1))
qed

lemma hex_roundtrip: "hex_decode_ref (hex_encode_ref bs) = Some bs"
proof (induction bs)
  case (Cons b bs)
  have "unat b < 256" using unsigned_less [of b, where 'a = nat] by simp
  then have b: "unat b div 16 < 16" "unat b mod 16 < 16" by (simp_all add: less_mult_imp_div_less)
  have "16 * (unat b div 16) + unat b mod 16 = unat b" by simp
  moreover have "word_of_nat (unat b) = b" by simp
  ultimately have "word_of_nat (16 * (unat b div 16) + unat b mod 16) = b" by (simp only:)
  with Cons hex_value_digit [OF b(1)] hex_value_digit [OF b(2)] show ?case
    by (simp add: hex_encode_ref_def del: hex_value.simps of_nat_add of_nat_mult)
qed (simp add: hex_encode_ref_def)

lemma hex_no_x: "CHR ''x'' \<notin> set (hex_encode_ref bs)"
  using hex_digit_no_x [symmetric] by (induction bs) (simp_all add: hex_encode_ref_def)

section \<open>The collaborators\<close>

definition zeros64 :: string where
  "zeros64 = replicate 64 CHR ''0''"

text \<open>The ciphertext \<open>[1]\<close> is a bid of trader 1, every other one an ask of trader 2; the nonces differ.\<close>

definition decrypt_ref :: "bytes \<Rightarrow> string + decrypted_order" where
  "decrypt_ref ct = Inr (if ct = [1]
     then \<lparr>do_trader = 1, do_pair = ''A/B'', do_side = Buy, do_price = 12, do_size = 5, do_commitment_key = ''k'',
           do_salt = zeros64, do_nonce = zeros64, do_expires_at_unix_nanos = 1000, do_ttl = 0\<rparr>
     else \<lparr>do_trader = 2, do_pair = ''A/B'', do_side = Sell, do_price = 10, do_size = 3, do_commitment_key = ''k'',
           do_salt = zeros64, do_nonce = zeros64, do_expires_at_unix_nanos = 2000, do_ttl = 0\<rparr>)"

definition collab_ref :: collab where
  "collab_ref = \<lparr>co_dec = dec_ref, co_sponge = (\<lambda>xs. sum_list xs mod FR_MODULUS), co_sha256 = (\<lambda>bs. bs),
     co_hex_encode = hex_encode_ref, co_hex_decode = hex_decode_ref, co_decrypt = decrypt_ref,
     co_lookup = (\<lambda>_ _ _. Inr (1000, 0)), co_verifier = None,
     co_addr_hex = (\<lambda>a. replicate a CHR ''1''), co_addr_parse = (\<lambda>s. Some (length s)),
     co_from_timestamp = (\<lambda>s n. Some (s * 1000000000 + n))\<rparr>"

lemma representable_small: "representable 12" "representable 10" "representable 5" "representable 3"
  using representableI [of 0 12 12] representableI [of 0 10 10] representableI [of 0 5 5] representableI [of 0 3 3] by simp_all

lemma FR_MODULUS_pos: "0 < FR_MODULUS"
  by (simp add: FR_MODULUS_def)

lemma collab_ok_ref: "collab_ok collab_ref"
  by (auto simp: collab_ok_def collab_ref_def dec_exact_ref dec_checked_ref FR_MODULUS_pos hex_roundtrip hex_no_x
      decrypt_ref_def representable_small split: if_splits)

section \<open>A run on the file store\<close>

abbreviation sops :: "file_store store_ops" where
  "sops \<equiv> file_ops sample_codec"

definition fresh_file :: file_store where
  "fresh_file = \<lparr>fs_path = [], fs_orphan = None, fs_buf = [], fs_events = [], fs_seq = 0, fs_io = []\<rparr>"

definition calm :: "nat \<Rightarrow> file_store engine \<Rightarrow> bool" where
  "calm n en \<longleftrightarrow> fs_io (en_store en) = [] \<and> fs_buf (en_store en) = [] \<and> fs_seq (en_store en) = n \<and> en_batch_size en = 8"

lemma calm_append:
  assumes "calm n en" and "n < 1000" and "ev_timestamp e \<noteq> 0"
  obtains st where "store_append sops clk [e] en = (en\<lparr>en_store := st\<rparr>, Inr [e\<lparr>ev_seq := n + 1\<rparr>])" and "calm (n + 1) (en\<lparr>en_store := st\<rparr>)"
    and "fs_events st = fs_events (en_store en) @ [e\<lparr>ev_seq := n + 1\<rparr>]"
proof -
  let ?s = "en_store en" let ?e = "e\<lparr>ev_seq := n + 1\<rparr>"
  have a: "assign_all clk [e] (fs_seq ?s) = ([?e], n + 1)"
    using assms by (simp add: calm_def assign_seq_room)
  have s: "cd_ser sample_codec ?e = Some [word_of_nat (n + 1)]" by (simp add: sample_codec_def)
  note ao = append_one_ok [OF _ _ a s]
  show ?thesis
  proof (rule that)
    show "store_append sops clk [e] en = (en\<lparr>en_store := (fs_put (fs_file ?s @ frame sample_codec ?e) (?s\<lparr>fs_seq := n + 1\<rparr>))
        \<lparr>fs_events := fs_events ?s @ [?e]\<rparr>\<rparr>, Inr [?e])"
      using assms(1) ao by (simp add: calm_def store_append_def file_ops_def)
    show "calm (n + 1) (en\<lparr>en_store := (fs_put (fs_file ?s @ frame sample_codec ?e) (?s\<lparr>fs_seq := n + 1\<rparr>))
        \<lparr>fs_events := fs_events ?s @ [?e]\<rparr>\<rparr>)"
      using assms(1) by (simp add: calm_def fs_put_def split: option.split)
  qed simp
qed

definition eng0 :: "file_store engine" where
  "eng0 = engine_new fresh_file 0"

definition eng1 :: "file_store engine" where
  "eng1 = fst (register_pair_with_event collab_ref sops (\<lambda>_. 7) 5 ''A/B'' pair_config_default eng0)"

definition place_bid :: "file_store engine \<Rightarrow> file_store engine \<times> (engine_error + order)" where
  "place_bid = place_encrypted_order collab_ref sops (\<lambda>_. 7) 5 1 [] [1] 1"

definition place_ask :: "file_store engine \<Rightarrow> file_store engine \<times> (engine_error + order)" where
  "place_ask = place_encrypted_order collab_ref sops (\<lambda>_. 7) 5 2 [] [2] 2"

definition eng2 :: "file_store engine" where
  "eng2 = fst (place_bid eng1)"

definition eng3 :: "file_store engine" where
  "eng3 = fst (place_ask eng2)"

lemma pair_AB: "pair_parse ''A/B'' = Inr ''A/B''"
  by code_simp

lemma eng1_facts:
  "calm 1 eng1" "en_state eng1 = engine_state_new\<lparr>es_pair_tokens := [(''A/B'', pair_config_default)]\<rparr>" "en_secrets eng1 = []"
  "\<exists>e. fs_events (en_store eng1) = [e] \<and> ev_seq e = 1"
proof -
  have "calm 0 eng0" by (simp add: calm_def eng0_def engine_new_def fresh_file_def)
  from calm_append [OF this, of "event_at 5 (pair_registered_event collab_ref ''A/B'' pair_config_default)" "\<lambda>_. 7"]
  obtain st where st: "store_append sops (\<lambda>_. 7) [event_at 5 (pair_registered_event collab_ref ''A/B'' pair_config_default)] eng0 =
      (eng0\<lparr>en_store := st\<rparr>, Inr [(event_at 5 (pair_registered_event collab_ref ''A/B'' pair_config_default))\<lparr>ev_seq := 0 + 1\<rparr>])"
    "calm (0 + 1) (eng0\<lparr>en_store := st\<rparr>)"
    "fs_events st = fs_events (en_store eng0) @ [(event_at 5 (pair_registered_event collab_ref ''A/B'' pair_config_default))\<lparr>ev_seq := 0 + 1\<rparr>]"
    by (auto simp: event_at_def)
  have e: "eng1 = register_pair_without_event ''A/B'' pair_config_default (eng0\<lparr>en_store := st\<rparr>)"
    by (simp add: eng1_def register_pair_with_event_def pair_AB st(1)) (simp add: eng0_def engine_new_def engine_state_new_def)
  show "\<exists>e. fs_events (en_store eng1) = [e] \<and> ev_seq e = 1"
    using st(3) by (simp add: e register_pair_without_event_def eng0_def engine_new_def fresh_file_def)
  show "calm 1 eng1" using st(2) by (simp add: e calm_def register_pair_without_event_def)
  show "en_state eng1 = engine_state_new\<lparr>es_pair_tokens := [(''A/B'', pair_config_default)]\<rparr>" "en_secrets eng1 = []"
    by (simp_all add: e register_pair_without_event_def eng0_def engine_new_def engine_state_new_def)
qed

text \<open>The two orders, field by field.\<close>

definition NULL_TAG :: nat where
  "NULL_TAG = 99839888443581014330806585965497300342198672258609"

definition zero32 :: bytes where
  "zero32 = fr_to_bytes32 0"

lemma zero32_scalar: "bytes32_to_scalar zero32 = Inr 0"
  by (simp add: zero32_def bytes32_to_scalar_Inr FR_MODULUS_pos)

lemma hex_zeros: "hex_decode_ref (replicate (2 * n) CHR ''0'') = Some (replicate n 0)"
  by (induction n) (simp_all add: code_def)

lemma zero32_bytes: "zero32 = replicate 32 0"
proof -
  have "to_le_bytes n 0 = replicate n 0" for n by (induction n) simp_all
  then show ?thesis by (simp add: zero32_def fr_to_bytes32_rev)
qed

lemma zeros_parse: "parse_lowercase_hex32 collab_ref zeros64 err = Inr zero32" "parse_order_salt collab_ref zeros64 = Inr zero32"
proof -
  have "list_all is_lowercase_hexdigit (replicate 64 CHR ''0'')"
    by (simp add: list_all_iff is_lowercase_hexdigit_def is_ascii_digit_def is_ascii_upper_def code_def)
  moreover have "hex_decode_ref (replicate 64 CHR ''0'') = Some (replicate 32 0)" using hex_zeros [of 32] by simp
  ultimately show p: "parse_lowercase_hex32 collab_ref zeros64 err = Inr zero32" for err
    by (simp add: parse_lowercase_hex32_def zeros64_def collab_ref_def zero32_bytes)
  show "parse_order_salt collab_ref zeros64 = Inr zero32" by (simp add: parse_order_salt_def p zero32_scalar)
qed

definition sample_secrets :: "nat \<Rightarrow> nat \<Rightarrow> order_secrets" where
  "sample_secrets t c = \<lparr>os_salt = zero32, os_trader_id = fr_to_bytes32 t, os_commitment = fr_to_bytes32 c,
     os_nullifier = fr_to_bytes32 (NULL_TAG + c), os_balance = 1000, os_position = 0\<rparr>"

lemma derive_ref:
  assumes "t < 2 ^ 100" and "encodable p" and "encodable sz"
  shows "derive_order_secrets collab_ref (addr_bytes t) sd p sz 1000 0 zero32 =
    Inr (sample_secrets t (t + (if sd = 0 then 0 else 1) + nat \<lfloor>p * 10 ^ 8\<rfloor> + nat \<lfloor>sz * 10 ^ 8\<rfloor>))"
proof -
  let ?lp = "nat \<lfloor>p * 10 ^ 8\<rfloor>" let ?ls = "nat \<lfloor>sz * 10 ^ 8\<rfloor>"
  have small: "?lp < 2 ^ 60" "?ls < 2 ^ 60" using encodable_scaled [OF assms(2)] encodable_scaled [OF assms(3)] by (simp_all add: nat_less_iff)
  have t: "bytes_to_scalar (addr_bytes t) = Inr t"
    using assms(1) by (simp add: bytes_to_scalar_def addr_bytes_def from_be_bytes_mod_order_def be_nat_to_le_bytes fr_from_def FR_MODULUS_def)
  have m: "t < FR_MODULUS" using assms(1) by (simp add: FR_MODULUS_def)
  have s: "(t + (if sd = 0 then 0 else 1) + ?lp + ?ls) < FR_MODULUS" "NULL_TAG + (t + (if sd = 0 then 0 else 1) + ?lp + ?ls) < FR_MODULUS"
    using small assms(1) by (simp_all add: FR_MODULUS_def NULL_TAG_def)
  have b: "bytes32_to_scalar (fr_to_bytes32 t) = Inr t" using m by (simp add: bytes32_to_scalar_Inr)
  show ?thesis
    using t m s decimal_to_scalar_encodable [OF dec_exact_ref assms(2)] decimal_to_scalar_encodable [OF dec_exact_ref assms(3)]
    by (simp add: derive_order_secrets_def derive_trader_id_bytes_fr collab_ref_def compute_poseidon_commitment_fr_def b zero32_scalar
        from_decimals_def commit_native_def as_field_elements_def compute_nullifier_native_def nullifier_domain_ok
        sample_secrets_def NULL_TAG_def add.assoc)
qed

definition bid_plain :: decrypted_order where
  "bid_plain = (case decrypt_ref [1] of Inr d \<Rightarrow> d | Inl _ \<Rightarrow> undefined)"

definition ask_plain :: decrypted_order where
  "ask_plain = (case decrypt_ref [2] of Inr d \<Rightarrow> d | Inl _ \<Rightarrow> undefined)"

lemmas plain_defs = bid_plain_def ask_plain_def decrypt_ref_def

definition sample_keys :: "address \<Rightarrow> nat \<Rightarrow> replay_protection" where
  "sample_keys t c = \<lparr>rp_nullifier = fr_to_bytes32 (NULL_TAG + c), rp_order_nonce_digest = order_nonce_digest collab_ref t zero32\<rparr>"

definition the_bid :: "nat \<Rightarrow> order" where
  "the_bid sq = new_order bid_plain ''A/B'' [1] 1 5 1000 sq"

definition the_ask :: "nat \<Rightarrow> order" where
  "the_ask sq = new_order ask_plain ''A/B'' [2] 2 5 2000 sq"

lemma encodable_small: "encodable 12" "encodable 10" "encodable 5" "encodable 3"
  by (simp_all add: encodable_def is_multiple_def)

lemma bid_build: "place_build collab_ref bid_plain ''A/B'' (0, 18) [] [1] 1 5 =
    Inr (the_bid 0, sample_secrets 1 1700000001, sample_keys 1 1700000001)"
proof -
  have "derive_order_secrets collab_ref (addr_bytes 1) 0 12 5 1000 0 zero32 = Inr (sample_secrets 1 1700000001)"
    using derive_ref [of 1 12 5 0] encodable_small by simp
  moreover have "validate_order_freshness collab_ref 1000 5 = Inr 1000"
    by (simp add: validate_order_freshness_def order_expiry_from_unix_nanos_def collab_ref_def MAX_TTL_def)
  moreover have "co_lookup collab_ref a b c = Inr (1000, 0)" "co_verifier collab_ref = None" for a b c by (simp_all add: collab_ref_def)
  ultimately show ?thesis
    by (simp add: place_build_def plain_defs zeros_parse parse_order_nonce_def Let_def proof_accepted_def the_bid_def new_order_def
        sample_keys_def sample_secrets_def)
qed

lemma ask_build: "place_build collab_ref ask_plain ''A/B'' (0, 18) [] [2] 2 5 =
    Inr (the_ask 0, sample_secrets 2 1300000003, sample_keys 2 1300000003)"
proof -
  have "derive_order_secrets collab_ref (addr_bytes 2) 1 10 3 1000 0 zero32 = Inr (sample_secrets 2 1300000003)"
    using derive_ref [of 2 10 3 1] encodable_small by simp
  moreover have "validate_order_freshness collab_ref 2000 5 = Inr 2000"
    by (simp add: validate_order_freshness_def order_expiry_from_unix_nanos_def collab_ref_def MAX_TTL_def)
  moreover have "co_lookup collab_ref a b c = Inr (1000, 0)" "co_verifier collab_ref = None" for a b c by (simp_all add: collab_ref_def)
  ultimately show ?thesis
    by (simp add: place_build_def plain_defs zeros_parse parse_order_nonce_def Let_def proof_accepted_def the_ask_def new_order_def
        sample_keys_def sample_secrets_def)
qed

lemma sample_checks:
  "[1] \<notin> set (es_seen_ciphertexts s) \<Longrightarrow> place_precheck collab_ref s [1] 1 = Inr (bid_plain, ''A/B'')"
  "[2] \<notin> set (es_seen_ciphertexts s) \<Longrightarrow> place_precheck collab_ref s [2] 2 = Inr (ask_plain, ''A/B'')"
  "es_pair_tokens s = [(''A/B'', pair_config_default)] \<Longrightarrow> place_registry_check collab_ref s bid_plain ''A/B'' = Inr (0, 18)"
  "es_pair_tokens s = [(''A/B'', pair_config_default)] \<Longrightarrow> place_registry_check collab_ref s ask_plain ''A/B'' = Inr (0, 18)"
  by (simp_all add: place_precheck_def MAX_ENCRYPTED_PAYLOAD_BYTES_def ciphertext_digest_def collab_ref_def plain_defs pair_AB
      place_registry_check_def pair_config_of_def pair_config_default_def pair_config_new_def default_token_decimals_def)

text \<open>A placement that passes its checks, on a store that accepts its event.\<close>

lemma calm_persist:
  assumes "calm n en" and "n < 1000" and "submitted_at ord = 5" and "persist_guard collab_ref (en_state en) ord ct rp = None"
    and "book_ok (eng_book en)" and "book_seq (eng_book en) \<le> n"
  obtains b en' where "persist_order_placed collab_ref sops (\<lambda>_. 7) ord sec cm [] ct rp en = (en', Inr (n + 1))"
    and "calm (n + 1) en'" and "book_seq b = n + 1" and "find_order b = find_order (eng_book en)" and "book_ok b"
    and "en_state en' = admit_order collab_ref (ord\<lparr>order_seq := n + 1\<rparr>) ct rp ((en_state en)\<lparr>es_book := b\<rparr>)"
    and "en_secrets en' = hm_insert (order_id ord) sec (en_secrets en)"
proof -
  let ?e = "event_at 5 (OrderPlaced (order_id ord) cm [] ct)"
  obtain st where st: "store_append sops (\<lambda>_. 7) [?e] en = (en\<lparr>en_store := st\<rparr>, Inr [?e\<lparr>ev_seq := n + 1\<rparr>])"
    "calm (n + 1) (en\<lparr>en_store := st\<rparr>)"
    using calm_append [OF assms(1,2), of ?e "\<lambda>_. 7"] by (auto simp: event_at_def)
  let ?f = "?e\<lparr>ev_seq := n + 1\<rparr>"
  have d: "ev_data ?f = OrderPlaced (order_id ord) cm [] ct" "ev_seq ?f = n + 1" by (simp_all add: event_at_def new_event_def)
  let ?b = "(eng_book en)\<lparr>book_seq := n + 1\<rparr>"
  have "apply_events collab_ref [?f] (en\<lparr>en_store := st\<rparr>) = Some (en\<lparr>en_store := st, en_state := (en_state en)\<lparr>es_book := ?b\<rparr>\<rparr>)"
    using assms(6) d by (simp add: apply_events_def book_apply_def Let_def)
  then have "persist_order_placed collab_ref sops (\<lambda>_. 7) ord sec cm [] ct rp en =
      (en\<lparr>en_store := st, en_state := admit_order collab_ref (ord\<lparr>order_seq := n + 1\<rparr>) ct rp ((en_state en)\<lparr>es_book := ?b\<rparr>),
        en_secrets := hm_insert (order_id ord) sec (en_secrets en)\<rparr>, Inr (n + 1))"
    using st(1) assms(3,4) by (simp add: persist_order_placed_def Let_def)
  from that [OF this, of ?b] show ?thesis using assms(5) st(2) by (cases en) (simp add: calm_def)
qed

lemma place_chain:
  assumes "place_precheck C (en_state en) ct caller = Inr (d, key)" and "place_registry_check C (en_state en) d key = Inr spend"
    and "place_build C d key spend pf ct i now = Inr (ord, sec, rp)"
    and "persist_order_placed C ops clk ord sec (os_commitment sec) pf ct rp en = (en', Inr sq)"
  shows "place_encrypted_order C ops clk now i pf ct caller en = (en', Inr (ord\<lparr>order_seq := sq\<rparr>))"
  using assms by (simp add: place_encrypted_order_def)

lemma the_order_seq: "(the_bid k)\<lparr>order_seq := n\<rparr> = the_bid n" "(the_ask k)\<lparr>order_seq := n\<rparr> = the_ask n"
  by (simp_all add: the_bid_def the_ask_def new_order_def)

lemma the_ids [simp]: "order_id (the_bid k) = 1" "order_id (the_ask k) = 2"
  by (simp_all add: the_bid_def the_ask_def new_order_def)

lemma eng1_book: "eng_book eng1 = \<lparr>books = [], book_seq = 0\<rparr>"
  by (simp add: eng1_facts(2) engine_state_new_def book_new_def)

lemma eng1_guard: "persist_guard collab_ref (en_state eng1) (the_bid 0) [1] (sample_keys 1 1700000001) = None"
  by (simp add: persist_guard_def eng1_facts(2) engine_state_new_def pair_config_of_def the_bid_def new_order_def pair_config_default_def
      pair_config_new_def ensure_order_capacity_def active_order_count_def active_order_count_for_trader_def book_new_def
      MAX_ACTIVE_ORDERS_def MAX_ACTIVE_ORDERS_PER_TRADER_def)

lemma eng2_facts:
  "place_bid eng1 = (eng2, Inr (the_bid 2))" "calm 2 eng2" "find_order (eng_book eng2) = [1 \<mapsto> the_bid 2]" "book_ok (eng_book eng2)"
  "book_seq (eng_book eng2) = 2" "es_pair_tokens (en_state eng2) = [(''A/B'', pair_config_default)]"
  "es_seen_ciphertexts (en_state eng2) = [[1]]" "es_spent_nullifiers (en_state eng2) = [fr_to_bytes32 (NULL_TAG + 1700000001)]"
  "es_spent_order_nonces (en_state eng2) = [order_nonce_digest collab_ref 1 zero32]"
  "en_secrets eng2 = [(1, sample_secrets 1 1700000001)]"
proof -
  have ok: "book_ok (eng_book eng1)" "find_order (eng_book eng1) = Map.empty"
    by (simp_all add: eng1_book find_new) (simp add: book_ok_def flat_def)
  obtain b en' where p: "persist_order_placed collab_ref sops (\<lambda>_. 7) (the_bid 0) (sample_secrets 1 1700000001)
      (os_commitment (sample_secrets 1 1700000001)) [] [1] (sample_keys 1 1700000001) eng1 = (en', Inr (1 + 1))"
    "calm (1 + 1) en'" "book_seq b = 1 + 1" "find_order b = find_order (eng_book eng1)" "book_ok b"
    "en_state en' = admit_order collab_ref ((the_bid 0)\<lparr>order_seq := 1 + 1\<rparr>) [1] (sample_keys 1 1700000001) ((en_state eng1)\<lparr>es_book := b\<rparr>)"
    "en_secrets en' = hm_insert (order_id (the_bid 0)) (sample_secrets 1 1700000001) (en_secrets eng1)"
    by (rule calm_persist [OF eng1_facts(1) _ _ eng1_guard ok(1)]) (simp_all add: the_bid_def new_order_def eng1_book)
  have tk: "es_pair_tokens (en_state eng1) = [(''A/B'', pair_config_default)]" "[1] \<notin> set (es_seen_ciphertexts (en_state eng1))"
    by (simp_all add: eng1_facts(2) engine_state_new_def)
  have pl: "place_bid eng1 = (en', Inr (the_bid 2))"
    unfolding place_bid_def using place_chain [OF sample_checks(1) [OF tk(2)] sample_checks(3) [OF tk(1)] bid_build p(1)]
    by (simp add: the_order_seq numeral_2_eq_2)
  then have e: "eng2 = en'" by (simp add: eng2_def)
  with pl p(2) show "place_bid eng1 = (eng2, Inr (the_bid 2))" "calm 2 eng2" by (simp_all add: numeral_2_eq_2)
  let ?o = "(the_bid 0)\<lparr>order_seq := 1 + 1\<rparr>" let ?s = "(en_state eng1)\<lparr>es_book := b\<rparr>"
  have o: "?o = the_bid 2" "order_id ?o = 1" "0 < remaining_size ?o"
    by (simp_all add: the_bid_def new_order_def plain_defs numeral_2_eq_2)
  have "find_order (es_book ?s) (order_id ?o) = None" "book_ok (es_book ?s)" using p(4,5) ok(2) by simp_all
  note a = admit_book [OF this(2,1) o(3), of collab_ref "[1]" "sample_keys 1 1700000001"]
  show "find_order (eng_book eng2) = [1 \<mapsto> the_bid 2]" "book_ok (eng_book eng2)" "book_seq (eng_book eng2) = 2"
    using a(1,2) arg_cong [OF a(3), of v_orders] p(3,4) ok(2) o unfolding e p(6) by (simp_all add: view_orders numeral_2_eq_2)
  show "es_pair_tokens (en_state eng2) = [(''A/B'', pair_config_default)]" "es_seen_ciphertexts (en_state eng2) = [[1]]"
    "es_spent_nullifiers (en_state eng2) = [fr_to_bytes32 (NULL_TAG + 1700000001)]"
    "es_spent_order_nonces (en_state eng2) = [order_nonce_digest collab_ref 1 zero32]"
    unfolding e p(6) by (simp_all add: admit_order_def eng1_facts(2) engine_state_new_def hs_insert_def ciphertext_digest_def
        collab_ref_def sample_keys_def)
  show "en_secrets eng2 = [(1, sample_secrets 1 1700000001)]"
    unfolding e p(7) by (simp add: eng1_facts(3) the_bid_def new_order_def)
qed

lemma sample_key_distinct:
  "fr_to_bytes32 (NULL_TAG + 1300000003) \<noteq> fr_to_bytes32 (NULL_TAG + 1700000001)"
  "order_nonce_digest collab_ref 2 zero32 \<noteq> order_nonce_digest collab_ref 1 zero32"
proof -
  show "fr_to_bytes32 (NULL_TAG + 1300000003) \<noteq> fr_to_bytes32 (NULL_TAG + 1700000001)"
    using fr_to_bytes32_inj [of "NULL_TAG + 1300000003" "NULL_TAG + 1700000001"] by (auto simp: NULL_TAG_def FR_MODULUS_def)
  have "addr_bytes 2 \<noteq> addr_bytes 1"
  proof
    assume "addr_bytes 2 = addr_bytes 1"
    then have "be_nat (addr_bytes 2) = be_nat (addr_bytes 1)" by simp
    then show False by (simp add: addr_bytes_def be_nat_to_le_bytes)
  qed
  then show "order_nonce_digest collab_ref 2 zero32 \<noteq> order_nonce_digest collab_ref 1 zero32"
    by (simp add: order_nonce_digest_def collab_ref_def)
qed

lemma eng2_guard: "persist_guard collab_ref (en_state eng2) (the_ask 0) [2] (sample_keys 2 1300000003) = None"
proof -
  have "dom (find_order (eng_book eng2)) = {1}" "trader_orders (find_order (eng_book eng2)) 2 = {}"
    by (auto simp: eng2_facts(3) trader_orders_def the_bid_def new_order_def plain_defs)
  then have "active_order_count (eng_book eng2) = 1" "active_order_count_for_trader (eng_book eng2) 2 = 0"
    using active_order_count_card [OF eng2_facts(4)] active_order_count_for_trader_card [OF eng2_facts(4)] by simp_all
  then show ?thesis
    using sample_key_distinct
    by (simp add: persist_guard_def eng2_facts(6-9) pair_config_of_def the_ask_def new_order_def plain_defs pair_config_default_def
        pair_config_new_def ensure_order_capacity_def MAX_ACTIVE_ORDERS_def MAX_ACTIVE_ORDERS_PER_TRADER_def
        ciphertext_digest_def collab_ref_def [unfolded order_nonce_digest_def] sample_keys_def)
qed

lemma eng3_facts:
  "place_ask eng2 = (eng3, Inr (the_ask 3))" "calm 3 eng3" "find_order (eng_book eng3) = [1 \<mapsto> the_bid 2, 2 \<mapsto> the_ask 3]"
  "book_ok (eng_book eng3)" "es_pair_tokens (en_state eng3) = [(''A/B'', pair_config_default)]"
  "hm_get (en_secrets eng3) 1 \<noteq> None" "hm_get (en_secrets eng3) 2 \<noteq> None" "en_batch_size eng3 = 8"
proof -
  obtain b en' where p: "persist_order_placed collab_ref sops (\<lambda>_. 7) (the_ask 0) (sample_secrets 2 1300000003)
      (os_commitment (sample_secrets 2 1300000003)) [] [2] (sample_keys 2 1300000003) eng2 = (en', Inr (2 + 1))"
    "calm (2 + 1) en'" "book_seq b = 2 + 1" "find_order b = find_order (eng_book eng2)" "book_ok b"
    "en_state en' = admit_order collab_ref ((the_ask 0)\<lparr>order_seq := 2 + 1\<rparr>) [2] (sample_keys 2 1300000003) ((en_state eng2)\<lparr>es_book := b\<rparr>)"
    "en_secrets en' = hm_insert (order_id (the_ask 0)) (sample_secrets 2 1300000003) (en_secrets eng2)"
    by (rule calm_persist [OF eng2_facts(2) _ _ eng2_guard eng2_facts(4)]) (simp_all add: the_ask_def new_order_def eng2_facts(5))
  have "[2] \<notin> set (es_seen_ciphertexts (en_state eng2))" by (simp add: eng2_facts(7))
  from place_chain [OF sample_checks(2) [OF this] sample_checks(4) [OF eng2_facts(6)] ask_build p(1)]
  have pl: "place_ask eng2 = (en', Inr (the_ask 3))" by (simp add: place_ask_def the_order_seq)
  then have e: "eng3 = en'" by (simp add: eng3_def)
  with pl p(2) show "place_ask eng2 = (eng3, Inr (the_ask 3))" "calm 3 eng3" by simp_all
  let ?o = "(the_ask 0)\<lparr>order_seq := 2 + 1\<rparr>" let ?s = "(en_state eng2)\<lparr>es_book := b\<rparr>"
  have o: "?o = the_ask 3" "order_id ?o = 2" "0 < remaining_size ?o"
    by (simp_all add: the_order_seq) (simp_all add: the_ask_def new_order_def plain_defs)
  have "find_order (es_book ?s) (order_id ?o) = None" "book_ok (es_book ?s)" using p(4,5) o(2) by (simp_all add: eng2_facts(3))
  note a = admit_book [OF this(2,1) o(3), of collab_ref "[2]" "sample_keys 2 1300000003"]
  show "find_order (eng_book eng3) = [1 \<mapsto> the_bid 2, 2 \<mapsto> the_ask 3]" "book_ok (eng_book eng3)"
    using a(1) arg_cong [OF a(3), of v_orders] p(4) o unfolding e p(6) by (simp_all add: view_orders eng2_facts(3))
  show "es_pair_tokens (en_state eng3) = [(''A/B'', pair_config_default)]"
    unfolding e p(6) by (simp add: admit_order_def eng2_facts(6))
  show "hm_get (en_secrets eng3) 1 \<noteq> None" "hm_get (en_secrets eng3) 2 \<noteq> None"
    unfolding e p(7) by (simp_all add: eng2_facts(10) the_ask_def new_order_def)
  show "en_batch_size eng3 = 8" using p(2) by (simp add: e calm_def)
qed

end
