(* ===== verification/EngineProps.thy ===== *)
theory EngineProps
  imports Sample
begin

text \<open>
  What holds of every engine that runs on the file store, whatever the interleaving of its critical
  sections, whatever its disk does and whatever its collaborators answer within their documented
  behaviour. Each theorem is the instance, for the file store, of a lemma about the store contract.
\<close>

section \<open>The sample run is reachable\<close>

lemma fresh_file_ok: "file_inv fresh_file" "fs_events fresh_file = []"
  by (simp_all add: file_inv_def fresh_file_def log_ok_def)

lemma calm_room: "calm n en \<Longrightarrow> n < 1000 \<Longrightarrow> room sops en"
  by (simp add: calm_def room_def file_ops_def)

lemma eng0_calm: "calm 0 eng0"
  by (simp add: calm_def eng0_def engine_new_def fresh_file_def)

lemma eng1_steps: "steps collab_ref sops eng0 eng1"
proof -
  obtain en r where e: "register_pair_with_event collab_ref sops (\<lambda>_. 7) 5 ''A/B'' pair_config_default eng0 = (en, r)"
    by (cases "register_pair_with_event collab_ref sops (\<lambda>_. 7) 5 ''A/B'' pair_config_default eng0")
  have "step collab_ref sops eng0 en"
    by (rule step.register [OF e]) (simp_all add: calm_room [OF eng0_calm] pair_config_default_def pair_config_new_def)
  then show ?thesis using e by (simp add: eng1_def)
qed

lemma eng2_steps: "steps collab_ref sops eng1 eng2"
  using fstore.place_steps [OF eng2_facts(1) [unfolded place_bid_def]] calm_room [OF eng1_facts(1)] by (simp add: eng1_book find_new)

lemma eng3_steps: "steps collab_ref sops eng2 eng3"
  using fstore.place_steps [OF eng3_facts(1) [unfolded place_ask_def]] calm_room [OF eng2_facts(2)] by (simp add: eng2_facts(3))

lemma eng_reachable:
  "steps collab_ref sops (engine_new fresh_file 0) eng1" "steps collab_ref sops (engine_new fresh_file 0) eng2"
  "steps collab_ref sops (engine_new fresh_file 0) eng3"
  using eng1_steps eng2_steps eng3_steps by (auto simp: eng0_def)

lemmas sample_run_ok = collab_ok_ref fresh_file_ok eng_reachable(3)

section \<open>The state is a projection of the log\<close>

text \<open>C5. The live state refines the event log: in every reachable engine there is one history of events, of which
  the store holds everything that compaction has not dropped, and projecting that history gives
  exactly the orders, the registry, the auction log and the three spent sets the engine holds.\<close>

theorem engine_refines_projection:
  assumes "collab_ok C" and "file_inv st" and "fs_events st = []" and "steps C (file_ops cd) (engine_new st iv) en"
  shows "\<exists>hist b. fs_events (en_store en) = filter (\<lambda>e. b \<le> ev_seq e) hist \<and> log_ok hist (last_seq (file_ops cd) en) \<and>
    project_all C hist view_empty = Some (view (en_state en))"
  using assms by (rule fstore.reachable_inv(2))

theorem engine_refines_projection_witness:
  "\<exists>hist v. project_all collab_ref hist view_empty = Some v \<and> v_orders v = [1 \<mapsto> the_bid 2, 2 \<mapsto> the_ask 3]"
  using engine_refines_projection [OF sample_run_ok] by (metis eng3_facts(3) view_orders)



text \<open>C29. The book never exceeds its capacities: at most 16384 resting orders, and at most 128 of any one trader.\<close>

theorem book_within_capacity:
  assumes "collab_ok C" and "file_inv st" and "fs_events st = []" and "steps C (file_ops cd) (engine_new st iv) en"
  shows "active_order_count (es_book (en_state en)) \<le> MAX_ACTIVE_ORDERS \<and>
    active_order_count_for_trader (es_book (en_state en)) t \<le> MAX_ACTIVE_ORDERS_PER_TRADER"
proof -
  have i: "engine_inv (file_ops cd) file_inv en" using assms by (rule fstore.reachable_inv(1))
  then have "book_ok (eng_book en)" "view_ok (last_seq (file_ops cd) en) (eng_view en)" by (simp_all add: engine_inv_def state_ok_def)
  then show ?thesis
    by (simp add: active_order_count_card active_order_count_for_trader_card view_ok_def view_orders)
qed

theorem book_within_capacity_witness:
  "active_order_count (es_book (en_state eng3)) \<le> 16384 \<and> active_order_count_for_trader (es_book (en_state eng3)) 1 \<le> 128"
  using book_within_capacity [OF sample_run_ok, of 1] by (simp add: MAX_ACTIVE_ORDERS_def MAX_ACTIVE_ORDERS_PER_TRADER_def)

section \<open>Placement\<close>

text \<open>C31. A placement that is refused, for whatever reason and at whatever point, leaves the engine's state and its
  witness secrets as they were.\<close>

theorem rejected_placement_changes_nothing:
  assumes "place_encrypted_order C ops clk now i pf ct caller en = (en', Inl e)"
  shows "en_state en' = en_state en \<and> en_secrets en' = en_secrets en"
proof -
  have "en' = en \<or> (\<exists>ord sec rp. persist_order_placed C ops clk ord sec (os_commitment sec) pf ct rp en = (en', Inl e))"
    using assms by (auto simp: place_encrypted_order_def split: sum.splits prod.splits)
  then show ?thesis using persist_failure by auto
qed

theorem rejected_placement_changes_nothing_witness:
  "\<exists>en' e. place_bid eng2 = (en', Inl e) \<and> en_state en' = en_state eng2"
proof -
  have "place_precheck collab_ref (en_state eng2) [1] 1 = Inl (Validation DuplicateOrder)"
    by (simp add: place_precheck_def MAX_ENCRYPTED_PAYLOAD_BYTES_def ciphertext_digest_def collab_ref_def eng2_facts(7))
  then have e: "place_encrypted_order collab_ref sops (\<lambda>_. 7) 5 1 [] [1] 1 eng2 = (eng2, Inl (Validation DuplicateOrder))"
    by (simp add: place_encrypted_order_def)
  then show ?thesis unfolding place_bid_def using rejected_placement_changes_nothing [OF e] by blast
qed

text \<open>C22. An accepted placement rests exactly the order that was decrypted: the ciphertext decrypts to an order of
  the caller on a pair that is registered and active, the new order has its side, price and size, all
  of it remaining, and it is the only change of the book; the engine has its witness secrets.\<close>

theorem accepted_order_rests_as_decrypted:
  assumes "collab_ok C" and "file_inv st" and "fs_events st = []" and "steps C (file_ops cd) (engine_new st iv) en"
    and "place_encrypted_order C (file_ops cd) clk now i pf ct caller en = (en', Inr ord)"
    and "find_order (es_book (en_state en)) i = None" and "now \<noteq> 0" and "room (file_ops cd) en"
  shows "\<exists>d key. co_decrypt C ct = Inr d \<and> pair_parse (do_pair d) = Inr key \<and> do_trader d = caller \<and>
    map_option pc_status (hm_get (es_pair_tokens (en_state en)) key) = Some Active \<and>
    order_id ord = i \<and> trader ord = caller \<and> order_pair ord = key \<and> order_side ord = do_side d \<and> price ord = do_price d \<and>
    order_size ord = do_size d \<and> remaining_size ord = do_size d \<and> order_seq ord = fs_seq (en_store en) + 1 \<and>
    find_order (es_book (en_state en')) = (find_order (es_book (en_state en)))(i \<mapsto> ord) \<and> hm_get (en_secrets en') i \<noteq> None"
proof -
  have i: "engine_inv (file_ops cd) file_inv en" using assms(1-4) by (rule fstore.reachable_inv(1))
  from assms(5) obtain d key spend o' sec rp sq where p: "place_precheck C (en_state en) ct caller = Inr (d, key)"
    "place_build C d key spend pf ct i now = Inr (o', sec, rp)" "ord = o'\<lparr>order_seq := sq\<rparr>"
    "persist_order_placed C (file_ops cd) clk o' sec (os_commitment sec) pf ct rp en = (en', Inr sq)"
    by (auto simp: place_encrypted_order_def split: sum.splits prod.splits)
  note e = fstore.place_effect [OF assms(1) i assms(8) p(1,2) assms(6,7) p(4)] and a = place_placed_as [OF assms(1) p(1,2)]
  have "book_ok (eng_book en)" using i by (simp add: engine_inv_def state_ok_def)
  from fstore.persist_guard_None(1) [OF persist_success(1) [OF p(4)] this] a(10)
  have "map_option pc_status (hm_get (es_pair_tokens (en_state en)) key) = Some Active" by auto
  moreover have "co_decrypt C ct = Inr d \<and> pair_parse (do_pair d) = Inr key \<and> do_trader d = caller"
    using p(1) by (auto simp: place_precheck_def split: if_splits sum.splits)
  moreover have "order_side o' = do_side d \<and> price o' = do_price d \<and> order_size o' = do_size d \<and> remaining_size o' = do_size d"
    using p(2) by (auto simp: place_build_def Let_def new_order_def split: sum.splits if_splits)
  ultimately show ?thesis using e a(2,9,10) p(3) by (intro exI [of _ d] exI [of _ key]) (auto simp: file_ops_def)
qed

theorem accepted_order_rests_as_decrypted_witness:
  "hm_get (en_secrets eng2) 1 \<noteq> None \<and> order_seq (the_bid 2) = fs_seq (en_store eng1) + 1 \<and> price (the_bid 2) = 12"
  using accepted_order_rests_as_decrypted [OF collab_ok_ref fresh_file_ok eng_reachable(1) eng2_facts(1) [unfolded place_bid_def]]
    calm_room [OF eng1_facts(1)] by (auto simp: eng1_book find_new collab_ref_def decrypt_ref_def)

text \<open>C3. A placement spends its ciphertext, its nullifier and its nonce for good: after an order was persisted, in
  every engine state reached later no order with the same ciphertext, the same nullifier or the same
  trader and nonce is persisted, and the same ciphertext is refused before it is decrypted again.\<close>

theorem placement_keys_are_single_use:
  assumes "collab_ok C" and "file_inv st" and "fs_events st = []" and "steps C (file_ops cd) (engine_new st iv) en1"
    and "persist_order_placed C (file_ops cd) clk ord sec cm pf ct rp en = (en1, Inr sq)" and "steps C (file_ops cd) en1 en2"
    and "ciphertext_digest C ct' = ciphertext_digest C ct \<or> rp_nullifier rp' = rp_nullifier rp \<or>
      rp_order_nonce_digest rp' = rp_order_nonce_digest rp"
  shows "(\<exists>e. persist_order_placed C (file_ops cd) clk' ord' sec' cm' pf' ct' rp' en2 = (en2, Inl e)) \<and>
    (\<exists>e. place_encrypted_order C (file_ops cd) clk' now' i' pf' ct caller en2 = (en2, Inl e))"
proof -
  have "engine_inv (file_ops cd) file_inv en1" using assms(1-4) by (rule fstore.reachable_inv(1))
  from fstore.steps_advance [OF assms(1,6) this] obtain es b where "extends_by C (file_ops cd) fs_events en1 en2 es b"
    by (auto simp: advances_def)
  then have "project_all C es (eng_view en1) = Some (eng_view en2)" by (simp add: extends_by_def)
  from project_all_spent [OF this] persist_success [OF assms(5)]
  have s: "ciphertext_digest C ct \<in> set (es_seen_ciphertexts (en_state en2))" "rp_nullifier rp \<in> set (es_spent_nullifiers (en_state en2))"
    "rp_order_nonce_digest rp \<in> set (es_spent_order_nonces (en_state en2))" by (auto simp: view_def)
  then obtain e where "persist_guard C (en_state en2) ord' ct' rp' = Some e" using persist_guard_spent assms(7) by (metis not_None_eq)
  moreover have "\<exists>e. place_precheck C (en_state en2) ct caller = Inl e" using s(1) by (simp add: place_precheck_def)
  ultimately show ?thesis by (auto simp: persist_order_placed_def place_encrypted_order_def)
qed

lemma bid_persisted:
  "\<exists>sq. persist_order_placed collab_ref sops (\<lambda>_. 7) (the_bid 0) (sample_secrets 1 1700000001)
     (os_commitment (sample_secrets 1 1700000001)) [] [1] (sample_keys 1 1700000001) eng1 = (eng2, Inr sq)"
proof -
  have "[1] \<notin> set (es_seen_ciphertexts (en_state eng1))" "es_pair_tokens (en_state eng1) = [(''A/B'', pair_config_default)]"
    by (simp_all add: eng1_facts(2) engine_state_new_def)
  note c = sample_checks(1) [OF this(1)] sample_checks(3) [OF this(2)] bid_build
  show ?thesis using eng2_facts(1) unfolding place_bid_def place_encrypted_order_def c sum.case prod.case
    by (auto split: prod.splits sum.splits)
qed

theorem placement_keys_are_single_use_witness:
  "\<exists>e. place_bid eng3 = (eng3, Inl e)"
proof -
  obtain sq where p: "persist_order_placed collab_ref sops (\<lambda>_. 7) (the_bid 0) (sample_secrets 1 1700000001)
     (os_commitment (sample_secrets 1 1700000001)) [] [1] (sample_keys 1 1700000001) eng1 = (eng2, Inr sq)"
    using bid_persisted by blast
  show ?thesis unfolding place_bid_def
    using placement_keys_are_single_use [OF collab_ok_ref fresh_file_ok eng_reachable(2) p eng3_steps, where ct' = "[1]"] by blast
qed

section \<open>The tick\<close>

text \<open>C23. The sections of a tick do not panic: in every reachable engine the expiry section returns, the auction of
  every pair computes without a decimal overflow, and its section returns.\<close>

theorem tick_sections_return:
  assumes "collab_ok C" and "file_inv st" and "fs_events st = []" and "steps C (file_ops cd) (engine_new st iv) en"
    and "room (file_ops cd) en"
  shows "(\<exists>en'. tick_expire C (file_ops cd) clk now en = Some en') \<and>
    (\<exists>r. run (co_dec C) (aid pair) pair (book_bids (es_book (en_state en)) pair) (book_asks (es_book (en_state en)) pair) = Some r) \<and>
    (\<exists>x. tick_pair C (file_ops cd) clk now aid bid pair en = Some x)"
proof -
  have i: "engine_inv (file_ops cd) file_inv en" using assms(1-4) by (rule fstore.reachable_inv(1))
  from fstore.tick_pair_advances [OF assms(1) i assms(5)] obtain x where x: "tick_pair C (file_ops cd) clk now aid bid pair en = Some x" by blast
  moreover from x obtain r where "run (co_dec C) (aid pair) pair (book_bids (eng_book en) pair) (book_asks (eng_book en) pair) = Some r"
    by (auto simp: tick_pair_def Let_def split: option.splits)
  moreover from fstore.expire_advances [OF i assms(5)] obtain en' where "tick_expire C (file_ops cd) clk now en = Some en'" by blast
  ultimately show ?thesis by blast
qed

theorem tick_sections_return_witness: "\<exists>x. tick_pair collab_ref sops (\<lambda>_. 7) 9 (\<lambda>_. 1) (\<lambda>_ _. 2) ''A/B'' eng3 = Some x"
  using tick_sections_return [OF sample_run_ok, of "\<lambda>_. 7" 9 "\<lambda>_. 1" "''A/B''" "\<lambda>_ _. 2"] calm_room [OF eng3_facts(2)] by simp






lemma sample_orders:
  "the_bid 2 = \<lparr>order_id = 1, trader = 1, order_pair = ''A/B'', order_side = Buy, price = 12, order_size = 5, remaining_size = 5,
     commitment_key = ''k'', encrypted_payload = [1], submitted_at = 5, expires_at = 1000, order_seq = 2\<rparr>"
  "the_ask 3 = \<lparr>order_id = 2, trader = 2, order_pair = ''A/B'', order_side = Sell, price = 10, order_size = 3, remaining_size = 3,
     commitment_key = ''k'', encrypted_payload = [2], submitted_at = 5, expires_at = 2000, order_seq = 3\<rparr>"
  by (simp_all add: the_bid_def the_ask_def new_order_def plain_defs)



lemma quiet_append:
  assumes "calm n en"
  shows "\<exists>en' es'. store_append sops clk es en = (en', Inr es')"
proof -
  have w: "\<exists>s'. write_records sample_codec es s = (s', Inr ()) \<and> fs_io s' = []" if "fs_io s = []" for es s
    using that by (induction es arbitrary: s) (simp_all add: io_return_def sample_codec_def io_then_def write_all_ok)
  let ?s = "en_store en" obtain es' sq where a: "assign_all clk es (fs_seq ?s) = (es', sq)" by (cases "assign_all clk es (fs_seq ?s)")
  obtain s' where "write_records sample_codec es' (?s\<lparr>fs_seq := sq\<rparr>) = (s', Inr ())" "fs_io s' = []"
    using w [of "?s\<lparr>fs_seq := sq\<rparr>" es'] assms by (auto simp: calm_def)
  then have "\<exists>s''. fs_append sample_codec clk es ?s = (s'', Inr es')"
    by (simp add: fs_append_def a io_then_def flush_def io_next_def io_call_def fs_put_def split: option.split)
  then show ?thesis by (auto simp: store_append_def file_ops_def)
qed



text \<open>C24. When its events are persisted, the expiry section removes exactly the orders whose expiry has come, and
  leaves every other order as it is.\<close>

theorem expiry_removes_exactly_expired:
  assumes "collab_ok C" and "file_inv st" and "fs_events st = []" and "steps C (file_ops cd) (engine_new st iv) en"
    and "room (file_ops cd) en" and "store_append (file_ops cd) clk (expiry_events now (es_book (en_state en))) en = (en1, Inr es)"
  shows "\<exists>en'. tick_expire C (file_ops cd) clk now en = Some en' \<and>
    (\<forall>i ord. find_order (es_book (en_state en')) i = Some ord \<longleftrightarrow>
      find_order (es_book (en_state en)) i = Some ord \<and> (expires_at ord = 0 \<or> now < expires_at ord))"
proof -
  have i: "engine_inv (file_ops cd) file_inv en" using assms(1-4) by (rule fstore.reachable_inv(1))
  from fstore.expire_advances [OF i assms(5)] obtain en' where e: "tick_expire C (file_ops cd) clk now en = Some en'" by blast
  have "find_order (eng_book en') i = Some ord \<longleftrightarrow>
      find_order (eng_book en) i = Some ord \<and> \<not> (expires_at ord \<noteq> 0 \<and> expires_at ord \<le> now)" for i ord
    by (rule fstore.expire_effect [OF i assms(5) e]) (simp add: assms(6))
  with e show ?thesis by (auto simp: not_le)
qed

theorem expiry_removes_exactly_expired_witness:
  "\<exists>en'. tick_expire collab_ref sops (\<lambda>_. 7) 1500 eng3 = Some en' \<and> find_order (es_book (en_state en')) 1 = None \<and>
     find_order (es_book (en_state en')) 2 = Some (the_ask 3)"
proof -
  obtain en1 es where a: "store_append sops (\<lambda>_. 7) (expiry_events 1500 (eng_book eng3)) eng3 = (en1, Inr es)"
    using quiet_append [OF eng3_facts(2)] by blast
  have "room sops eng3" using calm_room [OF eng3_facts(2)] by simp
  from expiry_removes_exactly_expired [OF sample_run_ok this a] obtain en' where
    e: "tick_expire collab_ref sops (\<lambda>_. 7) 1500 eng3 = Some en'" and
    f: "\<And>i ord. find_order (eng_book en') i = Some ord \<longleftrightarrow>
      find_order (eng_book eng3) i = Some ord \<and> (expires_at ord = 0 \<or> 1500 < expires_at ord)" by blast
  have "find_order (eng_book en') 2 = Some (the_ask 3)" by (simp add: f eng3_facts(3) sample_orders)
  moreover have "find_order (eng_book en') 1 \<noteq> Some ord" for ord by (auto simp: f eng3_facts(3) sample_orders)
  ultimately show ?thesis using e by auto
qed

section \<open>Delisting\<close>

text \<open>C19. Delisting a pair cancels exactly the orders resting on it, and it is final: in every later state of the
  engine the pair is still delisted and no order rests on it.\<close>

theorem delisting_is_final:
  assumes "collab_ok C" and "file_inv st" and "fs_events st = []" and "steps C (file_ops cd) (engine_new st iv) en"
    and "room (file_ops cd) en" and "delist_locked C (file_ops cd) clk now pair en = (en1, Inr ids)"
    and "pair_parse pair = Inr key" and "steps C (file_ops cd) en1 en2"
  shows "set ids = {i. \<exists>ord. find_order (es_book (en_state en)) i = Some ord \<and> order_pair ord = key} \<and>
    (\<forall>i. find_order (es_book (en_state en1)) i = (if i \<in> set ids then None else find_order (es_book (en_state en)) i)) \<and>
    map_option pc_status (hm_get (es_pair_tokens (en_state en2)) key) = Some Delisted \<and>
    (\<forall>i ord. find_order (es_book (en_state en2)) i = Some ord \<longrightarrow> order_pair ord \<noteq> key)"
proof -
  have i: "engine_inv (file_ops cd) file_inv en" using assms(1-4) by (rule fstore.reachable_inv(1))
  note e = fstore.delist_effect [OF i assms(5,6,7)]
  have "steps C (file_ops cd) en en1" using assms(5,6) step.delist by blast
  then have "steps C (file_ops cd) (engine_new st iv) en2" using assms(4,8) by (meson rtranclp_trans)
  with assms(1-3) have "engine_inv (file_ops cd) file_inv en2" by (rule fstore.reachable_inv(1))
  then have s: "state_ok (last_seq (file_ops cd) en2) (en_state en2)" by (simp add: engine_inv_def)
  have "pair_delisted (en_state en1) key" using e(1) by (simp add: pair_delisted_def)
  with assms(8) have "pair_delisted (en_state en2) key" by (rule steps_keep_delisted)
  then obtain cfg where c: "hm_get (es_pair_tokens (en_state en2)) key = Some cfg" "pc_status cfg = Delisted" by (auto simp: pair_delisted_def)
  then have "order_pair ord \<noteq> key" if "find_order (eng_book en2) i = Some ord" for i ord using resting_facts(2) [OF s that] by auto
  with c e(2,4) show ?thesis by (simp add: without_def)
qed

theorem delisting_is_final_witness:
  "\<exists>en1. delist_locked collab_ref sops (\<lambda>_. 7) 9 ''A/B'' eng3 = (en1, Inr (order_ids_for (es_book (en_state eng3)) ''A/B'')) \<and>
     find_order (es_book (en_state en1)) 1 = None"
proof -
  let ?ids = "order_ids_for (eng_book eng3) ''A/B''"
  have i: "engine_inv sops file_inv eng3" by (rule fstore.reachable_inv(1) [OF sample_run_ok])
  have r: "room sops eng3" using calm_room [OF eng3_facts(2)] by simp
  obtain en1 x where d: "delist_locked collab_ref sops (\<lambda>_. 7) 9 ''A/B'' eng3 = (en1, x)"
    by (cases "delist_locked collab_ref sops (\<lambda>_. 7) 9 ''A/B'' eng3")
  obtain en' es where a: "store_append sops (\<lambda>_. 7) (delist_events 9 ?ids ''A/B'') eng3 = (en', Inr es)"
    using quiet_append [OF eng3_facts(2)] by blast
  have "x \<noteq> Inl EnginePanic" by (rule fstore.delist_advances(2) [OF i r d])
  then have x: "x = Inr ?ids" using d a
    by (auto simp: delist_locked_def pair_AB eng3_facts(5) pair_config_default_def pair_config_new_def Let_def split: option.splits)
  have "1 \<in> set ?ids" using set_order_ids_for [OF eng3_facts(4)] by (simp add: eng3_facts(3) sample_orders)
  moreover have "\<forall>i. find_order (eng_book en1) i = (if i \<in> set ?ids then None else find_order (eng_book eng3) i)"
    using delisting_is_final [OF sample_run_ok r d [unfolded x] pair_AB rtranclp.rtrancl_refl] by blast
  ultimately show ?thesis using d x by simp
qed

end
