(* ===== verification/RecoveryProps.thy ===== *)
theory RecoveryProps
  imports EngineProps
begin

text \<open>
  Restart: the snapshot envelope, and that an engine recovered from the log, or from a snapshot and the
  log after it, has the view of the engine that wrote them.
\<close>

section \<open>The snapshot envelope\<close>

lemma header_facts:
  "length SNAP_MAGIC = 4" "length (envelope_header sq) = AAD_LEN" "be_nat (be_bytes 4 ENVELOPE_VERSION) = ENVELOPE_VERSION"
proof -
  show m: "length SNAP_MAGIC = 4" by (simp add: SNAP_MAGIC_def ascii_def)
  show "length (envelope_header sq) = AAD_LEN" by (simp add: envelope_header_def m be_bytes_facts(1) AAD_LEN_def)
  show "be_nat (be_bytes 4 ENVELOPE_VERSION) = ENVELOPE_VERSION" by (simp add: be_bytes_facts(2) ENVELOPE_VERSION_def)
qed

text \<open>Cutting an envelope at its fixed offsets.\<close>

lemma envelope_parts:
  fixes sq :: nat and len tail :: bytes
  assumes "length len = 4"
  defines "bs \<equiv> envelope_header sq @ len @ tail"
  shows "take 4 bs = SNAP_MAGIC" and "take 4 (drop 4 bs) = be_bytes 4 ENVELOPE_VERSION" and "take 8 (drop 8 bs) = be_bytes 8 sq"
    and "take 4 (drop 16 bs) = len" and "drop HEADER_LEN bs = tail" and "take AAD_LEN bs = envelope_header sq"
    and "HEADER_LEN \<le> length bs"
proof -
  note l = header_facts(1) be_bytes_facts(1) assms(1)
  show "take 4 bs = SNAP_MAGIC" "take 4 (drop 4 bs) = be_bytes 4 ENVELOPE_VERSION" "take 8 (drop 8 bs) = be_bytes 8 sq"
    "take 4 (drop 16 bs) = len" "drop HEADER_LEN bs = tail" "HEADER_LEN \<le> length bs"
    by (simp_all add: bs_def envelope_header_def l HEADER_LEN_def AAD_LEN_def)
  show "take AAD_LEN bs = envelope_header sq" unfolding bs_def using header_facts(2) [of sq] by simp
qed

lemma envelope_cut:
  assumes "HEADER_LEN \<le> length bs" and "take 4 bs = SNAP_MAGIC" and "be_nat (take 4 (drop 4 bs)) = ENVELOPE_VERSION"
  shows "bs = envelope_header (be_nat (take 8 (drop 8 bs))) @ take 4 (drop 16 bs) @ drop HEADER_LEN bs"
    and "take AAD_LEN bs = envelope_header (be_nat (take 8 (drop 8 bs)))"
proof -
  have l: "20 \<le> length bs" using assms(1) by (simp add: HEADER_LEN_def AAD_LEN_def)
  have v: "be_bytes 4 ENVELOPE_VERSION = take 4 (drop 4 bs)" using be_bytes_facts(3) [of "take 4 (drop 4 bs)" 4] l assms(3) by simp
  have s: "be_bytes 8 (be_nat (take 8 (drop 8 bs))) = take 8 (drop 8 bs)" using l by (intro be_bytes_facts(3)) simp
  have h: "envelope_header (be_nat (take 8 (drop 8 bs))) = take 4 bs @ take 4 (drop 4 bs) @ take 8 (drop 8 bs)"
    by (simp add: envelope_header_def v s assms(2))
  have t: "take 4 bs @ take 4 (drop 4 bs) @ take 8 (drop 8 bs) = take 16 bs"
    using take_add [of 4 4 bs] take_add [of 8 8 bs] by simp
  show "take AAD_LEN bs = envelope_header (be_nat (take 8 (drop 8 bs)))" by (simp only: h t) (simp add: AAD_LEN_def)
  show "bs = envelope_header (be_nat (take 8 (drop 8 bs))) @ take 4 (drop 16 bs) @ drop HEADER_LEN bs"
  proof -
    have "take 16 bs @ take 4 (drop 16 bs) = take 20 bs" using take_add [of 16 4 bs] by simp
    then have "take 16 bs @ take 4 (drop 16 bs) @ drop 20 bs = bs" by (metis append_assoc append_take_drop_id)
    moreover have "HEADER_LEN = 20" by (simp add: HEADER_LEN_def AAD_LEN_def)
    ultimately show ?thesis by (simp only: h t)
  qed
qed

lemma seal_open:
  assumes "aead_ok K" and "length nonce = SNAPSHOT_NONCE_LEN" and "seal K nonce m a = Some sealed"
  shows "open_sealed K sealed a = Some m"
proof -
  from assms(3) obtain c where c: "ae_encrypt K nonce m a = Some c" "sealed = nonce @ c" by (auto simp: seal_def split: option.splits)
  then have "ae_decrypt K nonce c a = Some m" using assms(1) unfolding aead_ok_def by blast
  then show ?thesis using assms(2) c(2) by (simp add: open_sealed_def)
qed

lemma open_seal:
  assumes "aead_ok K" and "open_sealed K sealed a = Some m"
  shows "seal K (take SNAPSHOT_NONCE_LEN sealed) m a = Some sealed \<and> length (take SNAPSHOT_NONCE_LEN sealed) = SNAPSHOT_NONCE_LEN"
proof -
  from assms(2) have d: "SNAPSHOT_NONCE_LEN \<le> length sealed"
    "ae_decrypt K (take SNAPSHOT_NONCE_LEN sealed) (drop SNAPSHOT_NONCE_LEN sealed) a = Some m"
    by (simp_all add: open_sealed_def split: if_splits)
  then have "ae_encrypt K (take SNAPSHOT_NONCE_LEN sealed) m a = Some (drop SNAPSHOT_NONCE_LEN sealed)"
    using assms(1) unfolding aead_ok_def by blast
  then show ?thesis using d(1) by (simp add: seal_def)
qed

lemma envelope_decodes:
  assumes "aead_ok K" and "bincode_ok sc" and "length nonce = SNAPSHOT_NONCE_LEN" and "sq < 2 ^ 64"
    and "encode_envelope sc K nonce s sq = Inr env"
  shows "decode_envelope sc K env = Inr (sq, stored_state s)"
proof -
  from assms(5) obtain blob sealed where b: "sc_ser sc s = Some blob" "seal K nonce blob (envelope_header sq) = Some sealed"
    "length sealed < 2 ^ 32" "env = envelope_header sq @ be_bytes 4 (length sealed) @ sealed"
    by (auto simp: encode_envelope_def bindE_def ok_or_def split: option.splits if_splits)
  note p = envelope_parts [OF be_bytes_facts(1), of sq "length sealed" sealed, folded b(4)]
  have n: "be_nat (be_bytes 4 (length sealed)) = length sealed" "be_nat (be_bytes 8 sq) = sq"
    using b(3) assms(4) by (simp_all add: be_bytes_facts(2))
  have "open_sealed K sealed (envelope_header sq) = Some blob" by (rule seal_open [OF assms(1,3) b(2)])
  moreover have "sc_de sc blob = Some (stored_state s)" using assms(2) b(1) by (simp add: bincode_ok_def)
  ultimately show ?thesis
    by (simp add: decode_envelope_def leD [OF p(7)] p(1-6) n header_facts(3) bindE_def ok_or_def Let_def)
qed

text \<open>C30. The snapshot envelope round-trips, and nothing else is accepted: what was encoded decodes to the same
  position and the same state, up to the transient fields of the pending batches; and whatever decodes
  is byte for byte an envelope sealed under the key, with that position in its authenticated header.\<close>

theorem envelope_roundtrip:
  assumes "aead_ok K" and "bincode_ok sc" and "length nonce = SNAPSHOT_NONCE_LEN" and "sq < 2 ^ 64"
  shows "(encode_envelope sc K nonce s sq = Inr env \<longrightarrow> decode_envelope sc K env = Inr (sq, stored_state s)) \<and>
    (decode_envelope sc K bs = Inr (sq', s') \<longrightarrow>
      (\<exists>n blob sealed. sc_de sc blob = Some s' \<and> length n = SNAPSHOT_NONCE_LEN \<and> seal K n blob (envelope_header sq') = Some sealed \<and>
        bs = envelope_header sq' @ be_bytes 4 (length sealed) @ sealed))"
proof (intro conjI impI)
  assume d: "decode_envelope sc K bs = Inr (sq', s')"
  let ?p = "drop HEADER_LEN bs"
  from d have h: "HEADER_LEN \<le> length bs" "take 4 bs = SNAP_MAGIC" "be_nat (take 4 (drop 4 bs)) = ENVELOPE_VERSION"
    "length ?p = be_nat (take 4 (drop 16 bs))" and q: "sq' = be_nat (take 8 (drop 8 bs))"
    by (auto simp: decode_envelope_def Let_def bindE_Inr split: if_splits)
  note c = envelope_cut [OF h(1-3), folded q]
  from d h obtain blob where b: "open_sealed K ?p (envelope_header sq') = Some blob" "sc_de sc blob = Some s'"
    by (auto simp: decode_envelope_def Let_def bindE_Inr ok_or_def c(2) split: if_splits option.splits)
  have "length (take 4 (drop 16 bs)) = 4" using h(1) by (simp add: HEADER_LEN_def AAD_LEN_def)
  then have l: "be_bytes 4 (length ?p) = take 4 (drop 16 bs)" using be_bytes_facts(3) h(4) by metis
  show "\<exists>n blob sealed. sc_de sc blob = Some s' \<and> length n = SNAPSHOT_NONCE_LEN \<and> seal K n blob (envelope_header sq') = Some sealed \<and>
      bs = envelope_header sq' @ be_bytes 4 (length sealed) @ sealed"
  proof (intro exI conjI)
    show "sc_de sc blob = Some s'" by (rule b(2))
    show "length (take SNAPSHOT_NONCE_LEN ?p) = SNAPSHOT_NONCE_LEN" "seal K (take SNAPSHOT_NONCE_LEN ?p) blob (envelope_header sq') = Some ?p"
      using open_seal [OF assms(1) b(1)] by blast+
    show "bs = envelope_header sq' @ be_bytes 4 (length ?p) @ ?p" unfolding l by (rule c(1))
  qed
qed (rule envelope_decodes [OF assms])

text \<open>A cipher that hides nothing and a codec that knows one state: the smallest instances of the two parameters.\<close>

definition aead_ref :: aead where
  "aead_ref = \<lparr>ae_encrypt = (\<lambda>n m a. Some m), ae_decrypt = (\<lambda>n c a. Some c)\<rparr>"

definition state_codec_ref :: "serializable_state \<Rightarrow> state_codec" where
  "state_codec_ref s0 = \<lparr>sc_ser = (\<lambda>s. if s = s0 then Some [9] else None), sc_de = (\<lambda>b. Some (stored_state s0))\<rparr>"

definition nonce_ref :: bytes where
  "nonce_ref = replicate 24 5"

lemma refs_ok: "aead_ok aead_ref" "bincode_ok (state_codec_ref s0)" "length nonce_ref = SNAPSHOT_NONCE_LEN"
  by (simp_all add: aead_ok_def aead_ref_def bincode_ok_def state_codec_ref_def nonce_ref_def SNAPSHOT_NONCE_LEN_def)

lemma encode_ref:
  "encode_envelope (state_codec_ref s) aead_ref nonce_ref s sq =
     Inr (envelope_header sq @ be_bytes 4 25 @ nonce_ref @ [9])"
  by (simp add: encode_envelope_def state_codec_ref_def seal_def aead_ref_def ok_or_def nonce_ref_def)

theorem envelope_roundtrip_witness:
  "let s = to_serializable (en_state eng3) in
   decode_envelope (state_codec_ref s) aead_ref (envelope_header 3 @ be_bytes 4 25 @ nonce_ref @ [9]) = Inr (3, stored_state s)"
  unfolding Let_def using envelope_roundtrip [OF refs_ok, of 3 "to_serializable (en_state eng3)" "to_serializable (en_state eng3)"] encode_ref
  by simp

section \<open>Replaying the log\<close>

context event_store
begin

text \<open>With as much fuel as there are events left the loop ends, and its engine has the projected view.\<close>

lemma replay_loop_refines:
  assumes "\<forall>xs. co_sponge C xs < FR_MODULUS"
  shows "inv (en_store en) \<Longrightarrow> book_ok (eng_book en) \<Longrightarrow> book_seq (eng_book en) \<le> a \<Longrightarrow>
    project_all C (filter (\<lambda>e. a < ev_seq e) (log (en_store en))) (eng_view en) = Some v \<Longrightarrow>
    length (filter (\<lambda>e. a < ev_seq e) (log (en_store en))) < n \<Longrightarrow>
    \<exists>en' acc'. replay_loop n C ops a (en, acc) = Some (Inr (en', acc')) \<and> eng_view en' = v \<and> en_store en' = en_store en"
proof (induction n arbitrary: a en acc)
  case (Suc n)
  let ?st = "en_store en" let ?rest = "filter (\<lambda>e. a < ev_seq e) (log ?st)" let ?es = "take 1024 ?rest"
  have r: "st_read_from ops a 1024 ?st = Inr ?es" using read_law [OF Suc.prems(1)] by simp
  show ?case
  proof (cases "?rest = []")
    case True
    then show ?thesis using Suc.prems(4) r by (simp add: RECOVER_BATCH_def)
  next
    case False
    then have ne: "?es \<noteq> []" by simp
    note np = next_page [OF Suc.prems(1) _ r ne]
    let ?l = "ev_seq (last ?es)" let ?next = "filter (\<lambda>e. ?l < ev_seq e) (log ?st)"
    have cut: "?es @ ?next = ?rest" by (rule np(1) [symmetric]) simp
    then have len: "length ?es + length ?next = length ?rest" by (simp only: length_append [symmetric])
    have so: "sorted_wrt (<) (map ev_seq ?es)"
      using log_ok_filter [OF log_wf [OF Suc.prems(1)]] by (simp add: log_ok_def sorted_wrt_take flip: take_map)
    have "\<forall>e\<in>set ?es. a < ev_seq e" by (auto dest: in_set_takeD)
    then have above: "\<forall>e\<in>set ?es. book_seq (eng_book en) < ev_seq e" using le_less_trans [OF Suc.prems(3)] by blast
    have "project_all C (?es @ ?next) (eng_view en) = Some v" by (simp only: cut Suc.prems(4))
    then obtain v1 where v1: "project_all C ?es (eng_view en) = Some v1" "project_all C ?next v1 = Some v"
      unfolding project_all_append by (cases "project_all C ?es (eng_view en)") simp_all
    from replay_events_refines [OF assms Suc.prems(2) so above v1(1), of acc] obtain en1 acc1 where
      e: "replay_events C ?es (en, acc) = Inr (en1, acc1)" "eng_view en1 = v1" "book_ok (eng_book en1)" "en_store en1 = ?st"
         "book_seq (eng_book en1) \<le> fold max (map ev_seq ?es) (book_seq (eng_book en))" by blast
    have "\<forall>x\<in>set (map ev_seq ?es). x \<le> ?l" using sorted_le_last [OF so] by auto
    moreover have "book_seq (eng_book en) \<le> ?l" using above last_in_set [OF ne] by (blast intro: less_imp_le)
    ultimately have "fold max (map ev_seq ?es) (book_seq (eng_book en)) \<le> ?l" by (rule fold_max_le)
    moreover have "length ?next < n" using Suc.prems(5) len length_greater_0_conv [THEN iffD2, OF ne] by linarith
    ultimately have "\<exists>en' acc'. replay_loop n C ops ?l (en1, acc1) = Some (Inr (en', acc')) \<and> eng_view en' = v \<and> en_store en' = ?st"
      using Suc.IH [of en1 ?l acc1] Suc.prems(1) e v1(2) by simp
    then show ?thesis using r ne e(1) by (simp add: RECOVER_BATCH_def)
  qed
qed simp

end

text \<open>Aggregating an orphan auction again changes nothing the view shows, and fails only when the store does.\<close>

lemma apply_submitted:
  assumes "ev_data e = BatchSubmitted x y p n q"
  shows "\<exists>en'. apply_events C [e] en = Some en' \<and> eng_view en' = eng_view en"
  using assms by (auto simp: apply_events_def book_apply_def Let_def view_def)

lemma assign_all_data: "assign_all clk es sq = (es', sq') \<Longrightarrow> map ev_data es' = map ev_data es"
  by (induction es arbitrary: sq es' sq') (auto simp: assign_seq_and_timestamp_def Let_def split: prod.splits)

lemma file_append_data:
  assumes "store_append (file_ops cd) clk [event_at t d] en = (en', Inr es)"
  obtains e where "es = [e]" and "ev_data e = d"
proof -
  obtain es' sq where a: "assign_all clk [event_at t d] (fs_seq (en_store en)) = (es', sq)"
    by (cases "assign_all clk [event_at t d] (fs_seq (en_store en))")
  from assms obtain s' where "fs_append cd clk [event_at t d] (en_store en) = (s', Inr es)"
    by (auto simp: store_append_def file_ops_def split: prod.splits sum.splits)
  then have "es = es'" using fs_append_cases(2) [OF _ a] by auto
  then show ?thesis using assign_all_data [OF a] that by (auto simp: event_at_def new_event_def map_eq_Cons_conv)
qed

lemma reaggregate_view:
  assumes "reaggregate C (file_ops cd) clk A now bid acc a en = (en', r)"
  shows "eng_view en' = eng_view en \<and> (\<forall>e. r = Inl e \<longrightarrow> (\<exists>x. e = EventErr x))"
proof -
  let ?ms = "case hm_get (ra_matches_by_auction acc) a of None \<Rightarrow> [] | Some ms \<Rightarrow> ms"
  let ?ts = "case hm_get (ra_auction_timestamps acc) a of None \<Rightarrow> now | Some t \<Rightarrow> t"
  show ?thesis
  proof (cases "ag_aggregate A (bid a) a ?ms (batch_witness_empty (bid a) a)")
    case (Inl e)
    then show ?thesis using assms by (auto simp: reaggregate_def Let_def)
  next
    case (Inr pf)
    let ?d = "batch_submitted_event (bid a) a ?ms pf"
    obtain en1 x where x: "store_append (file_ops cd) clk [event_at ?ts ?d] en = (en1, x)"
      by (cases "store_append (file_ops cd) clk [event_at ?ts ?d] en")
    have v1: "eng_view en1 = eng_view en" using store_append_state [OF x] by simp
    show ?thesis
    proof (cases x)
      case (Inl e)
      with x have "\<exists>z. e = EventErr z" by (auto simp: store_append_def split: prod.splits sum.splits)
      with Inl Inr x v1 assms show ?thesis by (auto simp: reaggregate_def Let_def)
    next
      fix es
      assume es: "x = Inr es"
      obtain e where e: "es = [e]" "ev_data e = ?d" using x [unfolded es] by (rule file_append_data)
      then obtain en2 where "apply_events C [e] en1 = Some en2" "eng_view en2 = eng_view en1"
        using apply_submitted [OF e(2) [unfolded batch_submitted_event_def], of C en1] by blast
      with x v1 es e(1) Inr assms show ?thesis by (auto simp: reaggregate_def Let_def insert_batch_def)
    qed
  qed
qed

lemma reaggregate_all_view:
  assumes "reaggregate_all C (file_ops cd) clk A now bid acc as en = (en', r)"
  shows "eng_view en' = eng_view en \<and> (\<forall>e. r = Inl e \<longrightarrow> (\<exists>x. e = EventErr x))"
  using assms
proof (induction as arbitrary: en)
  case (Cons a as)
  obtain en1 x where x: "reaggregate C (file_ops cd) clk A now bid acc a en = (en1, x)"
    by (cases "reaggregate C (file_ops cd) clk A now bid acc a en")
  show ?case using reaggregate_view [OF x] Cons x by (cases x) auto
qed auto

text \<open>
  The outcome a restart is meant to have: the view is rebuilt and the engine is marked recovered. The
  only other outcome is a failed append, when the batch of an orphan auction cannot be persisted.
\<close>

definition recovered_to :: "view \<Rightarrow> (engine_error + 'st engine) option \<Rightarrow> bool" where
  "recovered_to v r \<longleftrightarrow>
     (case r of None \<Rightarrow> False
      | Some (Inl e) \<Rightarrow> \<exists>x. e = EventErr x
      | Some (Inr en) \<Rightarrow> view (en_state en) = v \<and> es_recovered (en_state en))"

lemma recover_from_start:
  assumes "\<forall>xs. co_sponge C xs < FR_MODULUS" and "\<not> es_recovered (en_state en)"
    and "recover_start sc K (file_ops cd) snaps (reset_engine en, replay_acc_empty) = Inr ((en1, acc), a)"
    and "file_inv (en_store en1)" and "book_ok (eng_book en1)" and "book_seq (eng_book en1) \<le> a"
    and "project_all C (filter (\<lambda>e. a < ev_seq e) (fs_events (en_store en1))) (eng_view en1) = Some v"
    and "length (fs_events (en_store en1)) < fuel"
  shows "recovered_to v (recover fuel C sc K (file_ops cd) snaps clk A now bid en)"
proof -
  have "length (filter (\<lambda>e. a < ev_seq e) (fs_events (en_store en1))) < fuel"
    using assms(8) le_less_trans [OF length_filter_le] by blast
  from fstore.replay_loop_refines [OF assms(1,4-7) this, of cd acc] obtain en2 acc2 where
    l: "replay_loop fuel C (file_ops cd) a (en1, acc) = Some (Inr (en2, acc2))" "eng_view en2 = v" by blast
  obtain en3 x where x: "reaggregate_all C (file_ops cd) clk A now bid acc2 (sort (hm_keys (ra_matches_by_auction acc2))) en2 = (en3, x)"
    by (cases "reaggregate_all C (file_ops cd) clk A now bid acc2 (sort (hm_keys (ra_matches_by_auction acc2))) en2")
  have "view ((en_state en3)\<lparr>es_recovered := True\<rparr>) = eng_view en3" by (simp add: view_def)
  with reaggregate_all_view [OF x] l x show ?thesis
    by (cases x) (auto simp: recover_def assms(2,3) recovered_to_def)
qed

lemma reset_facts:
  "eng_view (reset_engine en) = view_empty" "eng_book (reset_engine en) = book_new" "en_store (reset_engine en) = en_store en"
  "book_ok book_new" "book_seq book_new = 0"
  by (simp_all add: reset_engine_def reset_projection_def view_def view_empty_def book_new_def find_new book_ok_def flat_def)

lemma new_facts: "en_store (engine_new st iv) = st" "\<not> es_recovered (en_state (engine_new st iv))"
  by (simp_all add: engine_new_def engine_state_new_def)

section \<open>Restarting\<close>

text \<open>C6. Restart from the log alone: a new process that opens a store with the log of a running engine, whose first
  record is still number one, recovers the view of that engine, every resting order, the registry, the
  auction history and the spent sets; it needs no more rounds of the loop than there are events.\<close>

theorem recovery_rebuilds_state:
  assumes "collab_ok C" and "file_inv st" and "fs_events st = []" and "steps C (file_ops cd) (engine_new st iv) en"
    and "event_log_covers_seq_one (file_ops cd) st' = Inr True" and "file_inv st'" and "fs_events st' = fs_events (en_store en)"
    and "length (fs_events st') < fuel"
  shows "recovered_to (view (en_state en))
    (recover fuel C sc K (file_ops cd) (None :: ('sn snap_ops \<times> 'sn) option) clk A now bid (engine_new st' iv'))"
proof -
  from fstore.reachable_inv(2) [OF assms(1-4)] obtain hist b where
    h: "fs_events (en_store en) = filter (\<lambda>e. b \<le> ev_seq e) hist" "log_ok hist (last_seq (file_ops cd) en)"
       "project_all C hist view_empty = Some (eng_view en)" by blast
  have pos: "\<forall>e\<in>set hist. 0 < ev_seq e" using h(2) by (simp add: log_ok_def)
  have "\<exists>e. e \<in> set (fs_events st') \<and> ev_seq e = 1"
    using assms(5,6) fstore.read_law [of st' cd 0 1]
    by (auto simp: event_log_covers_seq_one_def bindE_Inr mapErr_def) (metis filter_is_subset hd_in_set subsetD)
  then have "b \<le> 1" using h(1) assms(7) by auto
  then have "filter (\<lambda>e. b \<le> ev_seq e) hist = hist" using pos by (auto intro!: filter_True)
  then have l: "filter (\<lambda>e. 0 < ev_seq e) (fs_events st') = hist" using h(1) assms(7) pos by (auto intro!: filter_True)
  show ?thesis
  proof (rule recover_from_start [where a = 0])
    show "\<forall>xs. co_sponge C xs < FR_MODULUS" using assms(1) by (simp add: collab_ok_def)
    show "recover_start sc K (file_ops cd) (None :: ('sn snap_ops \<times> 'sn) option) (reset_engine (engine_new st' iv'), replay_acc_empty) =
        Inr ((reset_engine (engine_new st' iv'), replay_acc_empty), 0)" by (simp add: recover_start_def)
  qed (use assms(6,8) l h(3) in \<open>simp_all add: reset_facts new_facts\<close>)
qed

lemma snapshot_facts:
  "eng_view (apply_snapshot_state (stored_state (to_serializable s)) en) = view s"
  "eng_book (apply_snapshot_state (stored_state (to_serializable s)) en) = es_book s"
  "en_store (apply_snapshot_state x en) = en_store en"
  by (simp_all add: apply_snapshot_state_def restore_from_serializable_def stored_state_def to_serializable_def view_def
      book_to_snapshot_def book_restore_from_def)

text \<open>
  Nothing after the position \<open>sq\<close> was compacted away: the log goes on with the next number, or nothing
  was ever appended after it.
\<close>

definition tail_complete :: "nat \<Rightarrow> nat \<Rightarrow> event list \<Rightarrow> bool" where
  "tail_complete sq newest es = (case filter (\<lambda>e. sq < ev_seq e) es of [] \<Rightarrow> newest = sq | e # _ \<Rightarrow> ev_seq e = sq + 1)"

lemma complete_tail:
  assumes "extends_by C ops lg en0 en es b" and "log_ok (lg (en_store en0)) (last_seq ops en0)"
    and "tail_complete (last_seq ops en0) (last_seq ops en) (lg (en_store en))"
  shows "filter (\<lambda>e. last_seq ops en0 < ev_seq e) (lg (en_store en)) = es"
proof -
  let ?a = "last_seq ops en0"
  have x: "lg (en_store en) = filter (\<lambda>e. b \<le> ev_seq e) (lg (en_store en0) @ es)" "\<forall>e\<in>set es. ?a < ev_seq e \<and> ev_seq e \<le> last_seq ops en"
    using assms(1) by (simp_all add: extends_by_def)
  have "\<forall>e\<in>set (lg (en_store en0)). \<not> ?a < ev_seq e" using assms(2) by (auto simp: log_ok_def)
  then have f: "filter (\<lambda>e. ?a < ev_seq e) (lg (en_store en)) = filter (\<lambda>e. b \<le> ev_seq e) es"
    using x by (auto simp: filter_empty_conv intro: filter_cong)
  show ?thesis
  proof (cases "filter (\<lambda>e. b \<le> ev_seq e) es")
    case Nil
    then have "last_seq ops en = ?a" using assms(3) f by (simp add: tail_complete_def)
    then have "es = []" using x(2) by (cases es) auto
    then show ?thesis using f by simp
  next
    case (Cons e es')
    then have "ev_seq e = ?a + 1" "b \<le> ev_seq e" using assms(3) f by (auto simp: tail_complete_def filter_eq_Cons_iff)
    then have "filter (\<lambda>e. b \<le> ev_seq e) es = es" using x(2) by (intro filter_True) auto
    then show ?thesis using f by simp
  qed
qed

text \<open>C7. Restart from a snapshot: when the newest stored snapshot was captured from the engine at some point of its
  run, and the log after its position is complete, a new process recovers the view the engine had at
  the end, whatever ran in between.\<close>

theorem snapshot_and_tail_rebuild_state:
  assumes "collab_ok C" and "file_inv st" and "fs_events st = []" and "steps C (file_ops cd) (engine_new st iv) en0"
    and "steps C (file_ops cd) en0 en" and "aead_ok K" and "bincode_ok sc" and "length nonce = SNAPSHOT_NONCE_LEN"
    and "capture_snapshot_state (file_ops cd) en0 = (s, sq)" and "encode_envelope sc K nonce s sq = Inr env"
    and "sn_list_seqs snops sn = Inr (older @ [sq])" and "sn_read_at snops sq sn = Inr (Some env)"
    and "file_inv st'" and "fs_events st' = fs_events (en_store en)"
    and "tail_complete sq (last_seq (file_ops cd) en) (fs_events st')" and "length (fs_events st') < fuel"
  shows "recovered_to (view (en_state en))
    (recover fuel C sc (Some K) (file_ops cd) (Some (snops, sn)) clk A now bid (engine_new st' iv'))"
proof -
  have i: "engine_inv (file_ops cd) file_inv en0" using assms(1-4) by (rule fstore.reachable_inv(1))
  then have i0: "file_inv (en_store en0)" "book_ok (eng_book en0)" "book_seq (eng_book en0) \<le> last_seq (file_ops cd) en0"
    by (simp_all add: engine_inv_def state_ok_def)
  note wf = fstore.log_wf [OF i0(1), of cd]
  have s: "s = to_serializable (en_state en0)" "sq = last_seq (file_ops cd) en0" using assms(9) by (simp_all add: capture_snapshot_state_def)
  have d: "decode_envelope sc K env = Inr (sq, stored_state s)"
    using wf by (intro envelope_decodes [OF assms(6,7,8) _ assms(10)]) (simp add: log_ok_def s(2))
  from fstore.steps_advance [OF assms(1,5) i] obtain es b where e: "extends_by C (file_ops cd) fs_events en0 en es b"
    by (auto simp: advances_def)
  have t: "filter (\<lambda>e. sq < ev_seq e) (fs_events st') = es"
    using complete_tail [OF e wf] assms(14,15) by (simp add: s(2))
  let ?en = "reset_engine (engine_new st' iv')" let ?en1 = "apply_snapshot_state (stored_state s) ?en"
  have st: "en_store ?en1 = st'" by (simp add: snapshot_facts(3) reset_facts(3) new_facts)
  have "event_log_continuous_after (file_ops cd) sq st' = Inr True"
    using assms(15) by (simp add: event_log_continuous_after_def fstore.read_law [OF assms(13)] mapErr_def tail_complete_def split: list.splits)
  then obtain acc where r: "recover_start sc (Some K) (file_ops cd) (Some (snops, sn)) (?en, replay_acc_empty) = Inr ((?en1, acc), sq)"
    using st by (simp add: recover_start_def try_restore_from_snapshots_def assms(11,12) d apply_snapshot_def Let_def)
  show ?thesis
  proof (rule recover_from_start [OF _ _ r])
    show "\<forall>xs. co_sponge C xs < FR_MODULUS" using assms(1) by (simp add: collab_ok_def)
    show "project_all C (filter (\<lambda>e. sq < ev_seq e) (fs_events (en_store ?en1))) (eng_view ?en1) = Some (eng_view en)"
      unfolding st t using e by (simp add: s(1) snapshot_facts(1) extends_by_def)
  qed (use st assms(13,16) i0 in \<open>simp_all add: s snapshot_facts(2) new_facts\<close>)
qed

lemma placed_log:
  assumes "place_encrypted_order collab_ref sops clk now i pf ct caller en = (en', Inr ord)"
    and "steps collab_ref sops (engine_new fresh_file 0) en" and "calm n en" and "n < 1000"
    and "find_order (eng_book en) i = None" and "now \<noteq> 0"
  shows "\<exists>e. fs_events (en_store en') = fs_events (en_store en) @ [e] \<and> ev_seq e = n + 1"
proof -
  have i: "engine_inv sops file_inv en" by (rule fstore.reachable_inv(1) [OF collab_ok_ref fresh_file_ok assms(2)])
  from assms(1) obtain d key spend o' sec rp sq where p: "place_precheck collab_ref (en_state en) ct caller = Inr (d, key)"
    "place_build collab_ref d key spend pf ct i now = Inr (o', sec, rp)"
    "persist_order_placed collab_ref sops clk o' sec (os_commitment sec) pf ct rp en = (en', Inr sq)"
    by (auto simp: place_encrypted_order_def split: sum.splits prod.splits)
  have "last_seq sops en = n" using assms(3) by (simp add: calm_def file_ops_def)
  then show ?thesis
    using fstore.place_effect(4) [OF collab_ok_ref i calm_room [OF assms(3,4)] p(1,2) assms(5,6) p(3)] by simp
qed

lemma sample_log:
  "\<exists>e1 e2 e3. fs_events (en_store eng2) = [e1, e2] \<and> fs_events (en_store eng3) = [e1, e2, e3] \<and> ev_seq e1 = 1 \<and> ev_seq e2 = 2 \<and> ev_seq e3 = 3"
proof -
  have "\<exists>e. fs_events (en_store eng2) = fs_events (en_store eng1) @ [e] \<and> ev_seq e = 1 + 1"
    by (rule placed_log [OF eng2_facts(1) [unfolded place_bid_def] eng_reachable(1) eng1_facts(1)]) (simp_all add: eng1_book find_new)
  moreover have "\<exists>e. fs_events (en_store eng3) = fs_events (en_store eng2) @ [e] \<and> ev_seq e = 2 + 1"
    by (rule placed_log [OF eng3_facts(1) [unfolded place_ask_def] eng_reachable(2) eng2_facts(2)]) (simp_all add: eng2_facts(3))
  ultimately show ?thesis using eng1_facts(4) by fastforce
qed

lemma eng3_store: "file_inv (en_store eng3)"
  using fstore.reachable_inv(1) [OF sample_run_ok] by (simp add: engine_inv_def)

definition aggregator_ref :: aggregator where
  "aggregator_ref = \<lparr>ag_aggregate = (\<lambda>_ _ _ _. Inr [1]), ag_fold_step = (\<lambda>_ _ _. Inr ()), ag_finalize = (\<lambda>_ _. Inl ''none'')\<rparr>"

theorem recovery_rebuilds_state_witness:
  "recovered_to (view (en_state eng3))
     (recover 4 collab_ref (state_codec_ref (to_serializable (en_state eng3))) None sops (None :: (mem_snaps snap_ops \<times> mem_snaps) option)
        (\<lambda>_. 7) aggregator_ref 9 id (engine_new (en_store eng3) 0))"
proof -
  obtain e1 e2 e3 where e: "fs_events (en_store eng3) = [e1, e2, e3]" "ev_seq e1 = 1" using sample_log by blast
  then have "event_log_covers_seq_one sops (en_store eng3) = Inr True"
    using fstore.read_law [OF eng3_store, of sample_codec 0 1] by (simp add: event_log_covers_seq_one_def mapErr_def)
  then show ?thesis using e by (intro recovery_rebuilds_state [OF sample_run_ok _ eng3_store]) simp_all
qed

theorem snapshot_and_tail_rebuild_state_witness:
  "let s = to_serializable (en_state eng2); env = envelope_header 2 @ be_bytes 4 25 @ nonce_ref @ [9] in
   recovered_to (view (en_state eng3))
     (recover 4 collab_ref (state_codec_ref s) (Some aead_ref) sops (Some (mem_snap_ops, [(1, [7]), (2, env)]))
        (\<lambda>_. 7) aggregator_ref 9 id (engine_new (en_store eng3) 0))"
proof -
  let ?s = "to_serializable (en_state eng2)"
  obtain e1 e2 e3 where e: "fs_events (en_store eng3) = [e1, e2, e3]" "ev_seq e1 = 1" "ev_seq e2 = 2" "ev_seq e3 = 3" using sample_log by blast
  have c: "capture_snapshot_state sops eng2 = (?s, 2)" using eng2_facts(2) by (simp add: capture_snapshot_state_def calm_def file_ops_def)
  have t: "tail_complete 2 (last_seq sops eng3) (fs_events (en_store eng3))" by (simp add: tail_complete_def e)
  show ?thesis unfolding Let_def
    by (rule snapshot_and_tail_rebuild_state [OF collab_ok_ref fresh_file_ok eng_reachable(2) eng3_steps refs_ok c encode_ref _ _ eng3_store _ t,
          where older = "[1]"]) (simp_all add: mem_snap_ops_def e)
qed

end
