(* ===== verification/Evm.thy ===== *)
theory Evm
  imports Encoding
begin

text \<open>
  What the Solidity contracts use of their language and of the chain: checked 256-bit arithmetic,
  \<^verbatim>\<open>require\<close>, the ABI encoding that is hashed into identifiers, and the code at other addresses.

  A \<^verbatim>\<open>uint256\<close> is a natural number below \<open>2 ^ 256\<close>, and an operation that would leave the range
  reverts, as in Solidity 0.8. A function that changes state returns \<open>Inl\<close> with the reason when it
  reverts; the chain then discards every change of the call. Events are not modelled: no code reads
  them back. Addresses are 160-bit words; calldata is assumed to decode, so a \<^verbatim>\<open>uint256[6]\<close> is a
  list of length six.
\<close>

section \<open>Checked arithmetic\<close>

type_synonym 'a evm = "string + 'a"
type_synonym u256 = nat
type_synonym bytes32 = nat
type_synonym eaddr = "160 word"

definition PANIC :: string where
  "PANIC = ''Panic(0x11)''"

definition add_u256 :: "u256 \<Rightarrow> u256 \<Rightarrow> u256 evm" where
  "add_u256 a b = (if a + b < 2 ^ 256 then Inr (a + b) else Inl PANIC)"

definition sub_u256 :: "u256 \<Rightarrow> u256 \<Rightarrow> u256 evm" where
  "sub_u256 a b = (if b \<le> a then Inr (a - b) else Inl PANIC)"

definition mul_u256 :: "u256 \<Rightarrow> u256 \<Rightarrow> u256 evm" where
  "mul_u256 a b = (if a * b < 2 ^ 256 then Inr (a * b) else Inl PANIC)"

definition pow_u256 :: "u256 \<Rightarrow> nat \<Rightarrow> u256 evm" where
  "pow_u256 a n = (if a ^ n < 2 ^ 256 then Inr (a ^ n) else Inl PANIC)"

text \<open>\<^verbatim>\<open>require(c, e)\<close> in front of the rest of a function.\<close>

definition require :: "bool \<Rightarrow> string \<Rightarrow> 'a evm \<Rightarrow> 'a evm" where
  "require c e k = (if c then k else Inl e)"

text \<open>The modular operations of the machine, and its exponentiation precompile, by repeated squaring.\<close>

definition addmod :: "u256 \<Rightarrow> u256 \<Rightarrow> u256 \<Rightarrow> u256" where
  "addmod a b m = (a + b) mod m"

definition mulmod :: "u256 \<Rightarrow> u256 \<Rightarrow> u256 \<Rightarrow> u256" where
  "mulmod a b m = a * b mod m"

function modexp :: "nat \<Rightarrow> nat \<Rightarrow> nat \<Rightarrow> nat" where
  "modexp b e m =
     (if e = 0 then 1 mod m
      else let h = modexp (b * b mod m) (e div 2) m in if odd e then b * h mod m else h)"
  by pat_completeness auto
termination
  by (relation "measure (\<lambda>(_, e, _). e)") auto

declare modexp.simps [simp del]

section \<open>ABI encoding\<close>

definition abi_word :: "nat \<Rightarrow> bytes" where
  "abi_word n = be_bytes 32 n"

text \<open>The tail of a dynamic string: its length, and its bytes padded to whole words.\<close>

definition abi_string :: "string \<Rightarrow> bytes" where
  "abi_string s = abi_word (length s) @ ascii s @ replicate ((32 - length s mod 32) mod 32) 0"

section \<open>Other contracts\<close>

text \<open>
  The code a contract calls at other addresses. \<open>'w\<close> is the state of all other contracts. A call that
  reverts, or whose safe wrapper finds that it failed, is \<open>None\<close>. The hash function is a parameter too.
\<close>

type_synonym groth16_proof = "(u256 \<times> u256) \<times> ((u256 \<times> u256) \<times> (u256 \<times> u256)) \<times> (u256 \<times> u256)"

record 'w chain =
  x_keccak :: "bytes \<Rightarrow> bytes32"
  x_chainid :: u256
  x_this :: eaddr
  x_code_length :: "eaddr \<Rightarrow> nat"
  x_balance_of :: "eaddr \<Rightarrow> eaddr \<Rightarrow> 'w \<Rightarrow> u256"
  x_transfer_from :: "eaddr \<Rightarrow> eaddr \<Rightarrow> eaddr \<Rightarrow> u256 \<Rightarrow> 'w \<Rightarrow> 'w option"
  x_transfer :: "eaddr \<Rightarrow> eaddr \<Rightarrow> u256 \<Rightarrow> 'w \<Rightarrow> 'w option"
  x_decimals :: "eaddr \<Rightarrow> 'w \<Rightarrow> nat option"
  x_verify_proof :: "eaddr \<Rightarrow> groth16_proof \<Rightarrow> u256 list \<Rightarrow> 'w \<Rightarrow> bool option"
  x_verify_ivc :: "eaddr \<Rightarrow> bytes \<Rightarrow> u256 list \<Rightarrow> u256 list \<Rightarrow> nat \<Rightarrow> 'w \<Rightarrow> bool option"

text \<open>The call: who sent it, and the time of its block.\<close>

record msg =
  msg_sender :: eaddr
  block_timestamp :: u256

section \<open>Facts\<close>

named_theorems evm_ok

lemma add_u256_Inr [evm_ok]: "add_u256 a b = Inr c \<longleftrightarrow> c = a + b \<and> a + b < 2 ^ 256"
  by (auto simp: add_u256_def)

lemma sub_u256_Inr [evm_ok]: "sub_u256 a b = Inr c \<longleftrightarrow> c = a - b \<and> b \<le> a"
  by (auto simp: sub_u256_def)

lemma mul_u256_Inr [evm_ok]: "mul_u256 a b = Inr c \<longleftrightarrow> c = a * b \<and> a * b < 2 ^ 256"
  by (auto simp: mul_u256_def)

lemma pow_u256_Inr [evm_ok]: "pow_u256 a n = Inr c \<longleftrightarrow> c = a ^ n \<and> a ^ n < 2 ^ 256"
  by (auto simp: pow_u256_def)

lemma require_Inr [evm_ok]: "require c e k = Inr x \<longleftrightarrow> c \<and> k = Inr x"
  by (simp add: require_def)

lemmas bindE_ok [evm_ok] = bindE_Inr

lemma modexp_power: "modexp b e m = b ^ e mod m"
proof (induction b e m rule: modexp.induct)
  case (1 b e m)
  show ?case
  proof (cases "e = 0")
    case False
    have h: "modexp (b * b mod m) (e div 2) m = (b * b) ^ (e div 2) mod m" using 1 [OF False] by (simp add: power_mod)
    have "(b * b) ^ (e div 2) = b ^ (2 * (e div 2))" by (metis power2_eq_square power_mult)
    then show ?thesis using False h
      by (cases "even e") (auto simp: modexp.simps [of b e m] Let_def mod_mult_right_eq elim!: evenE oddE)
  qed (simp add: modexp.simps)
qed

end
