(* ===== verification/DarkPool.thy ===== *)
theory DarkPool
  imports PoseidonSol
begin

text \<open>
  The settlement contract (\<^verbatim>\<open>contracts/src/DarkPool.sol\<close>): deposits, the reserved escrow with its
  cool-down, the two settlement arms, and the owner's functions. Every external function is a
  definition; \<open>exec\<close> dispatches a call and \<open>tx\<close> is a transaction, which a revert undoes.

  From the OpenZeppelin library, which is not part of the repository, the contract uses the owner, the
  pause switch and the re-entrancy lock: the first two are fields of the state with the checks of their
  modifiers, and the third has no effect here, since the tokens the contract calls are taken not to
  call back.
\<close>

section \<open>State\<close>

definition PROTOCOL_FEE_BPS :: u256 where
  "PROTOCOL_FEE_BPS = 5"

definition MAX_BATCH_SIZE :: nat where
  "MAX_BATCH_SIZE = 256"

definition SNARK_SCALAR_FIELD :: u256 where
  "SNARK_SCALAR_FIELD = 21888242871839275222246405745257275088548364400416034343698204186575808495617"

definition MAX_IVC_SETTLE_MATCHES :: nat where
  "MAX_IVC_SETTLE_MATCHES = 32"

definition BPS_DENOMINATOR :: u256 where
  "BPS_DENOMINATOR = 10000"

definition SECP256K1_P :: u256 where
  "SECP256K1_P = 0xFFFFFFFFFFFFFFFFFFFFFFFFFFFFFFFFFFFFFFFFFFFFFFFFFFFFFFFEFFFFFC2F"

definition SECP256K1_LEGENDRE_EXP :: u256 where
  "SECP256K1_LEGENDRE_EXP = (SECP256K1_P - 1) div 2"

definition WEI_TO_CIRCUIT_SCALE :: u256 where
  "WEI_TO_CIRCUIT_SCALE = 10 ^ 10"

definition UNRESERVE_DELAY :: u256 where
  "UNRESERVE_DELAY = 3600"

definition SETTLEMENT_ID_DOMAIN :: "'w chain \<Rightarrow> bytes32" where
  "SETTLEMENT_ID_DOMAIN X = x_keccak X (ascii ''DarkPoolSettlementId-v1'')"

record sol_match =
  bidOrderId :: bytes32
  askOrderId :: bytes32
  bidTrader :: eaddr
  askTrader :: eaddr
  baseToken :: eaddr
  quoteToken :: eaddr
  sol_price :: u256
  sol_size :: u256

text \<open>A Solidity mapping is a total function, zero where nothing was written.\<close>

record pool =
  verifier :: eaddr
  settlementDomain :: u256
  operators :: "eaddr \<Rightarrow> bool"
  settledBatch :: "bytes32 \<Rightarrow> bool"
  settledAuction :: "bytes32 \<Rightarrow> bool"
  balances :: "eaddr \<Rightarrow> eaddr \<Rightarrow> u256"
  allowedTokens :: "eaddr \<Rightarrow> bool"
  reserved :: "eaddr \<Rightarrow> eaddr \<Rightarrow> u256"
  pendingUnreserve :: "eaddr \<Rightarrow> eaddr \<Rightarrow> u256"
  unreserveReadyAt :: "eaddr \<Rightarrow> eaddr \<Rightarrow> u256"
  ivcVerifier :: eaddr
  sessionSubmitted :: "bytes32 \<Rightarrow> bool"
  auctionToSession :: "bytes32 \<Rightarrow> bytes32"
  sessionSettlementAcc :: "bytes32 \<Rightarrow> u256"
  sessionSettled :: "bytes32 \<Rightarrow> bool"
  ivcEnabled :: bool
  feeRecipient :: eaddr
  minSize :: u256
  minPrice :: u256
  positionLimit :: u256
  operatorPubkey :: bytes
  operatorPubkeyEffectiveAt :: nat
  pool_owner :: eaddr
  pool_paused :: bool

definition upd2 :: "eaddr \<Rightarrow> eaddr \<Rightarrow> u256 \<Rightarrow> (eaddr \<Rightarrow> eaddr \<Rightarrow> u256) \<Rightarrow> eaddr \<Rightarrow> eaddr \<Rightarrow> u256" where
  "upd2 u t v f = f(u := (f u)(t := v))"

text \<open>The modifiers.\<close>

definition onlyOwner :: "msg \<Rightarrow> pool \<Rightarrow> 'a evm \<Rightarrow> 'a evm" where
  "onlyOwner m s k = require (msg_sender m = pool_owner s) ''OwnableUnauthorizedAccount'' k"

definition whenNotPaused :: "pool \<Rightarrow> 'a evm \<Rightarrow> 'a evm" where
  "whenNotPaused s k = require (\<not> pool_paused s) ''EnforcedPause'' k"

definition onlyOperator :: "msg \<Rightarrow> pool \<Rightarrow> 'a evm \<Rightarrow> 'a evm" where
  "onlyOperator m s k = require (operators s (msg_sender m)) ''not operator'' k"

definition whenIvcEnabled :: "pool \<Rightarrow> 'a evm \<Rightarrow> 'a evm" where
  "whenIvcEnabled s k = require (ivcEnabled s) ''ivc settlement disabled'' k"

section \<open>The operator's public key\<close>

definition readUint256 :: "bytes \<Rightarrow> nat \<Rightarrow> u256" where
  "readUint256 data offset = be_nat (take 32 (drop offset data))"

definition validSec1Tag :: "bytes \<Rightarrow> bool" where
  "validSec1Tag pubkey =
     (let tag = pubkey ! 0 in
      if length pubkey = 33 then tag = 2 \<or> tag = 3 else tag = 4)"

definition secp256k1Rhs :: "u256 \<Rightarrow> u256" where
  "secp256k1Rhs x =
     (let x2 = mulmod x x SECP256K1_P in addmod (mulmod x2 x SECP256K1_P) 7 SECP256K1_P)"

definition isQuadraticResidue :: "u256 \<Rightarrow> bool" where
  "isQuadraticResidue v = (modexp v SECP256K1_LEGENDRE_EXP SECP256K1_P = 1)"

definition validSec1Point :: "bytes \<Rightarrow> bool" where
  "validSec1Point pubkey =
     (let x = readUint256 pubkey 1 in
      if SECP256K1_P \<le> x then False
      else let rhs = secp256k1Rhs x in
        if length pubkey = 33 then isQuadraticResidue rhs
        else let y = readUint256 pubkey 33 in y < SECP256K1_P \<and> mulmod y y SECP256K1_P = rhs)"

definition check_pubkey :: "bytes \<Rightarrow> 'a evm \<Rightarrow> 'a evm" where
  "check_pubkey pk k =
     require (length pk = 33 \<or> length pk = 65) ''bad pubkey len'' (
     require (validSec1Tag pk) ''bad pubkey tag'' (
     require (validSec1Point pk) ''bad pubkey point'' k))"

section \<open>Construction\<close>

definition settlement_domain :: "'w chain \<Rightarrow> u256" where
  "settlement_domain X =
     x_keccak X (abi_word 96 @ abi_word (x_chainid X) @ abi_word (unat (x_this X)) @ abi_string ''DarkPoolSettlement-v1'')
       mod SNARK_SCALAR_FIELD"

definition constructor :: "'w chain \<Rightarrow> msg \<Rightarrow> eaddr \<Rightarrow> eaddr \<Rightarrow> bytes \<Rightarrow> pool evm" where
  "constructor X m vf rec pk =
     require (vf \<noteq> 0) ''zero verifier'' (
     require (0 < x_code_length X vf) ''verifier has no code'' (
     require (rec \<noteq> 0) ''zero fee recipient'' (
     check_pubkey pk (
     Inr \<lparr>verifier = vf, settlementDomain = settlement_domain X, operators = (\<lambda>_. False),
          settledBatch = (\<lambda>_. False), settledAuction = (\<lambda>_. False), balances = (\<lambda>_ _. 0),
          allowedTokens = (\<lambda>_. False), reserved = (\<lambda>_ _. 0), pendingUnreserve = (\<lambda>_ _. 0),
          unreserveReadyAt = (\<lambda>_ _. 0), ivcVerifier = 0, sessionSubmitted = (\<lambda>_. False),
          auctionToSession = (\<lambda>_. 0), sessionSettlementAcc = (\<lambda>_. 0), sessionSettled = (\<lambda>_. False),
          ivcEnabled = False, feeRecipient = rec, minSize = 0, minPrice = 0, positionLimit = 0,
          operatorPubkey = pk, operatorPubkeyEffectiveAt = block_timestamp m mod 2 ^ 64,
          pool_owner = msg_sender m, pool_paused = False\<rparr>))))"

section \<open>Identifiers\<close>

definition domainId :: "'w chain \<Rightarrow> string \<Rightarrow> bytes32 \<Rightarrow> bytes32" where
  "domainId X namespace i =
     x_keccak X (abi_word (SETTLEMENT_ID_DOMAIN X) @ abi_word (x_chainid X) @ abi_word (unat (x_this X)) @ abi_word 160 @
       abi_word i @ abi_string namespace)"

definition settledBatch_of :: "'w chain \<Rightarrow> pool \<Rightarrow> bytes32 \<Rightarrow> bool" where
  "settledBatch_of X s batchId = settledBatch s (domainId X ''batch'' batchId)"

definition settledAuction_of :: "'w chain \<Rightarrow> pool \<Rightarrow> bytes32 \<Rightarrow> bool" where
  "settledAuction_of X s auctionId = settledAuction s (domainId X ''auction'' auctionId)"

definition sessionSubmitted_of :: "'w chain \<Rightarrow> pool \<Rightarrow> bytes32 \<Rightarrow> bool" where
  "sessionSubmitted_of X s sessionId = sessionSubmitted s (domainId X ''session'' sessionId)"

definition auctionToSession_of :: "'w chain \<Rightarrow> pool \<Rightarrow> bytes32 \<Rightarrow> bytes32" where
  "auctionToSession_of X s auctionId = auctionToSession s (domainId X ''auction'' auctionId)"

definition sessionSettlementAcc_of :: "'w chain \<Rightarrow> pool \<Rightarrow> bytes32 \<Rightarrow> u256" where
  "sessionSettlementAcc_of X s sessionId = sessionSettlementAcc s (domainId X ''session'' sessionId)"

definition sessionSettled_of :: "'w chain \<Rightarrow> pool \<Rightarrow> bytes32 \<Rightarrow> bool" where
  "sessionSettled_of X s sessionId = sessionSettled s (domainId X ''session'' sessionId)"

section \<open>Deposits, withdrawals and the escrow\<close>

definition deposit :: "'w chain \<Rightarrow> msg \<Rightarrow> eaddr \<Rightarrow> u256 \<Rightarrow> pool \<times> 'w \<Rightarrow> (pool \<times> 'w) evm" where
  "deposit X m token amount sw =
     (let s = fst sw; w = snd sw; u = msg_sender m; this = x_this X in
      whenNotPaused s (
      require (0 < amount) ''zero amount'' (
      require (allowedTokens s token) ''token not allowed'' (
      let balanceBefore = x_balance_of X token this w in
      bindE (ok_or ''SafeERC20FailedOperation'' (x_transfer_from X token u this amount w)) (\<lambda>w'.
      bindE (sub_u256 (x_balance_of X token this w') balanceBefore) (\<lambda>received.
      require (0 < received) ''no tokens received'' (
      bindE (add_u256 (balances s u token) received) (\<lambda>b.
      Inr (s\<lparr>balances := upd2 u token b (balances s)\<rparr>, w')))))))))"

definition withdraw :: "'w chain \<Rightarrow> msg \<Rightarrow> eaddr \<Rightarrow> u256 \<Rightarrow> pool \<times> 'w \<Rightarrow> (pool \<times> 'w) evm" where
  "withdraw X m token amount sw =
     (let s = fst sw; w = snd sw; u = msg_sender m in
      whenNotPaused s (
      require (0 < amount) ''zero amount'' (
      require (amount \<le> balances s u token) ''insufficient balance'' (
      bindE (sub_u256 (balances s u token) amount) (\<lambda>b.
      bindE (ok_or ''SafeERC20FailedOperation'' (x_transfer X token u amount w)) (\<lambda>w'.
      Inr (s\<lparr>balances := upd2 u token b (balances s)\<rparr>, w')))))))"

definition reserve :: "msg \<Rightarrow> eaddr \<Rightarrow> u256 \<Rightarrow> pool \<Rightarrow> pool evm" where
  "reserve m token amount s =
     (let u = msg_sender m in
      whenNotPaused s (
      require (0 < amount) ''zero amount'' (
      require (amount \<le> balances s u token) ''insufficient balance'' (
      bindE (sub_u256 (balances s u token) amount) (\<lambda>b.
      bindE (add_u256 (reserved s u token) amount) (\<lambda>r.
      Inr (s\<lparr>balances := upd2 u token b (balances s), reserved := upd2 u token r (reserved s)\<rparr>)))))))"

definition requestUnreserve :: "msg \<Rightarrow> eaddr \<Rightarrow> u256 \<Rightarrow> pool \<Rightarrow> pool evm" where
  "requestUnreserve m token amount s =
     (let u = msg_sender m in
      whenNotPaused s (
      require (0 < amount) ''zero amount'' (
      let r = reserved s u token; p = pendingUnreserve s u token;
          available = (if p < r then r - p else 0)
      in
      require (amount \<le> available) ''exceeds reserved'' (
      bindE (add_u256 p amount) (\<lambda>p'.
      bindE (add_u256 (block_timestamp m) UNRESERVE_DELAY) (\<lambda>readyAt.
      Inr (s\<lparr>pendingUnreserve := upd2 u token p' (pendingUnreserve s),
             unreserveReadyAt := upd2 u token readyAt (unreserveReadyAt s)\<rparr>)))))))"

definition releaseUnreserve :: "msg \<Rightarrow> eaddr \<Rightarrow> pool \<Rightarrow> pool evm" where
  "releaseUnreserve m token s =
     (let u = msg_sender m in
      whenNotPaused s (
      let pend = pendingUnreserve s u token in
      require (0 < pend) ''nothing pending'' (
      require (unreserveReadyAt s u token \<le> block_timestamp m) ''unreserve not ready'' (
      let r = reserved s u token; amount = (if pend \<le> r then pend else r) in
      bindE (sub_u256 r amount) (\<lambda>r'.
      bindE (add_u256 (balances s u token) amount) (\<lambda>b.
      Inr (s\<lparr>reserved := upd2 u token r' (reserved s), balances := upd2 u token b (balances s),
             pendingUnreserve := upd2 u token 0 (pendingUnreserve s),
             unreserveReadyAt := upd2 u token 0 (unreserveReadyAt s)\<rparr>)))))))"

section \<open>Settlement\<close>

definition consumeReserved :: "eaddr \<Rightarrow> eaddr \<Rightarrow> u256 \<Rightarrow> pool \<Rightarrow> pool evm" where
  "consumeReserved u token amount s =
     (let r = reserved s u token in
      bindE (sub_u256 r amount) (\<lambda>r'.
      let s' = s\<lparr>reserved := upd2 u token r' (reserved s)\<rparr>; p = pendingUnreserve s u token in
      if p \<noteq> 0 then
        (let freeReserved = (if p < r then r - p else 0) in
         if freeReserved < amount then
           bindE (sub_u256 amount freeReserved) (\<lambda>reach.
           bindE (sub_u256 p reach) (\<lambda>newPending.
           let s'' = s'\<lparr>pendingUnreserve := upd2 u token newPending (pendingUnreserve s')\<rparr> in
           if newPending = 0 then Inr (s''\<lparr>unreserveReadyAt := upd2 u token 0 (unreserveReadyAt s'')\<rparr>) else Inr s''))
         else Inr s')
      else Inr s'))"

text \<open>\<^verbatim>\<open>balances[u][token] += amount\<close>.\<close>

definition credit :: "eaddr \<Rightarrow> eaddr \<Rightarrow> u256 \<Rightarrow> pool \<Rightarrow> pool evm" where
  "credit u token amount s =
     bindE (add_u256 (balances s u token) amount) (\<lambda>b. Inr (s\<lparr>balances := upd2 u token b (balances s)\<rparr>))"

text \<open>The amounts of a match, in the raw units of its tokens: the base leg, the notional, and the fee.\<close>

definition match_amounts :: "'w chain \<Rightarrow> 'w \<Rightarrow> sol_match \<Rightarrow> (u256 \<times> u256 \<times> u256) evm" where
  "match_amounts X w m =
     bindE (ok_or ''decimals'' (x_decimals X (baseToken m) w)) (\<lambda>baseDecimals.
     bindE (ok_or ''decimals'' (x_decimals X (quoteToken m) w)) (\<lambda>quoteDecimals.
     bindE (pow_u256 10 baseDecimals) (\<lambda>bscale.
     bindE (mul_u256 (sol_size m) bscale) (\<lambda>braw.
     bindE (mul_u256 (sol_price m) (sol_size m)) (\<lambda>product.
     bindE (pow_u256 10 quoteDecimals) (\<lambda>qscale.
     bindE (mul_u256 (product div 10 ^ 18) qscale) (\<lambda>qraw.
     bindE (mul_u256 (qraw div 10 ^ 18) PROTOCOL_FEE_BPS) (\<lambda>fraw.
     Inr (braw div 10 ^ 18, qraw div 10 ^ 18, fraw div BPS_DENOMINATOR)))))))))"

definition settleMatch :: "'w chain \<Rightarrow> 'w \<Rightarrow> sol_match \<Rightarrow> pool \<Rightarrow> pool evm" where
  "settleMatch X w m s =
     bindE (match_amounts X w m) (\<lambda>(baseAmount, notional, fee).
     bindE (sub_u256 notional fee) (\<lambda>askReceives.
     bindE (consumeReserved (bidTrader m) (quoteToken m) notional s) (\<lambda>s1.
     bindE (credit (bidTrader m) (baseToken m) baseAmount s1) (\<lambda>s2.
     bindE (consumeReserved (askTrader m) (baseToken m) baseAmount s2) (\<lambda>s3.
     bindE (credit (askTrader m) (quoteToken m) askReceives s3) (\<lambda>s4.
     credit (feeRecipient s4) (quoteToken m) fee s4))))))"

fun settle_all :: "'w chain \<Rightarrow> 'w \<Rightarrow> sol_match list \<Rightarrow> pool \<Rightarrow> pool evm" where
  "settle_all X w [] s = Inr s"
| "settle_all X w (m # ms) s = bindE (settleMatch X w m s) (settle_all X w ms)"

definition decodeProof :: "bytes \<Rightarrow> groth16_proof" where
  "decodeProof pf =
     (let wd = (\<lambda>i. be_nat (take 32 (drop (32 * i) pf)))
      in ((wd 0, wd 1), ((wd 2, wd 3), (wd 4, wd 5)), (wd 6, wd 7)))"

definition submitBatch ::
  "'w chain \<Rightarrow> msg \<Rightarrow> 'w \<Rightarrow> bytes32 \<Rightarrow> bytes32 \<Rightarrow> bytes \<Rightarrow> u256 list \<Rightarrow> sol_match list \<Rightarrow> pool \<Rightarrow> pool evm" where
  "submitBatch X m w batchId auctionId pf publicInputs ms s =
     (let batchKey = domainId X ''batch'' batchId; auctionKey = domainId X ''auction'' auctionId in
      onlyOperator m s (
      whenNotPaused s (
      require (\<not> settledBatch s batchKey) ''batch already settled'' (
      require (\<not> settledAuction s auctionKey) ''auction already settled'' (
      require (0 < length ms \<and> length ms \<le> MAX_BATCH_SIZE) ''invalid batch size'' (
      require (length pf = 256) ''invalid proof length'' (
      require (publicInputs ! 0 = length ms) ''match count mismatch'' (
      require (publicInputs ! 3 = minSize s) ''minSize mismatch'' (
      require (publicInputs ! 4 = minPrice s) ''minPrice mismatch'' (
      require (publicInputs ! 5 = positionLimit s) ''positionLimit mismatch'' (
      bindE (ok_or ''verifier reverted'' (x_verify_proof X (verifier s) (decodeProof pf) publicInputs w)) (\<lambda>valid.
      require valid ''invalid proof'' (
      settle_all X w ms (s\<lparr>settledBatch := (settledBatch s)(batchKey := True),
                           settledAuction := (settledAuction s)(auctionKey := True)\<rparr>))))))))))))))"

definition submitSession ::
  "'w chain \<Rightarrow> msg \<Rightarrow> 'w \<Rightarrow> bytes32 \<Rightarrow> bytes \<Rightarrow> u256 list \<Rightarrow> u256 list \<Rightarrow> nat \<Rightarrow> bytes32 \<Rightarrow> pool \<Rightarrow> pool evm" where
  "submitSession X m w sessionId pf z0 zN nSteps policyHash s =
     (let sessionKey = domainId X ''session'' sessionId in
      onlyOperator m s (
      whenNotPaused s (
      whenIvcEnabled s (
      require (\<not> sessionSubmitted s sessionKey) ''session already submitted'' (
      require (ivcVerifier s \<noteq> 0) ''ivc verifier not set'' (
      bindE (ok_or ''verifier reverted'' (x_verify_ivc X (ivcVerifier s) pf z0 zN nSteps w)) (\<lambda>valid.
      require valid ''invalid ivc proof'' (
      require (z0 ! 3 = settlementDomain s) ''z0 settlement domain'' (
      require (policyHash = zN ! 2) ''policy hash mismatch'' (
      Inr (s\<lparr>sessionSubmitted := (sessionSubmitted s)(sessionKey := True),
             sessionSettlementAcc := (sessionSettlementAcc s)(sessionKey := zN ! 3)\<rparr>)))))))))))"

fun settlementChain_from :: "u256 \<Rightarrow> sol_match list \<Rightarrow> u256 evm" where
  "settlementChain_from acc [] = Inr acc"
| "settlementChain_from acc (m # ms) =
     require (sol_price m mod WEI_TO_CIRCUIT_SCALE = 0 \<and> sol_size m mod WEI_TO_CIRCUIT_SCALE = 0) ''match precision'' (
     settlementChain_from
       (poseidon5_with (fst loadConstants) (snd loadConstants) acc (unat (bidTrader m)) (unat (askTrader m))
          (sol_price m div WEI_TO_CIRCUIT_SCALE) (sol_size m div WEI_TO_CIRCUIT_SCALE)) ms)"

definition settlementChain :: "sol_match list \<Rightarrow> pool \<Rightarrow> u256 evm" where
  "settlementChain ms s = settlementChain_from (settlementDomain s) ms"

definition settleAuction ::
  "'w chain \<Rightarrow> msg \<Rightarrow> 'w \<Rightarrow> bytes32 \<Rightarrow> bytes32 \<Rightarrow> sol_match list \<Rightarrow> pool \<Rightarrow> pool evm" where
  "settleAuction X m w sessionId auctionId ms s =
     (let sessionKey = domainId X ''session'' sessionId; auctionKey = domainId X ''auction'' auctionId in
      onlyOperator m s (
      whenNotPaused s (
      whenIvcEnabled s (
      require (sessionSubmitted s sessionKey) ''session not submitted'' (
      require (\<not> settledAuction s auctionKey) ''auction already settled'' (
      require (\<not> sessionSettled s sessionKey) ''session already settled'' (
      let bound = auctionToSession s auctionKey in
      require (bound = 0 \<or> bound = sessionId) ''auction bound to other session'' (
      require (0 < length ms \<and> length ms \<le> MAX_IVC_SETTLE_MATCHES) ''invalid ivc batch size'' (
      bindE (settlementChain ms s) (\<lambda>acc.
      require (acc = sessionSettlementAcc s sessionKey) ''settlement binding'' (
      settle_all X w ms (s\<lparr>auctionToSession := (auctionToSession s)(auctionKey := sessionId),
                           settledAuction := (settledAuction s)(auctionKey := True),
                           sessionSettled := (sessionSettled s)(sessionKey := True)\<rparr>))))))))))))"

section \<open>The owner's functions\<close>

definition setTokenAllowed :: "msg \<Rightarrow> eaddr \<Rightarrow> bool \<Rightarrow> pool \<Rightarrow> pool evm" where
  "setTokenAllowed m token allowed s =
     onlyOwner m s (require (token \<noteq> 0) ''zero token'' (
     Inr (s\<lparr>allowedTokens := (allowedTokens s)(token := allowed)\<rparr>)))"

definition addOperator :: "msg \<Rightarrow> eaddr \<Rightarrow> pool \<Rightarrow> pool evm" where
  "addOperator m op s =
     onlyOwner m s (require (op \<noteq> 0) ''zero address'' (Inr (s\<lparr>operators := (operators s)(op := True)\<rparr>)))"

definition removeOperator :: "msg \<Rightarrow> eaddr \<Rightarrow> pool \<Rightarrow> pool evm" where
  "removeOperator m op s = onlyOwner m s (Inr (s\<lparr>operators := (operators s)(op := False)\<rparr>))"

definition setPolicy :: "msg \<Rightarrow> u256 \<Rightarrow> u256 \<Rightarrow> u256 \<Rightarrow> pool \<Rightarrow> pool evm" where
  "setPolicy m mn mp pl s = onlyOwner m s (Inr (s\<lparr>minSize := mn, minPrice := mp, positionLimit := pl\<rparr>))"

definition setFeeRecipient :: "msg \<Rightarrow> eaddr \<Rightarrow> pool \<Rightarrow> pool evm" where
  "setFeeRecipient m rec s =
     onlyOwner m s (require (rec \<noteq> 0) ''zero address'' (Inr (s\<lparr>feeRecipient := rec\<rparr>)))"

definition setIvcVerifier :: "'w chain \<Rightarrow> msg \<Rightarrow> eaddr \<Rightarrow> pool \<Rightarrow> pool evm" where
  "setIvcVerifier X m v s =
     onlyOwner m s (require (v \<noteq> 0) ''zero ivc verifier'' (
     require (0 < x_code_length X v) ''ivc verifier has no code'' (Inr (s\<lparr>ivcVerifier := v\<rparr>))))"

definition setIvcEnabled :: "msg \<Rightarrow> bool \<Rightarrow> pool \<Rightarrow> pool evm" where
  "setIvcEnabled m enabled s = onlyOwner m s (Inr (s\<lparr>ivcEnabled := enabled\<rparr>))"

definition setOperatorPubkey :: "msg \<Rightarrow> bytes \<Rightarrow> nat \<Rightarrow> pool \<Rightarrow> pool evm" where
  "setOperatorPubkey m newPubkey effectiveAt s =
     onlyOwner m s (check_pubkey newPubkey (
     Inr (s\<lparr>operatorPubkey := newPubkey, operatorPubkeyEffectiveAt := effectiveAt\<rparr>)))"

definition pause :: "msg \<Rightarrow> pool \<Rightarrow> pool evm" where
  "pause m s = onlyOwner m s (whenNotPaused s (Inr (s\<lparr>pool_paused := True\<rparr>)))"

definition unpause :: "msg \<Rightarrow> pool \<Rightarrow> pool evm" where
  "unpause m s = onlyOwner m s (require (pool_paused s) ''ExpectedPause'' (Inr (s\<lparr>pool_paused := False\<rparr>)))"

section \<open>Transactions\<close>

datatype call =
    Deposit eaddr u256
  | Withdraw eaddr u256
  | Reserve eaddr u256
  | RequestUnreserve eaddr u256
  | ReleaseUnreserve eaddr
  | SubmitBatch bytes32 bytes32 bytes "u256 list" "sol_match list"
  | SubmitSession bytes32 bytes "u256 list" "u256 list" nat bytes32
  | SettleAuction bytes32 bytes32 "sol_match list"
  | SetTokenAllowed eaddr bool
  | AddOperator eaddr
  | RemoveOperator eaddr
  | SetPolicy u256 u256 u256
  | SetFeeRecipient eaddr
  | SetIvcVerifier eaddr
  | SetIvcEnabled bool
  | SetOperatorPubkey bytes nat
  | Pause
  | Unpause

text \<open>The functions that call no other contract, or only to read from it.\<close>

fun exec_pool :: "'w chain \<Rightarrow> msg \<Rightarrow> 'w \<Rightarrow> call \<Rightarrow> pool \<Rightarrow> pool evm" where
  "exec_pool X m w (Reserve t a) s = reserve m t a s"
| "exec_pool X m w (RequestUnreserve t a) s = requestUnreserve m t a s"
| "exec_pool X m w (ReleaseUnreserve t) s = releaseUnreserve m t s"
| "exec_pool X m w (SubmitBatch b a pf pis ms) s = submitBatch X m w b a pf pis ms s"
| "exec_pool X m w (SubmitSession i pf z0 zN n ph) s = submitSession X m w i pf z0 zN n ph s"
| "exec_pool X m w (SettleAuction i a ms) s = settleAuction X m w i a ms s"
| "exec_pool X m w (SetTokenAllowed t b) s = setTokenAllowed m t b s"
| "exec_pool X m w (AddOperator a) s = addOperator m a s"
| "exec_pool X m w (RemoveOperator a) s = removeOperator m a s"
| "exec_pool X m w (SetPolicy a b c) s = setPolicy m a b c s"
| "exec_pool X m w (SetFeeRecipient a) s = setFeeRecipient m a s"
| "exec_pool X m w (SetIvcVerifier a) s = setIvcVerifier X m a s"
| "exec_pool X m w (SetIvcEnabled b) s = setIvcEnabled m b s"
| "exec_pool X m w (SetOperatorPubkey pk n) s = setOperatorPubkey m pk n s"
| "exec_pool X m w Pause s = pause m s"
| "exec_pool X m w Unpause s = unpause m s"
| "exec_pool X m w c s = Inr s"

definition exec :: "'w chain \<Rightarrow> msg \<Rightarrow> call \<Rightarrow> pool \<times> 'w \<Rightarrow> (pool \<times> 'w) evm" where
  "exec X m c sw =
     (case c of
        Deposit t a \<Rightarrow> deposit X m t a sw
      | Withdraw t a \<Rightarrow> withdraw X m t a sw
      | _ \<Rightarrow> bindE (exec_pool X m (snd sw) c (fst sw)) (\<lambda>s. Inr (s, snd sw)))"

definition tx :: "'w chain \<Rightarrow> msg \<Rightarrow> call \<Rightarrow> pool \<times> 'w \<Rightarrow> pool \<times> 'w" where
  "tx X m c sw = (case exec X m c sw of Inl _ \<Rightarrow> sw | Inr sw' \<Rightarrow> sw')"

end
