(* ===== verification/DarkPoolInv.thy ===== *)
theory DarkPoolInv
  imports DarkPool
begin

text \<open>
  Invariants of the settlement contract: what it owes its users is conserved by settlement and covered
  by the tokens it holds, a pending release never exceeds the escrow it is taken from, the escrow can
  only shrink by settlement during the cool-down, and the replay guards are never cleared.
\<close>

section \<open>Ledgers\<close>

text \<open>The sum of a ledger over all addresses, and what the contract owes in one token.\<close>

definition ledger :: "(eaddr \<Rightarrow> eaddr \<Rightarrow> u256) \<Rightarrow> eaddr \<Rightarrow> nat" where
  "ledger f t = (\<Sum>u\<in>UNIV. f u t)"

definition owed :: "pool \<Rightarrow> eaddr \<Rightarrow> nat" where
  "owed s t = ledger (balances s) t + ledger (reserved s) t"

lemma upd2_apply: "upd2 u t v f u' t' = (if u' = u \<and> t' = t then v else f u' t')"
  by (simp add: upd2_def)

lemma ledger_upd2:
  "ledger (upd2 u t v f) t' + (if t' = t then f u t else 0) = ledger f t' + (if t' = t then v else 0)"
proof (cases "t' = t")
  case True
  have "(\<Sum>x\<in>UNIV. upd2 u t v f x t) = v + (\<Sum>x\<in>UNIV - {u}. f x t)"
    by (subst sum.remove [of UNIV u]) (auto simp: upd2_apply intro!: sum.cong)
  moreover have "(\<Sum>x\<in>UNIV. f x t) = f u t + (\<Sum>x\<in>UNIV - {u}. f x t)" by (subst sum.remove [of UNIV u]) auto
  ultimately show ?thesis using True by (simp add: ledger_def)
qed (simp add: ledger_def upd2_apply)

lemma ledger_member: "f u t \<le> ledger f t"
  unfolding ledger_def by (rule member_le_sum) auto

lemma ledger_add: "ledger (upd2 u t (f u t + a) f) t' = ledger f t' + (if t' = t then a else 0)"
  using ledger_upd2 [of u t "f u t + a" f t'] by (simp split: if_splits)

lemma ledger_sub: "a \<le> f u t \<Longrightarrow> ledger (upd2 u t (f u t - a) f) t' + (if t' = t then a else 0) = ledger f t'"
  using ledger_upd2 [of u t "f u t - a" f t'] by (simp split: if_splits)

section \<open>Settlement\<close>

definition escrow_ok :: "pool \<Rightarrow> bool" where
  "escrow_ok s \<longleftrightarrow> (\<forall>u t. pendingUnreserve s u t \<le> reserved s u t)"

text \<open>The state without its four ledgers: what settlement does not touch.\<close>

definition core :: "pool \<Rightarrow> pool" where
  "core s = s\<lparr>balances := (\<lambda>_ _. 0), reserved := (\<lambda>_ _. 0), pendingUnreserve := (\<lambda>_ _. 0), unreserveReadyAt := (\<lambda>_ _. 0)\<rparr>"

lemma core_ledgers [simp]:
  "core (s\<lparr>balances := b\<rparr>) = core s" "core (s\<lparr>reserved := r\<rparr>) = core s"
  "core (s\<lparr>pendingUnreserve := p\<rparr>) = core s" "core (s\<lparr>unreserveReadyAt := q\<rparr>) = core s"
  by (simp_all add: core_def)

lemma core_fields:
  assumes "core s' = core s"
  shows "settledAuction s' = settledAuction s" and "settledBatch s' = settledBatch s" and "sessionSettled s' = sessionSettled s"
    and "sessionSubmitted s' = sessionSubmitted s" and "sessionSettlementAcc s' = sessionSettlementAcc s"
    and "settlementDomain s' = settlementDomain s" and "feeRecipient s' = feeRecipient s"
  using arg_cong [OF assms, of settledAuction] arg_cong [OF assms, of settledBatch] arg_cong [OF assms, of sessionSettled]
    arg_cong [OF assms, of sessionSubmitted] arg_cong [OF assms, of sessionSettlementAcc] arg_cong [OF assms, of settlementDomain]
    arg_cong [OF assms, of feeRecipient] by (simp_all add: core_def)

text \<open>
  What of an escrow cannot be released before the time \<open>T\<close>: all of it, less a pending release that is
  ready earlier.
\<close>

definition locked :: "u256 \<Rightarrow> eaddr \<Rightarrow> eaddr \<Rightarrow> pool \<Rightarrow> nat" where
  "locked T u t s = reserved s u t - (if unreserveReadyAt s u t < T then pendingUnreserve s u t else 0)"

text \<open>What a settlement may do to the pool.\<close>

definition settles :: "pool \<Rightarrow> pool \<Rightarrow> bool" where
  "settles s s' \<longleftrightarrow> core s' = core s \<and>
     (\<forall>u t. balances s u t \<le> balances s' u t \<and> reserved s' u t \<le> reserved s u t) \<and>
     (escrow_ok s \<longrightarrow> escrow_ok s' \<and>
       (\<forall>T u t. locked T u t s \<le> locked T u t s' + (reserved s u t - reserved s' u t)))"

lemma settles_refl: "settles s s"
  by (simp add: settles_def)

lemma settles_trans:
  assumes "settles a b" and "settles b c"
  shows "settles a c"
proof -
  have m: "balances a u t \<le> balances c u t" "reserved c u t \<le> reserved a u t" "reserved c u t \<le> reserved b u t" "reserved b u t \<le> reserved a u t" for u t
    using assms unfolding settles_def by (meson order_trans)+
  have "locked T u t a \<le> locked T u t c + (reserved a u t - reserved c u t)" if "escrow_ok a" for T u t
  proof -
    have "locked T u t a \<le> locked T u t b + (reserved a u t - reserved b u t)" "locked T u t b \<le> locked T u t c + (reserved b u t - reserved c u t)"
      using assms that unfolding settles_def by blast+
    then show ?thesis using m(3,4) [of u t] by linarith
  qed
  then show ?thesis using assms m unfolding settles_def by simp
qed

lemma credit_settles: "credit u t a s = Inr s' \<Longrightarrow> settles s s'"
  by (auto simp: credit_def evm_ok settles_def escrow_ok_def locked_def upd2_apply)

lemma credit_owed: "credit u t a s = Inr s' \<Longrightarrow> owed s' t' = owed s t' + (if t' = t then a else 0)"
  by (auto simp: credit_def evm_ok owed_def ledger_add)

lemma consume_cases:
  assumes "consumeReserved u t a s = Inr s'"
  shows "core s' = core s" and "balances s' = balances s" and "a \<le> reserved s u t"
    and "reserved s' = upd2 u t (reserved s u t - a) (reserved s)"
    and "pendingUnreserve s u t \<le> reserved s u t \<Longrightarrow>
      pendingUnreserve s' u' t' = (if u' = u \<and> t' = t then min (pendingUnreserve s u t) (reserved s u t - a) else pendingUnreserve s u' t')"
    and "\<not> (u' = u \<and> t' = t) \<Longrightarrow> unreserveReadyAt s' u' t' = unreserveReadyAt s u' t'"
    and "unreserveReadyAt s' u t = unreserveReadyAt s u t \<or> pendingUnreserve s' u t = 0"
  using assms by (auto simp: consumeReserved_def evm_ok Let_def upd2_apply min_def split: if_splits)

lemma consume_owed: "consumeReserved u t a s = Inr s' \<Longrightarrow> owed s' t' + (if t' = t then a else 0) = owed s t'"
  using consume_cases(2,3,4) [of u t a s s'] ledger_sub [of a "reserved s" u t t'] by (simp add: owed_def)

lemma consume_settles:
  assumes "consumeReserved u t a s = Inr s'"
  shows "settles s s'"
proof -
  note c = consume_cases [OF assms]
  have r: "reserved s' u' t' = (if u' = u \<and> t' = t then reserved s u t - a else reserved s u' t')" for u' t'
    by (simp add: c(4) upd2_apply)
  have e: "escrow_ok s' \<and> (\<forall>T u t. locked T u t s \<le> locked T u t s' + (reserved s u t - reserved s' u t))" if "escrow_ok s"
  proof -
    have p: "pendingUnreserve s' u' t' = (if u' = u \<and> t' = t then min (pendingUnreserve s u t) (reserved s u t - a) else pendingUnreserve s u' t')" for u' t'
      using that by (intro c(5)) (simp add: escrow_ok_def)
    have "locked T u t s \<le> locked T u t s' + (reserved s u t - reserved s' u t)" for T
      using c(3,7) p [of u t] r [of u t] by (auto simp: locked_def min_def)
    moreover have "locked T u' t' s = locked T u' t' s'" if "\<not> (u' = u \<and> t' = t)" for T u' t'
    proof -
      have "pendingUnreserve s' u' t' = pendingUnreserve s u' t'" "reserved s' u' t' = reserved s u' t'" using that p r by auto
      then show ?thesis using c(6) [OF that] by (simp add: locked_def)
    qed
    ultimately have "locked T u' t' s \<le> locked T u' t' s' + (reserved s u' t' - reserved s' u' t')" for T u' t'
      by (cases "u' = u \<and> t' = t") auto
    moreover have "escrow_ok s'" using that p r unfolding escrow_ok_def by (simp add: min_def)
    ultimately show ?thesis by blast
  qed
  then show ?thesis unfolding settles_def using c(1,2) r by simp
qed

lemma settleMatch_parts:
  assumes "settleMatch X w m s = Inr s'"
  obtains ba no fe s1 s2 s3 s4 where "match_amounts X w m = Inr (ba, no, fe)" and "fe \<le> no"
    and "consumeReserved (bidTrader m) (quoteToken m) no s = Inr s1" and "credit (bidTrader m) (baseToken m) ba s1 = Inr s2"
    and "consumeReserved (askTrader m) (baseToken m) ba s2 = Inr s3" and "credit (askTrader m) (quoteToken m) (no - fe) s3 = Inr s4"
    and "credit (feeRecipient s4) (quoteToken m) fe s4 = Inr s'"
  using assms by (auto simp: settleMatch_def evm_ok split: prod.splits)

lemma settleMatch_settles:
  assumes "settleMatch X w m s = Inr s'"
  shows "settles s s'" and "owed s' t = owed s t"
proof -
  obtain ba no fe s1 s2 s3 s4 where p: "match_amounts X w m = Inr (ba, no, fe)" "fe \<le> no"
    "consumeReserved (bidTrader m) (quoteToken m) no s = Inr s1" "credit (bidTrader m) (baseToken m) ba s1 = Inr s2"
    "consumeReserved (askTrader m) (baseToken m) ba s2 = Inr s3" "credit (askTrader m) (quoteToken m) (no - fe) s3 = Inr s4"
    "credit (feeRecipient s4) (quoteToken m) fe s4 = Inr s'"
    using assms by (rule settleMatch_parts)
  show "settles s s'"
    using consume_settles [OF p(3)] credit_settles [OF p(4)] consume_settles [OF p(5)] credit_settles [OF p(6)] credit_settles [OF p(7)]
    by (blast intro: settles_trans)
  show "owed s' t = owed s t"
    using consume_owed [OF p(3), of t] credit_owed [OF p(4), of t] consume_owed [OF p(5), of t] credit_owed [OF p(6), of t]
      credit_owed [OF p(7), of t] p(2) by (simp split: if_splits)
qed

lemma settle_all_settles:
  assumes "settle_all X w ms s = Inr s'"
  shows "settles s s'" and "owed s' t = owed s t"
proof -
  have "settles s s' \<and> owed s' t = owed s t" using assms
  proof (induction ms arbitrary: s)
    case (Cons m ms)
    then obtain s1 where "settleMatch X w m s = Inr s1" "settle_all X w ms s1 = Inr s'" by (auto simp: evm_ok)
    with Cons.IH settleMatch_settles [of X w m s s1] show ?case by (metis settles_trans)
  qed (simp add: settles_refl)
  then show "settles s s'" "owed s' t = owed s t" by simp_all
qed

section \<open>Every call\<close>

text \<open>The calls that settle, and the change of the replay guards they make first.\<close>

fun settling :: "call \<Rightarrow> bool" where
  "settling (SubmitBatch _ _ _ _ _) = True"
| "settling (SettleAuction _ _ _) = True"
| "settling c = False"

lemmas guard_defs = onlyOwner_def onlyOperator_def whenNotPaused_def whenIvcEnabled_def check_pubkey_def

lemma settling_call:
  assumes "settling c" and "exec_pool X m w c s = Inr s'"
  obtains s1 ms where "settle_all X w ms s1 = Inr s'" and "balances s1 = balances s" and "reserved s1 = reserved s"
    and "pendingUnreserve s1 = pendingUnreserve s" and "unreserveReadyAt s1 = unreserveReadyAt s"
  using assms by (cases c) (auto simp: submitBatch_def settleAuction_def guard_defs evm_ok Let_def intro: that)

text \<open>The three calls that move funds between a trader's free balance and the escrow.\<close>

lemma reserve_effect:
  assumes "reserve m t a s = Inr s'"
  shows "owed s' t' = owed s t'" and "escrow_ok s \<Longrightarrow> escrow_ok s'" and "locked T u t' s \<le> locked T u t' s'" and "core s' = core s"
proof -
  let ?u = "msg_sender m"
  from assms have c: "a \<le> balances s ?u t"
    "s' = s\<lparr>balances := upd2 ?u t (balances s ?u t - a) (balances s), reserved := upd2 ?u t (reserved s ?u t + a) (reserved s)\<rparr>"
    by (auto simp: reserve_def guard_defs evm_ok Let_def)
  show "owed s' t' = owed s t'"
    using ledger_sub [of a "balances s" ?u t t'] ledger_add [of ?u t "reserved s" a t'] c(1) by (simp add: c(2) owed_def split: if_splits)
  show "escrow_ok s \<Longrightarrow> escrow_ok s'" by (simp add: c(2) escrow_ok_def upd2_apply trans_le_add1)
  show "locked T u t' s \<le> locked T u t' s'" by (auto simp: c(2) locked_def upd2_apply)
  show "core s' = core s" by (simp add: c(2))
qed

lemma request_effect:
  assumes "requestUnreserve m t a s = Inr s'"
  shows "owed s' t' = owed s t'" and "escrow_ok s \<Longrightarrow> escrow_ok s'"
    and "T \<le> block_timestamp m + UNRESERVE_DELAY \<Longrightarrow> locked T u t' s \<le> locked T u t' s'" and "core s' = core s"
proof -
  let ?u = "msg_sender m"
  from assms have c: "pendingUnreserve s ?u t + a \<le> reserved s ?u t"
    "s' = s\<lparr>pendingUnreserve := upd2 ?u t (pendingUnreserve s ?u t + a) (pendingUnreserve s),
            unreserveReadyAt := upd2 ?u t (block_timestamp m + UNRESERVE_DELAY) (unreserveReadyAt s)\<rparr>"
    by (auto simp: requestUnreserve_def guard_defs evm_ok Let_def split: if_splits)
  show "owed s' t' = owed s t'" by (simp add: c(2) owed_def)
  show "escrow_ok s \<Longrightarrow> escrow_ok s'" using c(1) by (simp add: c(2) escrow_ok_def upd2_apply)
  show "T \<le> block_timestamp m + UNRESERVE_DELAY \<Longrightarrow> locked T u t' s \<le> locked T u t' s'" by (simp add: c(2) locked_def upd2_apply)
  show "core s' = core s" by (simp add: c(2))
qed

lemma release_effect:
  assumes "releaseUnreserve m t s = Inr s'"
  shows "owed s' t' = owed s t'" and "escrow_ok s \<Longrightarrow> escrow_ok s'"
    and "escrow_ok s \<Longrightarrow> block_timestamp m < T \<Longrightarrow> locked T u t' s \<le> locked T u t' s'" and "core s' = core s"
proof -
  let ?u = "msg_sender m" let ?p = "pendingUnreserve s ?u t" let ?a = "min ?p (reserved s ?u t)"
  from assms have c: "unreserveReadyAt s ?u t \<le> block_timestamp m"
    "s' = s\<lparr>reserved := upd2 ?u t (reserved s ?u t - ?a) (reserved s), balances := upd2 ?u t (balances s ?u t + ?a) (balances s),
            pendingUnreserve := upd2 ?u t 0 (pendingUnreserve s), unreserveReadyAt := upd2 ?u t 0 (unreserveReadyAt s)\<rparr>"
    by (auto simp: releaseUnreserve_def guard_defs evm_ok Let_def min_def split: if_splits)
  show "owed s' t' = owed s t'"
    using ledger_sub [of ?a "reserved s" ?u t t'] ledger_add [of ?u t "balances s" ?a t'] by (simp add: c(2) owed_def split: if_splits)
  show "escrow_ok s \<Longrightarrow> escrow_ok s'" by (simp add: c(2) escrow_ok_def upd2_apply)
  show "locked T u t' s \<le> locked T u t' s'" if "escrow_ok s" "block_timestamp m < T"
    using that c(1) by (auto simp: c(2) locked_def upd2_apply escrow_ok_def min_def)
  show "core s' = core s" by (simp add: c(2))
qed

text \<open>The owner's calls and the submission of a session leave the ledgers alone.\<close>

definition same_ledgers :: "pool \<Rightarrow> pool \<Rightarrow> bool" where
  "same_ledgers s s' \<longleftrightarrow> balances s' = balances s \<and> reserved s' = reserved s \<and> pendingUnreserve s' = pendingUnreserve s \<and>
     unreserveReadyAt s' = unreserveReadyAt s"

lemma same_ledgers_facts:
  assumes "same_ledgers s s'"
  shows "owed s' t = owed s t" and "escrow_ok s' = escrow_ok s" and "locked T u t s' = locked T u t s"
  using assms by (simp_all add: same_ledgers_def owed_def escrow_ok_def locked_def)

fun moves_funds :: "call \<Rightarrow> bool" where
  "moves_funds (Reserve _ _) = True"
| "moves_funds (RequestUnreserve _ _) = True"
| "moves_funds (ReleaseUnreserve _) = True"
| "moves_funds c = settling c"

lemma settling_moves: "settling c \<Longrightarrow> moves_funds c"
  by (cases c) simp_all

lemma other_calls: "\<not> moves_funds c \<Longrightarrow> exec_pool X m w c s = Inr s' \<Longrightarrow> same_ledgers s s'"
  by (cases c)
    (auto simp: same_ledgers_def guard_defs evm_ok Let_def submitSession_def setTokenAllowed_def addOperator_def removeOperator_def
      setPolicy_def setFeeRecipient_def setIvcVerifier_def setIvcEnabled_def setOperatorPubkey_def pause_def unpause_def)

lemma pool_call:
  assumes "exec_pool X m w c s = Inr s'"
  shows "owed s' t = owed s t" and "escrow_ok s \<Longrightarrow> escrow_ok s'"
    and "escrow_ok s \<Longrightarrow> \<not> settling c \<Longrightarrow> block_timestamp m < T \<Longrightarrow> T \<le> block_timestamp m + UNRESERVE_DELAY \<Longrightarrow>
      locked T u t s \<le> locked T u t s'"
    and "escrow_ok s \<Longrightarrow> settling c \<Longrightarrow> locked T u t s \<le> locked T u t s' + (reserved s u t - reserved s' u t)"
proof -
  consider (settle) "settling c" | (other) "\<not> moves_funds c" | (own) "\<not> settling c" "moves_funds c" by blast
  then have "owed s' t = owed s t \<and> (escrow_ok s \<longrightarrow> escrow_ok s' \<and>
      (\<not> settling c \<and> block_timestamp m < T \<and> T \<le> block_timestamp m + UNRESERVE_DELAY \<longrightarrow> locked T u t s \<le> locked T u t s') \<and>
      (settling c \<longrightarrow> locked T u t s \<le> locked T u t s' + (reserved s u t - reserved s' u t)))"
  proof cases
    case settle
    then obtain s1 ms where s1: "settle_all X w ms s1 = Inr s'" "balances s1 = balances s" "reserved s1 = reserved s"
      "pendingUnreserve s1 = pendingUnreserve s" "unreserveReadyAt s1 = unreserveReadyAt s" using assms by (rule settling_call)
    then have l: "same_ledgers s s1" by (simp add: same_ledgers_def)
    note f = settle_all_settles [OF s1(1), unfolded settles_def same_ledgers_facts [OF l] s1(3)]
    then show ?thesis using settle by blast
  next
    case other
    then show ?thesis using same_ledgers_facts [OF other_calls [OF other assms]] settling_moves by auto
  next
    case own
    then consider t0 a where "c = Reserve t0 a" | t0 a where "c = RequestUnreserve t0 a" | t0 where "c = ReleaseUnreserve t0" by (cases c) auto
    then show ?thesis
    proof cases
      case 1
      then show ?thesis using assms reserve_effect [of m t0 a s s'] by simp
    next
      case 2
      then show ?thesis using assms request_effect [of m t0 a s s'] by simp
    next
      case 3
      then show ?thesis using assms release_effect [of m t0 s s'] by simp
    qed
  qed
  then show "owed s' t = owed s t" "escrow_ok s \<Longrightarrow> escrow_ok s'"
    "escrow_ok s \<Longrightarrow> \<not> settling c \<Longrightarrow> block_timestamp m < T \<Longrightarrow> T \<le> block_timestamp m + UNRESERVE_DELAY \<Longrightarrow>
      locked T u t s \<le> locked T u t s'"
    "escrow_ok s \<Longrightarrow> settling c \<Longrightarrow> locked T u t s \<le> locked T u t s' + (reserved s u t - reserved s' u t)" by blast+
qed

lemma deposit_effect:
  assumes "deposit X m t a (s, w) = Inr (s', w')"
  obtains r where "x_transfer_from X t (msg_sender m) (x_this X) a w = Some w'"
    and "x_balance_of X t (x_this X) w' = x_balance_of X t (x_this X) w + r"
    and "s' = s\<lparr>balances := upd2 (msg_sender m) t (balances s (msg_sender m) t + r) (balances s)\<rparr>"
proof -
  let ?b = "x_balance_of X t (x_this X)"
  from assms have "x_transfer_from X t (msg_sender m) (x_this X) a w = Some w'" "?b w \<le> ?b w'"
    "s' = s\<lparr>balances := upd2 (msg_sender m) t (balances s (msg_sender m) t + (?b w' - ?b w)) (balances s)\<rparr>"
    by (auto simp: deposit_def guard_defs evm_ok Let_def)
  then show ?thesis by (intro that [of "?b w' - ?b w"]) simp_all
qed

lemma withdraw_effect:
  assumes "withdraw X m t a (s, w) = Inr (s', w')"
  shows "x_transfer X t (msg_sender m) a w = Some w'" and "a \<le> balances s (msg_sender m) t"
    and "s' = s\<lparr>balances := upd2 (msg_sender m) t (balances s (msg_sender m) t - a) (balances s)\<rparr>"
  using assms by (auto simp: withdraw_def guard_defs evm_ok Let_def)

lemma exec_cases:
  assumes "exec X m c (s, w) = Inr (s', w')"
  obtains (deposit) t a where "c = Deposit t a" and "deposit X m t a (s, w) = Inr (s', w')"
    | (withdraw) t a where "c = Withdraw t a" and "withdraw X m t a (s, w) = Inr (s', w')"
    | (pool) "exec_pool X m w c s = Inr s'" and "w' = w"
proof -
  consider t a where "c = Deposit t a" | t a where "c = Withdraw t a"
    | "exec X m c (s, w) = bindE (exec_pool X m w c s) (\<lambda>s. Inr (s, w))"
    by (cases c) (simp_all add: exec_def)
  then show thesis
  proof cases
    case 1
    then show ?thesis using assms deposit by (simp add: exec_def)
  next
    case 2
    then show ?thesis using assms withdraw by (simp add: exec_def)
  next
    case 3
    with assms have "bindE (exec_pool X m w c s) (\<lambda>s. Inr (s, w)) = Inr (s', w')" by simp
    then have "exec_pool X m w c s = Inr s'" "w' = w" by (cases "exec_pool X m w c s"; simp)+
    then show ?thesis by (rule pool)
  qed
qed

lemma balances_only:
  assumes "s' = s\<lparr>balances := b\<rparr>"
  shows "escrow_ok s' = escrow_ok s" and "locked T u t s' = locked T u t s" and "reserved s' = reserved s" and "core s' = core s"
  using assms by (simp_all add: escrow_ok_def locked_def)

section \<open>Solvency\<close>

text \<open>
  The tokens: a transfer out of the contract takes at most the amount from what it holds, a transfer
  in one token leaves the contract's holdings of every other token alone, and a transfer to the
  contract never takes from them. For the token that is deposited nothing is assumed: the contract
  measures what it received. A balance is a \<^verbatim>\<open>uint256\<close>.
\<close>

definition erc20_ok :: "'w chain \<Rightarrow> bool" where
  "erc20_ok X \<longleftrightarrow>
     (\<forall>t u a w w'. x_transfer X t u a w = Some w' \<longrightarrow>
        (\<forall>t'. x_balance_of X t' (x_this X) w \<le> x_balance_of X t' (x_this X) w' + (if t' = t then a else 0))) \<and>
     (\<forall>t u a w w'. x_transfer_from X t u (x_this X) a w = Some w' \<longrightarrow>
        (\<forall>t'. t' \<noteq> t \<longrightarrow> x_balance_of X t' (x_this X) w \<le> x_balance_of X t' (x_this X) w')) \<and>
     (\<forall>t u w. x_balance_of X t u w < 2 ^ 256)"

definition solvent :: "'w chain \<Rightarrow> pool \<times> 'w \<Rightarrow> bool" where
  "solvent X sw \<longleftrightarrow> (\<forall>t. owed (fst sw) t \<le> x_balance_of X t (x_this X) (snd sw))"

lemma deposit_solvent:
  assumes "erc20_ok X" and "solvent X (s, w)" and "deposit X m t a (s, w) = Inr (s', w')"
  shows "solvent X (s', w')"
proof -
  from assms(3) obtain r where r: "x_transfer_from X t (msg_sender m) (x_this X) a w = Some w'"
    "x_balance_of X t (x_this X) w' = x_balance_of X t (x_this X) w + r"
    "s' = s\<lparr>balances := upd2 (msg_sender m) t (balances s (msg_sender m) t + r) (balances s)\<rparr>" by (rule deposit_effect)
  have "owed s' t' = owed s t' + (if t' = t then r else 0)" for t'
    using ledger_add [of "msg_sender m" t "balances s" r t'] by (simp add: r(3) owed_def)
  moreover have "x_balance_of X t' (x_this X) w + (if t' = t then r else 0) \<le> x_balance_of X t' (x_this X) w'" for t'
    using assms(1) r(1,2) unfolding erc20_ok_def by (cases "t' = t") auto
  ultimately show ?thesis using assms(2) unfolding solvent_def by (metis add_le_mono1 fst_conv order_trans snd_conv)
qed

lemma withdraw_solvent:
  assumes "erc20_ok X" and "solvent X (s, w)" and "withdraw X m t a (s, w) = Inr (s', w')"
  shows "solvent X (s', w')"
proof -
  note r = withdraw_effect [OF assms(3)]
  have "owed s' t' + (if t' = t then a else 0) = owed s t'" for t'
    using ledger_sub [of a "balances s" "msg_sender m" t t'] r(2) by (simp add: r(3) owed_def)
  moreover have "x_balance_of X t' (x_this X) w \<le> x_balance_of X t' (x_this X) w' + (if t' = t then a else 0)" for t'
    using assms(1) r(1) unfolding erc20_ok_def by blast
  ultimately show ?thesis using assms(2) unfolding solvent_def by (metis add_le_imp_le_right fst_conv order_trans snd_conv)
qed

lemma exec_solvent:
  assumes "erc20_ok X" and "solvent X (s, w)" and "exec X m c (s, w) = Inr (s', w')"
  shows "solvent X (s', w')"
  using assms(3)
proof (cases rule: exec_cases)
  case pool
  then show ?thesis using assms(2) pool_call(1) [OF pool(1)] by (simp add: solvent_def)
next
  case (deposit t a)
  show ?thesis by (rule deposit_solvent [OF assms(1,2) deposit(2)])
next
  case (withdraw t a)
  show ?thesis by (rule withdraw_solvent [OF assms(1,2) withdraw(2)])
qed

lemma exec_escrow:
  assumes "escrow_ok s" and "exec X m c (s, w) = Inr (s', w')"
  shows "escrow_ok s'"
  using assms(2)
proof (cases rule: exec_cases)
  case (deposit t a)
  from deposit(2) show ?thesis by (rule deposit_effect) (use assms(1) in \<open>simp add: escrow_ok_def\<close>)
next
  case (withdraw t a)
  then show ?thesis using withdraw_effect(3) [OF withdraw(2)] assms(1) by (simp add: escrow_ok_def)
next
  case pool
  show ?thesis by (rule pool_call(2) [OF pool(1) assms(1)])
qed

section \<open>Replay guards\<close>

definition guards_kept :: "pool \<Rightarrow> pool \<Rightarrow> bool" where
  "guards_kept s s' \<longleftrightarrow> settlementDomain s' = settlementDomain s \<and> (\<forall>k. (settledAuction s k \<longrightarrow> settledAuction s' k) \<and> (settledBatch s k \<longrightarrow> settledBatch s' k) \<and>
     (sessionSettled s k \<longrightarrow> sessionSettled s' k) \<and>
     (sessionSubmitted s k \<longrightarrow> sessionSubmitted s' k \<and> sessionSettlementAcc s' k = sessionSettlementAcc s k))"

lemma guards_trans: "guards_kept a b \<Longrightarrow> guards_kept b c \<Longrightarrow> guards_kept a c"
  by (simp add: guards_kept_def)

lemma core_guards: "core s' = core s \<Longrightarrow> guards_kept s s'"
  using core_fields(1-6) [of s' s] by (simp add: guards_kept_def)

lemma settle_all_guards:
  assumes "settle_all X w ms s = Inr s'"
  shows "settledAuction s' = settledAuction s" and "settledBatch s' = settledBatch s" and "sessionSettled s' = sessionSettled s"
    and "sessionSubmitted s' = sessionSubmitted s" and "sessionSettlementAcc s' = sessionSettlementAcc s"
    and "settlementDomain s' = settlementDomain s"
proof -
  have "core s' = core s" using settle_all_settles(1) [OF assms] by (simp add: settles_def)
  then show "settledAuction s' = settledAuction s" "settledBatch s' = settledBatch s" "sessionSettled s' = sessionSettled s"
    "sessionSubmitted s' = sessionSubmitted s" "sessionSettlementAcc s' = sessionSettlementAcc s"
    "settlementDomain s' = settlementDomain s"
    by (rule core_fields)+
qed

text \<open>The state the two settlement arms run on: the guards are set before the matches are settled.\<close>

definition mark_batch :: "'w chain \<Rightarrow> bytes32 \<Rightarrow> bytes32 \<Rightarrow> pool \<Rightarrow> pool" where
  "mark_batch X b a s = s\<lparr>settledBatch := (settledBatch s)(domainId X ''batch'' b := True),
     settledAuction := (settledAuction s)(domainId X ''auction'' a := True)\<rparr>"

definition mark_session :: "'w chain \<Rightarrow> bytes32 \<Rightarrow> bytes32 \<Rightarrow> pool \<Rightarrow> pool" where
  "mark_session X i a s = s\<lparr>auctionToSession := (auctionToSession s)(domainId X ''auction'' a := i),
     settledAuction := (settledAuction s)(domainId X ''auction'' a := True),
     sessionSettled := (sessionSettled s)(domainId X ''session'' i := True)\<rparr>"

lemma mark_ledgers: "same_ledgers s (mark_batch X b a s)" "same_ledgers s (mark_session X i a s)"
  by (simp_all add: same_ledgers_def mark_batch_def mark_session_def)

lemma submitBatch_run:
  "submitBatch X m w b a pf pis ms s = Inr s' \<Longrightarrow>
     settle_all X w ms (mark_batch X b a s) = Inr s' \<and> \<not> settledAuction_of X s a \<and> \<not> settledBatch_of X s b"
  by (auto simp: submitBatch_def guard_defs evm_ok Let_def mark_batch_def settledAuction_of_def settledBatch_of_def)

lemma settleAuction_run:
  "settleAuction X m w i a ms s = Inr s' \<Longrightarrow>
     settle_all X w ms (mark_session X i a s) = Inr s' \<and> \<not> settledAuction_of X s a \<and> \<not> sessionSettled_of X s i \<and>
     sessionSubmitted_of X s i \<and> settlementChain ms s = Inr (sessionSettlementAcc_of X s i)"
  by (auto simp: settleAuction_def guard_defs evm_ok Let_def mark_session_def settledAuction_of_def sessionSettled_of_def
      sessionSubmitted_of_def sessionSettlementAcc_of_def)

lemma settling_guards:
  assumes "settling c" and "exec_pool X m w c s = Inr s'"
  shows "guards_kept s s'"
proof -
  show ?thesis
  proof (cases c)
    case (SubmitBatch b a pf pis ms)
    have r: "settle_all X w ms (mark_batch X b a s) = Inr s'" using assms(2) by (intro submitBatch_run [THEN conjunct1, of X m w b a pf pis]) (simp add: SubmitBatch)
    show ?thesis by (simp add: settle_all_guards [OF r] guards_kept_def mark_batch_def)
  next
    case (SettleAuction i a ms)
    have r: "settle_all X w ms (mark_session X i a s) = Inr s'" using assms(2) by (intro settleAuction_run [THEN conjunct1, of X m w i a]) (simp add: SettleAuction)
    show ?thesis by (simp add: settle_all_guards [OF r] guards_kept_def mark_session_def)
  qed (use assms(1) in simp_all)
qed

lemma other_guards:
  assumes "\<not> settling c" and "exec_pool X m w c s = Inr s'"
  shows "guards_kept s s'"
proof (cases c)
  case (Reserve t a)
  then show ?thesis using core_guards [OF reserve_effect(4)] assms(2) by simp
next
  case (RequestUnreserve t a)
  then show ?thesis using core_guards [OF request_effect(4)] assms(2) by simp
next
  case (ReleaseUnreserve t)
  then show ?thesis using core_guards [OF release_effect(4)] assms(2) by simp
qed (use assms in \<open>auto simp: guards_kept_def guard_defs evm_ok Let_def submitSession_def setTokenAllowed_def addOperator_def
    removeOperator_def setPolicy_def setFeeRecipient_def setIvcVerifier_def setIvcEnabled_def setOperatorPubkey_def pause_def unpause_def\<close>)

lemma exec_guards:
  assumes "exec X m c (s, w) = Inr (s', w')"
  shows "guards_kept s s'"
  using assms
proof (cases rule: exec_cases)
  case (deposit t a)
  from deposit(2) show ?thesis by (rule deposit_effect) (simp add: guards_kept_def)
next
  case (withdraw t a)
  show ?thesis using withdraw_effect(3) [OF withdraw(2)] by (simp add: guards_kept_def)
next
  case pool
  show ?thesis by (cases "settling c") (rule settling_guards [OF _ pool(1)] other_guards [OF _ pool(1)]; assumption)+
qed

section \<open>Runs of the contract\<close>

text \<open>
  A deployed contract and everything that can happen to it: a transaction, a change of the owner (the
  library's two-step hand-over), and a change of the world around it in which nobody takes tokens from
  the contract.
\<close>

inductive reach :: "'w chain \<Rightarrow> pool \<times> 'w \<Rightarrow> bool" for X :: "'w chain" where
  deploy: "constructor X m vf rec pk = Inr s \<Longrightarrow> reach X (s, w)"
| call: "reach X sw \<Longrightarrow> reach X (tx X m c sw)"
| handover: "reach X (s, w) \<Longrightarrow> reach X (s\<lparr>pool_owner := a\<rparr>, w)"
| world: "reach X (s, w) \<Longrightarrow> \<forall>t. x_balance_of X t (x_this X) w \<le> x_balance_of X t (x_this X) w' \<Longrightarrow> reach X (s, w')"

lemma tx_cases: "tx X m c (s, w) = (s, w) \<or> (\<exists>s' w'. exec X m c (s, w) = Inr (s', w') \<and> tx X m c (s, w) = (s', w'))"
  by (cases "exec X m c (s, w)") (simp_all add: tx_def)

lemma tx_induct:
  assumes "P (s, w)" and "\<And>s' w'. exec X m c (s, w) = Inr (s', w') \<Longrightarrow> P (s', w')"
  shows "P (tx X m c (s, w))"
  using tx_cases [of X m c s w] assms by metis

lemma deploy_facts:
  assumes "constructor X m vf rec pk = Inr s"
  shows "owed s t = 0" and "escrow_ok s"
  using assms by (auto simp: constructor_def check_pubkey_def evm_ok owed_def ledger_def escrow_ok_def)

lemma reach_inv:
  assumes "reach X sw" and "erc20_ok X"
  shows "solvent X sw \<and> escrow_ok (fst sw)"
  using assms(1)
proof induction
  case (deploy m vf rec pk s w)
  then show ?case using deploy_facts [OF deploy] by (simp add: solvent_def)
next
  case (call sw m c)
  obtain s w where sw: "sw = (s, w)" by (cases sw)
  show ?case unfolding sw
  proof (rule tx_induct)
    show "solvent X (s, w) \<and> escrow_ok (fst (s, w))" using call.IH by (simp add: sw)
    fix s' w' assume e: "exec X m c (s, w) = Inr (s', w')"
    have "solvent X (s', w')" using exec_solvent [OF assms(2) _ e] call.IH by (simp add: sw)
    moreover have "escrow_ok s'" using exec_escrow [OF _ e] call.IH by (simp add: sw)
    ultimately show "solvent X (s', w') \<and> escrow_ok (fst (s', w'))" by simp
  qed
next
  case (handover s w a)
  then show ?case by (simp add: solvent_def owed_def escrow_ok_def)
next
  case (world s w w')
  then show ?case unfolding solvent_def by (auto intro: order_trans)
qed

text \<open>A sequence of transactions, and what the settlements in it take out of one escrow.\<close>

fun run_txs :: "'w chain \<Rightarrow> (msg \<times> call) list \<Rightarrow> pool \<times> 'w \<Rightarrow> pool \<times> 'w" where
  "run_txs X [] sw = sw"
| "run_txs X ((m, c) # cs) sw = run_txs X cs (tx X m c sw)"

definition taken :: "call \<Rightarrow> eaddr \<Rightarrow> eaddr \<Rightarrow> pool \<Rightarrow> pool \<Rightarrow> nat" where
  "taken c u t s s' = (if settling c then reserved s u t - reserved s' u t else 0)"

fun settled_out :: "'w chain \<Rightarrow> (msg \<times> call) list \<Rightarrow> eaddr \<Rightarrow> eaddr \<Rightarrow> pool \<times> 'w \<Rightarrow> nat" where
  "settled_out X [] u t sw = 0"
| "settled_out X ((m, c) # cs) u t sw =
     taken c u t (fst sw) (fst (tx X m c sw)) + settled_out X cs u t (tx X m c sw)"

lemma tx_locked:
  assumes "escrow_ok s" and "block_timestamp m < T" and "T \<le> block_timestamp m + UNRESERVE_DELAY"
  shows "locked T u t s \<le> locked T u t (fst (tx X m c (s, w))) + taken c u t s (fst (tx X m c (s, w))) \<and> escrow_ok (fst (tx X m c (s, w)))"
proof (rule tx_induct)
  fix s' w' assume e: "exec X m c (s, w) = Inr (s', w')"
  have "locked T u t s \<le> locked T u t s' + taken c u t s s'" using e
  proof (cases rule: exec_cases)
    case (deposit t0 a)
    from deposit(2) show ?thesis by (rule deposit_effect) (simp add: locked_def)
  next
    case (withdraw t0 a)
    show ?thesis by (simp add: withdraw_effect(3) [OF withdraw(2)] locked_def)
  next
    case pool
    show ?thesis
    proof (cases "settling c")
      case True
      then show ?thesis using pool_call(4) [OF pool(1) assms(1) True] by (simp add: taken_def)
    next
      case False
      then show ?thesis using pool_call(3) [OF pool(1) assms(1) False assms(2,3)] by (simp add: taken_def)
    qed
  qed
  then show "locked T u t s \<le> locked T u t (fst (s', w')) + taken c u t s (fst (s', w')) \<and> escrow_ok (fst (s', w'))" using exec_escrow [OF assms(1) e] by simp
qed (use assms(1) in simp)

lemma run_locked:
  assumes "\<forall>(m, c)\<in>set cs. block_timestamp m < T \<and> T \<le> block_timestamp m + UNRESERVE_DELAY" and "escrow_ok (fst sw)"
  shows "locked T u t (fst sw) \<le> locked T u t (fst (run_txs X cs sw)) + settled_out X cs u t sw"
  using assms
proof (induction X cs sw rule: run_txs.induct)
  case (2 X m c cs sw)
  obtain s w where sw: "sw = (s, w)" by (cases sw)
  have t: "locked T u t s \<le> locked T u t (fst (tx X m c sw)) + taken c u t s (fst (tx X m c sw))"
    "escrow_ok (fst (tx X m c sw))"
    using tx_locked [of s m T u t X c w] "2.prems" by (simp_all add: sw)
  have "locked T u t (fst (tx X m c sw)) \<le> locked T u t (fst (run_txs X cs (tx X m c sw))) + settled_out X cs u t (tx X m c sw)"
    using "2.IH" [OF _ t(2)] "2.prems"(1) by simp
  with t(1) show ?case by (simp add: sw)
qed simp

text \<open>Everything that can happen to a deployed contract between two moments.\<close>

inductive later :: "'w chain \<Rightarrow> pool \<times> 'w \<Rightarrow> pool \<times> 'w \<Rightarrow> bool" for X :: "'w chain" where
  refl: "later X sw sw"
| call: "later X sw sw' \<Longrightarrow> later X sw (tx X m c sw')"
| handover: "later X sw (s, w) \<Longrightarrow> later X sw (s\<lparr>pool_owner := a\<rparr>, w)"
| world: "later X sw (s, w) \<Longrightarrow> later X sw (s, w')"

lemma later_trans: "later X b c \<Longrightarrow> later X a b \<Longrightarrow> later X a c"
  by (induction rule: later.induct) (auto intro: later.intros)

lemma later_guards: "later X sw sw' \<Longrightarrow> guards_kept (fst sw) (fst sw')"
proof (induction rule: later.induct)
  case (call sw sw' m c)
  obtain s w where sw: "sw' = (s, w)" by (cases sw')
  have "guards_kept s (fst (tx X m c (s, w)))"
    by (rule tx_induct) (simp_all add: exec_guards, simp add: guards_kept_def)
  then show ?case using call guards_trans by (simp add: sw)
qed (simp_all add: guards_kept_def)

end
