(* ===== verification/Settlement.thy ===== *)
theory Settlement
  imports DarkPoolInv Batch
begin

text \<open>
  The off-chain side of settlement (\<^verbatim>\<open>dp-settlement\<close>): the conversion of the engine's matches into the
  contract's (\<^verbatim>\<open>helpers.rs\<close>), the submitter that sends them (\<^verbatim>\<open>eth_submitter.rs\<close>), the balance oracle
  (\<^verbatim>\<open>balance_oracle.rs\<close>) and the watcher of settlement events (\<^verbatim>\<open>watcher.rs\<close>).

  The RPC node is a third-party service: a record of calls that may fail and may move the world. Its
  documented behaviour \<open>node_ok\<close> relates the world to the state of the contract: every call lets
  transactions happen, and a receipt that reports success means that the transaction ran on the contract.
  \<open>None\<close> is a panic of the decimal arithmetic. A transaction request keeps the call with its arguments in
  place of their ABI encoding.
\<close>

section \<open>Conversions\<close>

definition uuid_to_bytes32 :: "uuid \<Rightarrow> bytes" where
  "uuid_to_bytes32 i = replicate 16 0 @ be_bytes 16 i"

definition bytes32_to_uuid :: "bytes \<Rightarrow> settlement_error + uuid" where
  "bytes32_to_uuid b = (if list_ex (\<lambda>i. b ! i \<noteq> 0) [0..<16] then Inl InvalidBytes32 else Inr (be_nat (drop 16 b)))"

definition decimal_to_wei :: "dec_ops \<Rightarrow> decimal \<Rightarrow> (settlement_error + u256) option" where
  "decimal_to_wei D d =
     (if d < 0 then Some (Inl NegativeAmount)
      else case d_mul D d (10 ^ 18) of
        None \<Rightarrow> None
      | Some scaled \<Rightarrow>
          if scaled \<noteq> of_int \<lfloor>scaled\<rfloor> then Some (Inl PrecisionLoss) else Some (Inr (nat \<lfloor>scaled\<rfloor>)))"

text \<open>Results that may also panic.\<close>

definition bindO :: "('e + 'a) option \<Rightarrow> ('a \<Rightarrow> ('e + 'b) option) \<Rightarrow> ('e + 'b) option" where
  "bindO m f = (case m of None \<Rightarrow> None | Some (Inl e) \<Rightarrow> Some (Inl e) | Some (Inr x) \<Rightarrow> f x)"

lemma bindO_simps [simp]: "bindO None f = None" "bindO (Some (Inl e)) f = Some (Inl e)" "bindO (Some (Inr x)) f = f x"
  by (simp_all add: bindO_def)

definition settlement_match_to_sol :: "dec_ops \<Rightarrow> settlement_match \<Rightarrow> (settlement_error + sol_match) option" where
  "settlement_match_to_sol D m =
     bindO (decimal_to_wei D (sm_price m)) (\<lambda>p.
     bindO (decimal_to_wei D (sm_size m)) (\<lambda>sz.
     if p mod WEI_TO_CIRCUIT_SCALE \<noteq> 0 \<or> sz mod WEI_TO_CIRCUIT_SCALE \<noteq> 0 then Some (Inl SubCircuitPrecision)
     else Some (Inr
       \<lparr>bidOrderId = be_nat (uuid_to_bytes32 (sm_bid_order_id m)), askOrderId = be_nat (uuid_to_bytes32 (sm_ask_order_id m)),
        bidTrader = of_nat (sm_bid_trader m), askTrader = of_nat (sm_ask_trader m),
        baseToken = of_nat (sm_base_token m), quoteToken = of_nat (sm_quote_token m), sol_price = p, sol_size = sz\<rparr>)))"

fun sol_matches :: "dec_ops \<Rightarrow> settlement_match list \<Rightarrow> (settlement_error + sol_match list) option" where
  "sol_matches D [] = Some (Inr [])"
| "sol_matches D (m # ms) =
     bindO (settlement_match_to_sol D m) (\<lambda>x. bindO (sol_matches D ms) (\<lambda>xs. Some (Inr (x # xs))))"

definition MAX_MATCHES_PER_BATCH :: nat where
  "MAX_MATCHES_PER_BATCH = 256"

definition build_sol_matches :: "dec_ops \<Rightarrow> settlement_match list \<Rightarrow> (settlement_error + sol_match list) option" where
  "build_sol_matches D ms =
     (if MAX_MATCHES_PER_BATCH < length ms then Some (Inl (TooManyMatches (length ms))) else sol_matches D ms)"

definition GROTH16_PROOF_LEN :: nat where
  "GROTH16_PROOF_LEN = 256"

definition validate_groth16_proof_len :: "bytes \<Rightarrow> settlement_error + unit" where
  "validate_groth16_proof_len pf =
     (if length pf \<noteq> GROTH16_PROOF_LEN then Inl (InvalidProofLength GROTH16_PROOF_LEN (length pf)) else Inr ())"

section \<open>The node\<close>

record tx_request =
  tr_call :: call
  tr_from :: eaddr
  tr_to :: eaddr
  tr_nonce :: nat
  tr_gas :: nat
  tr_max_fee :: nat
  tr_tip :: nat
  tr_chain_id :: nat

record 'w provider =
  rpc_nonce :: "eaddr \<Rightarrow> 'w \<Rightarrow> 'w \<times> (string + nat)"
  rpc_latest :: "'w \<Rightarrow> 'w \<times> (string + nat option option)"
  rpc_tip :: "'w \<Rightarrow> 'w \<times> (string + nat)"
  rpc_send :: "tx_request \<Rightarrow> 'w \<Rightarrow> 'w \<times> (string + bytes32)"
  rpc_receipt :: "bytes32 \<Rightarrow> 'w \<Rightarrow> 'w \<times> (string + bool \<times> string)"

record eth_submitter =
  et_sender :: eaddr
  et_contract :: eaddr
  et_chain_id :: nat
  et_gas_limit :: nat

definition with_submit_provider :: "eaddr \<Rightarrow> eaddr \<Rightarrow> nat \<Rightarrow> nat option \<Rightarrow> eth_submitter" where
  "with_submit_provider sender contract chain gas =
     \<lparr>et_sender = sender, et_contract = contract, et_chain_id = chain, et_gas_limit = (case gas of None \<Rightarrow> 500000 | Some g \<Rightarrow> g)\<rparr>"

text \<open>A call of the node: its error becomes \<^verbatim>\<open>SettlementError::Rpc\<close>.\<close>

type_synonym ('w, 'a) rpc = "'w \<Rightarrow> 'w \<times> (settlement_error + 'a)"

definition rpc :: "('w \<Rightarrow> 'w \<times> (string + 'a)) \<Rightarrow> ('w, 'a) rpc" where
  "rpc c w = (case c w of (w', r) \<Rightarrow> (w', mapErr Rpc r))"

definition bindR :: "('w, 'a) rpc \<Rightarrow> ('a \<Rightarrow> ('w, 'b) rpc) \<Rightarrow> ('w, 'b) rpc" where
  "bindR m f w = (case m w of (w', Inl e) \<Rightarrow> (w', Inl e) | (w', Inr x) \<Rightarrow> f x w')"

definition failR :: "settlement_error \<Rightarrow> ('w, 'a) rpc" where
  "failR e w = (w, Inl e)"

definition retR :: "'a \<Rightarrow> ('w, 'a) rpc" where
  "retR x w = (w, Inr x)"

text \<open>The nonce, and the fee cap and tip, read before a transaction is built.\<close>

definition fetch_fees :: "eth_submitter \<Rightarrow> 'w provider \<Rightarrow> ('w, nat \<times> nat \<times> nat) rpc" where
  "fetch_fees S P =
     bindR (rpc (rpc_nonce P (et_sender S))) (\<lambda>nonce.
     bindR (rpc (rpc_latest P)) (\<lambda>blk.
     case blk of
       None \<Rightarrow> failR (Rpc ''no latest block'')
     | Some None \<Rightarrow> failR (Rpc ''chain does not support EIP-1559'')
     | Some (Some base_fee) \<Rightarrow>
         bindR (rpc (rpc_tip P)) (\<lambda>tip. retR (nonce, (base_fee * 2 + tip) mod 2 ^ 128, tip))))"

definition request :: "eth_submitter \<Rightarrow> call \<Rightarrow> nat \<Rightarrow> nat \<Rightarrow> nat \<Rightarrow> tx_request" where
  "request S c nonce fee_cap tip =
     \<lparr>tr_call = c, tr_from = et_sender S, tr_to = et_contract S, tr_nonce = nonce, tr_gas = et_gas_limit S,
      tr_max_fee = fee_cap, tr_tip = tip, tr_chain_id = et_chain_id S\<rparr>"

definition send_and_wait :: "'w provider \<Rightarrow> tx_request \<Rightarrow> ('w, string) rpc" where
  "send_and_wait P q =
     bindR (rpc (rpc_send P q)) (\<lambda>h.
     bindR (rpc (rpc_receipt P h)) (\<lambda>(success, tx_hash).
     if success then retR tx_hash else failR (Rpc ''transaction failed'')))"

section \<open>The submitter\<close>

definition eth_submit ::
  "dec_ops \<Rightarrow> eth_submitter \<Rightarrow> 'w provider \<Rightarrow> submit_batch_params \<Rightarrow> 'w \<Rightarrow> ('w \<times> (settlement_error + string)) option" where
  "eth_submit D S P prm w =
     (case validate_groth16_proof_len (sb_proof prm) of
        Inl e \<Rightarrow> Some (w, Inl e)
      | Inr _ \<Rightarrow>
          (case build_sol_matches D (sb_matches prm) of
             None \<Rightarrow> None
           | Some (Inl e) \<Rightarrow> Some (w, Inl e)
           | Some (Inr ms) \<Rightarrow> Some
               (bindR (fetch_fees S P) (\<lambda>(nonce, fee_cap, tip).
                send_and_wait P (request S
                  (SubmitBatch (be_nat (uuid_to_bytes32 (sb_batch_id prm))) (be_nat (uuid_to_bytes32 (sb_auction_id prm)))
                     (sb_proof prm) (sb_public_inputs prm) ms) nonce fee_cap tip)) w)))"

definition eth_submit_session ::
  "dec_ops \<Rightarrow> eth_submitter \<Rightarrow> 'w provider \<Rightarrow> submit_session_params \<Rightarrow> 'w \<Rightarrow> ('w \<times> (settlement_error + string)) option" where
  "eth_submit_session D S P prm w =
     (case sol_matches D (sp_matches prm) of
        None \<Rightarrow> None
      | Some (Inl e) \<Rightarrow> Some (w, Inl e)
      | Some (Inr ms) \<Rightarrow>
          if MAX_MATCHES_PER_BATCH < length ms then Some (w, Inl (TooManyMatches (length ms)))
          else let sid = be_nat (uuid_to_bytes32 (sp_session_id prm)) in Some
            (bindR (fetch_fees S P) (\<lambda>(nonce, fee_cap, tip).
             bindR (send_and_wait P (request S
               (SubmitSession sid (sp_proof prm) (sp_z_0 prm) (sp_z_n prm) (sp_n_steps prm) (be_nat (sp_policy_hash prm)))
               nonce fee_cap tip)) (\<lambda>_.
             if nonce + 1 < 2 ^ 64 then
               send_and_wait P (request S
                 (SettleAuction sid (be_nat (uuid_to_bytes32 (sp_auction_id prm))) ms) (nonce + 1) fee_cap tip)
             else failR (Rpc ''operator nonce overflow''))) w))"

text \<open>The submitter the engine calls: \<open>None\<close> when the call outlives the timeout of the caller.\<close>

definition NOOP_HASH :: string where
  "NOOP_HASH = ''0x'' @ replicate 64 (CHR ''0'')"

definition noop_submitter :: submitter where
  "noop_submitter = \<lparr>su_submit = (\<lambda>_. Some (Inr NOOP_HASH)), su_submit_session = (\<lambda>_. Some (Inr NOOP_HASH))\<rparr>"

section \<open>The balance oracle\<close>

fun pow_ten :: "dec_ops \<Rightarrow> nat \<Rightarrow> decimal \<Rightarrow> decimal option" where
  "pow_ten D 0 divisor = Some divisor"
| "pow_ten D (Suc n) divisor = (case d_mul D divisor 10 of None \<Rightarrow> None | Some d \<Rightarrow> pow_ten D n d)"

text \<open>\<^verbatim>\<open>Decimal::from_str\<close> of a plain number succeeds exactly within the 96-bit mantissa.\<close>

definition raw_to_decimal :: "dec_ops \<Rightarrow> u256 \<Rightarrow> nat \<Rightarrow> settlement_error + decimal" where
  "raw_to_decimal D raw decimals =
     (if 2 ^ 96 \<le> raw then Inl (ParseError ''reserved exceeds Decimal range'')
      else bindE (ok_or (ParseError ''10^decimals overflows Decimal'') (pow_ten D decimals 1)) (\<lambda>divisor.
        ok_or (ParseError ''reserved / 10^decimals overflows Decimal'') (d_div D (of_nat raw) divisor)))"

text \<open>\<open>None\<close> is a read that outlives the timeout.\<close>

definition chain_lookup :: "dec_ops \<Rightarrow> (string + u256) option \<Rightarrow> nat \<Rightarrow> settlement_error + decimal \<times> int" where
  "chain_lookup D read decimals =
     bindE (ok_or (Rpc ''balance oracle lookup timed out'') read) (\<lambda>r.
     bindE (mapErr Rpc r) (\<lambda>raw.
     bindE (raw_to_decimal D raw decimals) (\<lambda>balance. Inr (balance, 0))))"

definition insecure_dev_lookup :: "settlement_error + decimal \<times> int" where
  "insecure_dev_lookup = Inr (1000000000, 0)"

section \<open>The watcher\<close>

text \<open>What the subscription delivers next: the token is cancelled, the stream ends, or a log with its decoded
  batch identifier (\<open>None\<close> when it does not decode), block number and transaction hash.\<close>

datatype stream_item = Cancelled | Closed | Log "bytes option" "nat option" "string option"

fun run_once :: "stream_item list \<Rightarrow> (uuid \<times> nat \<times> string) list \<times> (settlement_error + unit) option" where
  "run_once [] = ([], None)"
| "run_once (Cancelled # _) = ([], Some (Inr ()))"
| "run_once (Closed # _) = ([], Some (Inl (Rpc ''subscription closed'')))"
| "run_once (Log decoded blk hash # is) =
     (case (case decoded of None \<Rightarrow> None | Some b \<Rightarrow> (case bytes32_to_uuid b of Inl _ \<Rightarrow> None | Inr i \<Rightarrow> Some i)) of
        None \<Rightarrow> run_once is
      | Some i \<Rightarrow>
          (case run_once is of (calls, r) \<Rightarrow>
             ((i, (case blk of None \<Rightarrow> 0 | Some n \<Rightarrow> n), (case hash of None \<Rightarrow> [] | Some h \<Rightarrow> h)) # calls, r)))"

definition MIN_BACKOFF :: nat where
  "MIN_BACKOFF = 1"

definition MAX_BACKOFF :: nat where
  "MAX_BACKOFF = 30"

text \<open>
  The reconnect loop over the subscriptions in order: for each, how it ended and whether the token was
  cancelled by then; the list ends where the token is cancelled during a sleep. The result is the delays
  slept, in seconds.
\<close>

fun watcher_run :: "nat \<Rightarrow> nat \<Rightarrow> (bool \<times> (settlement_error + unit)) list \<Rightarrow> nat list" where
  "watcher_run backoff failures [] = []"
| "watcher_run backoff failures ((cancelled, r) # rs) =
     (if cancelled then []
      else
        (case r of
           Inr _ \<Rightarrow> MIN_BACKOFF # watcher_run (min (MIN_BACKOFF * 2) MAX_BACKOFF) 0 rs
         | Inl _ \<Rightarrow> backoff # watcher_run (min (backoff * 2) MAX_BACKOFF) (min (failures + 1) (2 ^ 32 - 1)) rs))"

text \<open>A subscription ends without an error only when the token is cancelled, so the delay is never reset.\<close>

lemma run_once_ok: "run_once is = (calls, Some (Inr ())) \<Longrightarrow> Cancelled \<in> set is"
  by (induction "is" arbitrary: calls rule: run_once.induct) (auto split: option.splits sum.splits prod.splits)

lemma watcher_never_resets:
  assumes "list_all (\<lambda>(c, r). r \<noteq> Inr () \<or> c) rs" and "k < length (watcher_run b f rs)"
  shows "watcher_run b f rs ! k = (if k = 0 then b else min (b * 2 ^ k) MAX_BACKOFF)"
  using assms
proof (induction rs arbitrary: b f k)
  case (Cons cr rs)
  obtain e where cr: "cr = (False, Inl e)" using Cons.prems by (cases cr; cases "snd cr") (auto split: if_splits)
  show ?case
  proof (cases k)
    case (Suc j)
    have "watcher_run (min (b * 2) MAX_BACKOFF) (min (f + 1) (2 ^ 32 - 1)) rs ! j =
        (if j = 0 then min (b * 2) MAX_BACKOFF else min (min (b * 2) MAX_BACKOFF * 2 ^ j) MAX_BACKOFF)"
      using Cons.IH [of j "min (b * 2) MAX_BACKOFF"] Cons.prems by (simp add: cr Suc)
    moreover have "min (min (b * 2) m * 2 ^ j) m = min (b * 2 ^ Suc j) m" for m :: nat
    proof (cases "b * 2 \<le> m")
      case False
      then have m: "min (b * 2) m = m" by simp
      have "m \<le> b * 2 * 1" using False by linarith
      also have "b * 2 * 1 \<le> b * 2 * 2 ^ j" by (rule mult_le_mono2) simp
      finally have "m \<le> b * 2 ^ Suc j" by (simp add: mult.assoc)
      moreover have "m \<le> m * 2 ^ j" by simp
      ultimately show ?thesis unfolding m by (simp only: min_absorb2)
    qed (simp add: mult.assoc)
    ultimately show ?thesis by (simp add: cr Suc)
  qed (simp add: cr)
qed simp

section \<open>Amounts\<close>

lemma uuid_bytes32:
  assumes "i < 2 ^ 128"
  shows "be_nat (uuid_to_bytes32 i) = i" and "bytes32_to_uuid (uuid_to_bytes32 i) = Inr i"
proof -
  have n: "be_nat (be_bytes 16 i) = i" using assms by (simp add: be_bytes_facts(2))
  have z: "be_nat (replicate k 0 @ bs) = be_nat bs" for k bs by (induction k) (simp_all add: be_nat_def)
  show "be_nat (uuid_to_bytes32 i) = i" by (simp add: uuid_to_bytes32_def z n)
  have "\<not> list_ex (\<lambda>j. uuid_to_bytes32 i ! j \<noteq> 0) [0..<16]" by (auto simp: list_ex_iff uuid_to_bytes32_def nth_append)
  then show "bytes32_to_uuid (uuid_to_bytes32 i) = Inr i" by (simp add: bytes32_to_uuid_def) (simp add: uuid_to_bytes32_def n)
qed

lemma decimal_to_wei_encodable:
  assumes "dec_exact D" and "encodable d"
  shows "decimal_to_wei D d = Some (Inr (WEI_TO_CIRCUIT_SCALE * nat \<lfloor>d * 10 ^ 8\<rfloor>))"
proof -
  have d: "0 \<le> d" "of_int \<lfloor>d * 10 ^ 8\<rfloor> = d * 10 ^ 8" "d * 10 ^ 8 < 2 ^ 60"
    using assms(2) by (simp_all add: encodable_def is_multiple_def)
  define n where "n = \<lfloor>d * 10 ^ 8\<rfloor>"
  have n: "of_int n = d * 10 ^ 8" "0 \<le> n" using d(1,2) by (simp_all add: n_def)
  have s: "d * 10 ^ 18 = of_int (n * 10 ^ 10)" using n(1) by simp
  have "(of_int n :: rat) < of_int (2 ^ 60)" using n(1) d(3) by simp
  then have "n < 2 ^ 60" by (simp only: of_int_less_iff)
  then have "\<bar>n * 10 ^ 10\<bar> < 2 ^ 96" using n(2) by simp
  moreover have "representable (of_int k)" if "\<bar>k\<bar> < 2 ^ 96" for k
    unfolding representable_def representable_at_def list_ex_iff using that by (intro bexI [of _ 0]) simp_all
  ultimately have "representable (d * 10 ^ 18)" unfolding s by blast
  then have m: "d_mul D d (10 ^ 18) = Some (of_int (n * 10 ^ 10))" using assms(1) unfolding s [symmetric] by (simp add: dec_exact_def)
  have "nat (n * 10 ^ 10) = WEI_TO_CIRCUIT_SCALE * nat n" using n(2) by (simp add: WEI_TO_CIRCUIT_SCALE_def nat_mult_distrib)
  then show ?thesis using d(1) unfolding decimal_to_wei_def m option.case floor_of_int n_def [symmetric] by simp
qed

section \<open>What the node does\<close>

definition node_ok :: "'c chain \<Rightarrow> 'w provider \<Rightarrow> ('w \<Rightarrow> pool \<times> 'c) \<Rightarrow> bool" where
  "node_ok X P view \<longleftrightarrow>
     (\<forall>u w. later X (view w) (view (fst (rpc_nonce P u w)))) \<and>
     (\<forall>w. later X (view w) (view (fst (rpc_latest P w)))) \<and>
     (\<forall>w. later X (view w) (view (fst (rpc_tip P w)))) \<and>
     (\<forall>q w. later X (view w) (view (fst (rpc_send P q w)))) \<and>
     (\<forall>h w. later X (view w) (view (fst (rpc_receipt P h w)))) \<and>
     (\<forall>q w w1 h w2 th. rpc_send P q w = (w1, Inr h) \<and> rpc_receipt P h w1 = (w2, Inr (True, th)) \<longrightarrow>
       (\<exists>m sw sw'. later X (view w) sw \<and> msg_sender m = tr_from q \<and> exec X m (tr_call q) sw = Inr sw'))"

text \<open>An operation of the submitter only lets the contract move forward.\<close>

definition forward :: "'c chain \<Rightarrow> ('w \<Rightarrow> pool \<times> 'c) \<Rightarrow> ('w, 'a) rpc \<Rightarrow> bool" where
  "forward X view c \<longleftrightarrow> (\<forall>w. later X (view w) (view (fst (c w))))"

lemma forward_bind: "forward X view c \<Longrightarrow> (\<And>x. forward X view (f x)) \<Longrightarrow> forward X view (bindR c f)"
  unfolding forward_def bindR_def by (auto split: prod.split sum.split) (metis fst_conv later_trans)+

lemma forward_basic: "forward X view (failR e)" "forward X view (retR x)"
  by (simp_all add: forward_def failR_def retR_def later.refl)

lemma forward_rpc: "(\<And>w. later X (view w) (view (fst (c w)))) \<Longrightarrow> forward X view (rpc c)"
  by (simp add: forward_def rpc_def split: prod.split) (metis fst_conv)

lemma forward_fees: "node_ok X P view \<Longrightarrow> forward X view (fetch_fees S P)"
  unfolding fetch_fees_def
  by (intro forward_bind forward_rpc) (auto simp: node_ok_def forward_basic split: option.split intro!: forward_bind forward_rpc)

lemma forward_send: "node_ok X P view \<Longrightarrow> forward X view (send_and_wait P q)"
  unfolding send_and_wait_def
  by (intro forward_bind forward_rpc) (auto simp: node_ok_def forward_basic split: prod.split)

lemma sent_call_ran:
  assumes "node_ok X P view" and "send_and_wait P q w = (w', Inr th)"
  shows "\<exists>m sw sw'. later X (view w) sw \<and> msg_sender m = tr_from q \<and> exec X m (tr_call q) sw = Inr sw'"
proof -
  from assms(2) obtain w1 h where "rpc_send P q w = (w1, Inr h)" "rpc_receipt P h w1 = (w', Inr (True, th))"
    by (auto simp: send_and_wait_def bindR_def rpc_def failR_def retR_def mapErr_def split: prod.splits sum.splits if_splits)
  then show ?thesis using assms(1) unfolding node_ok_def by blast
qed

end
