(* ===== verification/DarkPoolProps.thy ===== *)
theory DarkPoolProps
  imports DarkPoolInv
begin

text \<open>
  What the settlement contract promises its users, and where its binding to the proof stops.
\<close>

section \<open>A sample chain\<close>

text \<open>
  Tokens that are plain ledgers, verifiers that accept, and a hash that returns its input: the
  smallest world the contract can live in.
\<close>

type_synonym token_ledger = "eaddr \<Rightarrow> eaddr \<Rightarrow> nat"

definition move :: "eaddr \<Rightarrow> eaddr \<Rightarrow> eaddr \<Rightarrow> u256 \<Rightarrow> token_ledger \<Rightarrow> token_ledger option" where
  "move t u v a w =
     (if a \<le> w t u \<and> w t v + a < 2 ^ 256 then
        (let b = (w t)(u := w t u - a) in Some (w(t := b(v := b v + a))))
      else None)"

definition chain_ref :: "token_ledger chain" where
  "chain_ref =
     \<lparr>x_keccak = be_nat, x_chainid = 1, x_this = 100, x_code_length = (\<lambda>_. 1),
      x_balance_of = (\<lambda>t u w. min (w t u) (2 ^ 256 - 1)), x_transfer_from = (\<lambda>t u v a w. move t u v a w),
      x_transfer = (\<lambda>t v a w. move t 100 v a w), x_decimals = (\<lambda>_ _. Some 18),
      x_verify_proof = (\<lambda>_ _ _ _. Some True), x_verify_ivc = (\<lambda>_ _ _ _ _ _. Some True)\<rparr>"

lemma erc20_ok_ref: "erc20_ok chain_ref"
  by (auto simp: erc20_ok_def chain_ref_def move_def Let_def split: if_splits)

text \<open>The base point of the curve as the operator's key.\<close>

definition key_x :: nat where
  "key_x = 0x79BE667EF9DCBBAC55A06295CE870B07029BFCDB2DCE28D959F2815B16F81798"

definition key_y :: nat where
  "key_y = 0x483ADA7726A3C4655DA4FBFC0E1108A8FD17B448A68554199C47D08FFB10D4B8"

definition key_ref :: bytes where
  "key_ref = 4 # be_bytes 32 key_x @ be_bytes 32 key_y"

lemma mod_by_quotient: "a = q * m + r \<Longrightarrow> r < m \<Longrightarrow> a mod m = (r :: nat)"
  by simp

lemma key_on_curve: "mulmod key_y key_y SECP256K1_P = secp256k1Rhs key_x"
proof -
  have x2: "key_x * key_x mod SECP256K1_P =
      60300556597753154781239923047219078515410877540607532238537983597388018023497"
    by (rule mod_by_quotient [where q =
      26187396247976283472853352193639785130011348079443841416178081230925261213881])
       (simp_all add: key_x_def SECP256K1_P_def)
  have x3: "60300556597753154781239923047219078515410877540607532238537983597388018023497 * key_x mod SECP256K1_P =
      32748224938747404814623910738487752935528512903530129802856995983256684603115"
    by (rule mod_by_quotient [where q =
      28676624904799576878370641386091001092335193693854522746901794248340229297955])
       (simp_all add: key_x_def SECP256K1_P_def)
  have y2: "key_y * key_y mod SECP256K1_P =
      32748224938747404814623910738487752935528512903530129802856995983256684603122"
    by (rule mod_by_quotient [where q =
      9217920084583157935602994580951900810186344190718383666107426471107247357458])
       (simp_all add: key_y_def SECP256K1_P_def)
  show ?thesis unfolding secp256k1Rhs_def mulmod_def addmod_def Let_def x2 x3 y2 by (simp add: SECP256K1_P_def)
qed

lemma key_ref_ok: "check_pubkey key_ref k = k"
proof -
  have l: "length (be_bytes 32 n) = 32" for n by (rule be_bytes_facts(1))
  have x: "readUint256 key_ref 1 = key_x" "readUint256 key_ref 33 = key_y"
    by (simp_all add: readUint256_def key_ref_def l be_bytes_facts(2) key_x_def key_y_def)
  have "key_x < SECP256K1_P" "key_y < SECP256K1_P" "length key_ref = 65" by (simp_all add: key_x_def key_y_def SECP256K1_P_def key_ref_def l)
  then have "validSec1Point key_ref" unfolding validSec1Point_def Let_def x by (simp add: key_on_curve)
  then show ?thesis by (simp add: check_pubkey_def require_def) (simp add: key_ref_def l validSec1Tag_def)
qed

definition by_at :: "eaddr \<Rightarrow> nat \<Rightarrow> msg" where
  "by_at u ts = \<lparr>msg_sender = u, block_timestamp = ts\<rparr>"

definition pool0 :: pool where
  "pool0 =
     \<lparr>verifier = 50, settlementDomain = settlement_domain chain_ref, operators = (\<lambda>_. False),
      settledBatch = (\<lambda>_. False), settledAuction = (\<lambda>_. False), balances = (\<lambda>_ _. 0),
      allowedTokens = (\<lambda>_. False), reserved = (\<lambda>_ _. 0), pendingUnreserve = (\<lambda>_ _. 0),
      unreserveReadyAt = (\<lambda>_ _. 0), ivcVerifier = 0, sessionSubmitted = (\<lambda>_. False),
      auctionToSession = (\<lambda>_. 0), sessionSettlementAcc = (\<lambda>_. 0), sessionSettled = (\<lambda>_. False),
      ivcEnabled = False, feeRecipient = 60, minSize = 0, minPrice = 0, positionLimit = 0,
      operatorPubkey = key_ref, operatorPubkeyEffectiveAt = 0, pool_owner = 1, pool_paused = False\<rparr>"

lemma pool0_deployed: "constructor chain_ref (by_at 1 0) 50 60 key_ref = Inr pool0"
  by (simp add: pool0_def constructor_def key_ref_ok require_def) (simp add: chain_ref_def by_at_def)

text \<open>Trader 11 holds 500 of token 7; it deposits 300 and reserves 200 of it at time 1000.\<close>

definition world0 :: token_ledger where
  "world0 = (\<lambda>t u. if t = 7 \<and> u = 11 then 500 else 0)"

definition world1 :: token_ledger where
  "world1 = (\<lambda>t u. if t = 7 \<and> u = 11 then 200 else if t = 7 \<and> u = 100 then 300 else 0)"

definition pool1 :: pool where
  "pool1 = pool0\<lparr>allowedTokens := (\<lambda>_. False)(7 := True), balances := upd2 11 7 100 (upd2 11 7 300 (\<lambda>_ _. 0)),
     reserved := upd2 11 7 200 (\<lambda>_ _. 0)\<rparr>"

definition calls1 :: "(msg \<times> call) list" where
  "calls1 = [(by_at 1 10, SetTokenAllowed 7 True), (by_at 11 20, Deposit 7 300), (by_at 11 1000, Reserve 7 200)]"

lemma run_reach: "reach X sw \<Longrightarrow> reach X (run_txs X cs sw)"
  by (induction X cs sw rule: run_txs.induct) (simp_all add: reach.call)

lemmas call_defs = tx_def exec_def deposit_def reserve_def requestUnreserve_def releaseUnreserve_def setTokenAllowed_def guard_defs
  require_def Let_def add_u256_def sub_u256_def by_at_def

lemma move_ref: "move 7 11 100 300 world0 = Some world1"
  by (auto simp: move_def world0_def world1_def Let_def fun_eq_iff)

lemma run1: "run_txs chain_ref calls1 (pool0, world0) = (pool1, world1)"
proof -
  let ?a = "pool0\<lparr>allowedTokens := (\<lambda>_. False)(7 := True)\<rparr>" let ?b = "?a\<lparr>balances := upd2 11 7 300 (\<lambda>_ _. 0)\<rparr>"
  have 1: "tx chain_ref (by_at 1 10) (SetTokenAllowed 7 True) (pool0, world0) = (?a, world0)"
    by (simp add: call_defs pool0_def)
  have b: "x_balance_of chain_ref 7 (x_this chain_ref) world0 = 0" "x_balance_of chain_ref 7 (x_this chain_ref) world1 = 300"
    "x_transfer_from chain_ref 7 11 (x_this chain_ref) 300 world0 = Some world1"
    by (simp_all add: chain_ref_def move_ref, simp_all add: world0_def world1_def)
  have "deposit chain_ref (by_at 11 20) 7 300 (?a, world0) = Inr (?b, world1)"
    by (simp add: deposit_def guard_defs require_def Let_def by_at_def b add_u256_def sub_u256_def) (simp add: pool0_def)
  then have 2: "tx chain_ref (by_at 11 20) (Deposit 7 300) (?a, world0) = (?b, world1)" by (simp add: tx_def exec_def)
  have "reserve (by_at 11 1000) 7 200 ?b = Inr pool1"
    by (simp add: reserve_def guard_defs require_def Let_def by_at_def add_u256_def sub_u256_def upd2_apply pool1_def) (simp add: pool0_def)
  then have 3: "tx chain_ref (by_at 11 1000) (Reserve 7 200) (?b, world1) = (pool1, world1)" by (simp add: tx_def exec_def)
  show ?thesis by (simp add: calls1_def 1 2 3)
qed

lemma pool1_reach: "reach chain_ref (pool1, world1)"
  using run_reach [OF reach.deploy [OF pool0_deployed, of world0], of calls1] by (simp add: run1)

section \<open>Custody\<close>

text \<open>C8. The contract stays solvent: whatever transactions run, in any order and by anyone, it holds at least as much
  of every token as it owes its users, free and reserved together; and no pending release ever exceeds
  the escrow it is taken from.\<close>

theorem contract_stays_solvent:
  assumes "erc20_ok X" and "reach X (s, w)"
  shows "(\<Sum>u\<in>UNIV. balances s u t) + (\<Sum>u\<in>UNIV. reserved s u t) \<le> x_balance_of X t (x_this X) w \<and>
    (\<forall>u. pendingUnreserve s u t \<le> reserved s u t)"
  using reach_inv [OF assms(2,1)] by (simp add: solvent_def owed_def ledger_def escrow_ok_def)

theorem contract_stays_solvent_witness:
  "(\<Sum>u\<in>UNIV. balances pool1 u 7) + (\<Sum>u\<in>UNIV. reserved pool1 u 7) \<le> 300 \<and> reserved pool1 11 7 = 200"
  using contract_stays_solvent [OF erc20_ok_ref pool1_reach, of 7] by (simp add: chain_ref_def world1_def pool1_def upd2_def)

text \<open>C11. Escrow cannot be pulled out from under a settlement: within one cool-down period, whatever transactions run,
  an escrow falls below its part that had no release pending at the start only by what settlements
  take from it.\<close>

theorem escrow_is_locked_for_the_cooldown:
  assumes "erc20_ok X" and "reach X (s, w)"
    and "\<forall>(m, c)\<in>set cs. T \<le> block_timestamp m \<and> block_timestamp m < T + UNRESERVE_DELAY"
  shows "reserved s u t - pendingUnreserve s u t \<le> reserved (fst (run_txs X cs (s, w))) u t + settled_out X cs u t (s, w)"
proof -
  have e: "escrow_ok (fst (s, w))" using reach_inv [OF assms(2,1)] by simp
  have "\<forall>(m, c)\<in>set cs. block_timestamp m < T + UNRESERVE_DELAY \<and> T + UNRESERVE_DELAY \<le> block_timestamp m + UNRESERVE_DELAY"
    using assms(3) by auto
  from run_locked [OF this e, of u t X]
  have "locked (T + UNRESERVE_DELAY) u t s \<le> locked (T + UNRESERVE_DELAY) u t (fst (run_txs X cs (s, w))) + settled_out X cs u t (s, w)" by simp
  moreover have "reserved s u t - pendingUnreserve s u t \<le> locked (T + UNRESERVE_DELAY) u t s" by (simp add: locked_def)
  moreover have "locked (T + UNRESERVE_DELAY) u t s' \<le> reserved s' u t" for s' by (simp add: locked_def)
  ultimately show ?thesis by (meson add_le_mono1 order_trans)
qed

theorem escrow_is_locked_for_the_cooldown_witness:
  "200 \<le> reserved (fst (run_txs chain_ref
     [(by_at 11 1000, RequestUnreserve 7 150), (by_at 11 4599, ReleaseUnreserve 7)] (pool1, world1))) 11 7"
proof -
  let ?cs = "[(by_at 11 1000, RequestUnreserve 7 150), (by_at 11 4599, ReleaseUnreserve 7)]"
  have "\<forall>(m, c)\<in>set ?cs. 1000 \<le> block_timestamp m \<and> block_timestamp m < 1000 + UNRESERVE_DELAY"
    by (simp add: by_at_def UNRESERVE_DELAY_def)
  from escrow_is_locked_for_the_cooldown [OF erc20_ok_ref pool1_reach this, of 11 7]
  show ?thesis by (simp add: pool1_def pool0_def upd2_def taken_def)
qed

text \<open>C36. A matured release succeeds and pays in full: once the time of a pending release has come, and the contract is
  not paused, releasing it returns the whole pending amount to the trader's free balance.\<close>

theorem matured_release_pays_in_full:
  assumes "erc20_ok X" and "reach X (s, w)" and "\<not> pool_paused s"
    and "0 < pendingUnreserve s (msg_sender m) t" and "unreserveReadyAt s (msg_sender m) t \<le> block_timestamp m"
  shows "\<exists>s'. releaseUnreserve m t s = Inr s' \<and>
    balances s' (msg_sender m) t = balances s (msg_sender m) t + pendingUnreserve s (msg_sender m) t \<and>
    reserved s' (msg_sender m) t = reserved s (msg_sender m) t - pendingUnreserve s (msg_sender m) t \<and>
    pendingUnreserve s' (msg_sender m) t = 0"
proof -
  let ?u = "msg_sender m"
  have i: "solvent X (s, w)" "pendingUnreserve s ?u t \<le> reserved s ?u t" using reach_inv [OF assms(2,1)] by (simp_all add: escrow_ok_def)
  have "balances s ?u t + reserved s ?u t \<le> owed s t" unfolding owed_def by (rule add_mono) (rule ledger_member)+
  also have "\<dots> < 2 ^ 256" using i(1) assms(1) unfolding solvent_def erc20_ok_def by (metis fst_conv le_less_trans snd_conv)
  finally have "balances s ?u t + pendingUnreserve s ?u t < 2 ^ 256" using i(2) by linarith
  then show ?thesis using assms(3-5) i(2)
    by (simp add: releaseUnreserve_def guard_defs require_def Let_def sub_u256_def add_u256_def upd2_apply)
qed

definition pool2 :: pool where
  "pool2 = pool1\<lparr>pendingUnreserve := upd2 11 7 150 (\<lambda>_ _. 0), unreserveReadyAt := upd2 11 7 4600 (\<lambda>_ _. 0)\<rparr>"

lemma pool2_reach: "reach chain_ref (pool2, world1)"
proof -
  have "requestUnreserve (by_at 11 1000) 7 150 pool1 = Inr pool2"
    by (simp add: call_defs upd2_apply pool1_def pool0_def pool2_def UNRESERVE_DELAY_def)
  then have "tx chain_ref (by_at 11 1000) (RequestUnreserve 7 150) (pool1, world1) = (pool2, world1)" by (simp add: tx_def exec_def)
  then show ?thesis using reach.call [OF pool1_reach] by metis
qed

theorem matured_release_pays_in_full_witness:
  "\<exists>s'. releaseUnreserve (by_at 11 4600) 7 pool2 = Inr s' \<and> balances s' 11 7 = 250 \<and> reserved s' 11 7 = 50"
proof -
  have "\<exists>s'. releaseUnreserve (by_at 11 4600) 7 pool2 = Inr s' \<and>
      balances s' 11 7 = balances pool2 11 7 + pendingUnreserve pool2 11 7 \<and>
      reserved s' 11 7 = reserved pool2 11 7 - pendingUnreserve pool2 11 7 \<and> pendingUnreserve s' 11 7 = 0"
    using matured_release_pays_in_full [OF erc20_ok_ref pool2_reach, of "by_at 11 4600" 7]
    by (simp add: by_at_def pool2_def pool1_def pool0_def upd2_def)
  moreover have "balances pool2 11 7 = 100" "pendingUnreserve pool2 11 7 = 150" "reserved pool2 11 7 = 200"
    by (simp_all add: pool2_def pool1_def upd2_def)
  ultimately show ?thesis by auto
qed

section \<open>Settlement\<close>

lemma settled_facts:
  assumes "submitBatch X m w b a pf pis ms s = Inr s' \<or> settleAuction X m w i a ms s = Inr s'"
  shows "owed s' t = owed s t" and "balances s u t \<le> balances s' u t" and "reserved s' u t \<le> reserved s u t"
    and "settledAuction_of X s' a" and "\<not> settledAuction_of X s a"
proof -
  have "\<exists>s0. settle_all X w ms s0 = Inr s' \<and> same_ledgers s s0 \<and> settledAuction_of X s0 a \<and> \<not> settledAuction_of X s a"
    using assms
  proof
    assume "submitBatch X m w b a pf pis ms s = Inr s'"
    from submitBatch_run [OF this] mark_ledgers(1) [of s X b a] show ?thesis
      by (intro exI [of _ "mark_batch X b a s"]) (simp add: mark_batch_def settledAuction_of_def)
  next
    assume "settleAuction X m w i a ms s = Inr s'"
    from settleAuction_run [OF this] mark_ledgers(2) [of s X i a] show ?thesis
      by (intro exI [of _ "mark_session X i a s"]) (simp add: mark_session_def settledAuction_of_def)
  qed
  then obtain s0 where s0: "settle_all X w ms s0 = Inr s'" "same_ledgers s s0" "settledAuction_of X s0 a" "\<not> settledAuction_of X s a" by blast
  have "balances s0 = balances s" "reserved s0 = reserved s" using s0(2) by (simp_all add: same_ledgers_def)
  then show "balances s u t \<le> balances s' u t" "reserved s' u t \<le> reserved s u t"
    using settle_all_settles(1) [OF s0(1)] unfolding settles_def by (metis, metis)
  show "owed s' t = owed s t" using settle_all_settles(2) [OF s0(1), of t] same_ledgers_facts(1) [OF s0(2), of t] by simp
  show "settledAuction_of X s' a" using s0(3) settle_all_guards(1) [OF s0(1)] by (simp add: settledAuction_of_def)
  show "\<not> settledAuction_of X s a" by (rule s0(4))
qed

lemma settled_is_final:
  assumes "submitBatch X m w b a pf pis ms s = Inr s1 \<or> settleAuction X m w i a ms s = Inr s1"
    and "later X (s1, w) (s2, w2)"
  shows "(\<exists>e. submitBatch X m' w2 b' a pf' pis' ms' s2 = Inl e) \<and> (\<exists>e. settleAuction X m' w2 i' a ms' s2 = Inl e)"
proof -
  have "settledAuction_of X s2 a"
    using settled_facts(4) [OF assms(1)] later_guards [OF assms(2)] by (simp add: guards_kept_def settledAuction_of_def)
  then have "submitBatch X m' w2 b' a pf' pis' ms' s2 \<noteq> Inr s'" "settleAuction X m' w2 i' a ms' s2 \<noteq> Inr s'" for s'
    using submitBatch_run settleAuction_run by metis+
  then show ?thesis by (metis sumE)
qed

text \<open>
  Trader 11 bids with escrow in token 8; trader 12 sells one unit out of its escrow in token 7, and has
  the same amount of token 9 reserved. Session 5 was submitted with the chain over the match at token 7.
\<close>

definition match3 :: "eaddr \<Rightarrow> sol_match" where
  "match3 b = \<lparr>bidOrderId = 1, askOrderId = 2, bidTrader = 11, askTrader = 12, baseToken = b, quoteToken = 8,
     sol_price = 10 ^ 18, sol_size = 10 ^ 18\<rparr>"

definition pool3 :: pool where
  "pool3 = pool0\<lparr>operators := (\<lambda>u. u = 1), ivcEnabled := True, sessionSubmitted := (\<lambda>_. True),
     sessionSettlementAcc := (\<lambda>_. case settlementChain [match3 7] pool0 of Inl e \<Rightarrow> 0 | Inr acc \<Rightarrow> acc),
     reserved := (\<lambda>u t. if u = 11 \<and> t = 8 then 2 * 10 ^ 18 else if u = 12 \<and> (t = 7 \<or> t = 9) then 10 ^ 18 else 0)\<rparr>"

definition settled3 :: "eaddr \<Rightarrow> pool" where
  "settled3 b = (mark_session chain_ref 5 6 pool3)\<lparr>
     reserved := upd2 12 b 0 (upd2 11 8 (10 ^ 18) (reserved pool3)),
     balances := upd2 60 8 (10 ^ 18 * PROTOCOL_FEE_BPS div BPS_DENOMINATOR)
       (upd2 12 8 (10 ^ 18 - 10 ^ 18 * PROTOCOL_FEE_BPS div BPS_DENOMINATOR) (upd2 11 b (10 ^ 18) (\<lambda>_ _. 0)))\<rparr>"

lemma amounts3: "match_amounts chain_ref w (match3 b) = Inr (10 ^ 18, 10 ^ 18, 10 ^ 18 * PROTOCOL_FEE_BPS div BPS_DENOMINATOR)"
  by (simp add: match_amounts_def chain_ref_def match3_def ok_or_def pow_u256_def mul_u256_def PROTOCOL_FEE_BPS_def BPS_DENOMINATOR_def)

lemma match3_fields: "bidTrader (match3 b) = 11" "askTrader (match3 b) = 12" "baseToken (match3 b) = b" "quoteToken (match3 b) = 8"
  by (simp_all add: match3_def)

lemma settle3:
  assumes "b = 7 \<or> b = 9"
  shows "settle_all chain_ref w [match3 b] (mark_session chain_ref 5 6 pool3) = Inr (settled3 b)"
  using assms by (auto simp: settleMatch_def amounts3 consumeReserved_def credit_def Let_def sub_u256_def add_u256_def match3_fields
      mark_session_def pool3_def settled3_def upd2_apply pool0_def PROTOCOL_FEE_BPS_def BPS_DENOMINATOR_def)

lemma chain3: "settlementChain [match3 7] pool3 = Inr (sessionSettlementAcc pool3 k)"
  by (simp add: settlementChain_def pool3_def match3_def require_def WEI_TO_CIRCUIT_SCALE_def)

lemma settleAuction3: "settleAuction chain_ref (by_at 1 2000) w 5 6 [match3 7] pool3 = Inr (settled3 7)"
proof -
  have "operators pool3 1" "\<not> pool_paused pool3" "ivcEnabled pool3" "sessionSubmitted pool3 k" "\<not> settledAuction pool3 k"
    "\<not> sessionSettled pool3 k" "auctionToSession pool3 k = 0" for k by (simp_all add: pool3_def pool0_def)
  then show ?thesis using settle3 [of 7 w] chain3 [of "domainId chain_ref ''session'' 5"]
    by (simp add: settleAuction_def guard_defs require_def Let_def by_at_def mark_session_def MAX_IVC_SETTLE_MATCHES_def)
qed

text \<open>C10. Settlement conserves every token and pays from the escrow only: through either arm, the sum of what the
  contract owes in each token is unchanged, fees included; nobody's free balance falls, and nobody's
  escrow rises.\<close>

theorem settlement_conserves_tokens:
  assumes "submitBatch X m w b a pf pis ms s = Inr s' \<or> settleAuction X m w i a ms s = Inr s'"
  shows "(\<Sum>u\<in>UNIV. balances s' u t) + (\<Sum>u\<in>UNIV. reserved s' u t) = (\<Sum>u\<in>UNIV. balances s u t) + (\<Sum>u\<in>UNIV. reserved s u t) \<and>
    balances s u t \<le> balances s' u t \<and> reserved s' u t \<le> reserved s u t"
  using settled_facts(1) [OF assms, of t] settled_facts(2,3) [OF assms, of u t] by (simp add: owed_def ledger_def)

theorem settlement_conserves_tokens_witness:
  "settleAuction chain_ref (by_at 1 2000) world1 5 6 [match3 7] pool3 = Inr (settled3 7) \<and>
   (\<Sum>u\<in>UNIV. balances (settled3 7) u 8) + (\<Sum>u\<in>UNIV. reserved (settled3 7) u 8) =
     (\<Sum>u\<in>UNIV. balances pool3 u 8) + (\<Sum>u\<in>UNIV. reserved pool3 u 8) \<and>
   reserved pool3 11 8 = 2 * 10 ^ 18 \<and> reserved (settled3 7) 11 8 = 10 ^ 18"
  using settlement_conserves_tokens [OF disjI2 [OF settleAuction3], of 8] settleAuction3
  by (simp add: settled3_def pool3_def upd2_apply)

text \<open>C9. An auction settles once: after it was settled through either arm, whatever happens to the contract, nobody
  settles it again, through the same arm or the other.\<close>

theorem auction_settles_once:
  assumes "submitBatch X m w b a pf pis ms s = Inr s1 \<or> settleAuction X m w i a ms s = Inr s1"
    and "later X (s1, w) (s2, w2)"
  shows "(\<exists>e. submitBatch X m' w2 b' a pf' pis' ms' s2 = Inl e) \<and> (\<exists>e. settleAuction X m' w2 i' a ms' s2 = Inl e)"
  using settled_is_final [OF assms] .

theorem auction_settles_once_witness:
  "settleAuction chain_ref (by_at 1 2000) world1 5 6 [match3 7] pool3 = Inr (settled3 7) \<and>
   (\<exists>e. settleAuction chain_ref (by_at 1 9000) world1 7 6 [match3 9]
     (fst (tx chain_ref (by_at 11 5000) (RequestUnreserve 8 1) (settled3 7, world1))) = Inl e)"
proof -
  let ?sw = "tx chain_ref (by_at 11 5000) (RequestUnreserve 8 1) (settled3 7, world1)"
  have "later chain_ref (settled3 7, world1) ?sw" by (intro later.intros)
  then have "later chain_ref (settled3 7, world1) (fst ?sw, snd ?sw)" by simp
  then have "later chain_ref (settled3 7, world1) (fst ?sw, world1)" by (rule later.world)
  from auction_settles_once [OF disjI2 [OF settleAuction3] this] settleAuction3 show ?thesis by blast
qed

section \<open>The binding to the proof\<close>

text \<open>The leg of a match as the circuit hashes it.\<close>

definition circuit_row :: "sol_match \<Rightarrow> settlement_row" where
  "circuit_row m = \<lparr>sr_bid_addr = unat (bidTrader m), sr_ask_addr = unat (askTrader m),
     sr_price = sol_price m div WEI_TO_CIRCUIT_SCALE, sr_size = sol_size m div WEI_TO_CIRCUIT_SCALE\<rparr>"

definition wei_exact :: "sol_match \<Rightarrow> bool" where
  "wei_exact m \<longleftrightarrow> sol_price m mod WEI_TO_CIRCUIT_SCALE = 0 \<and> sol_size m mod WEI_TO_CIRCUIT_SCALE = 0 \<and>
     sol_price m < 2 ^ 256 \<and> sol_size m < 2 ^ 256"

lemma address_in_field: "unat (a :: eaddr) < FR_MODULUS"
proof -
  have "unat a < 2 ^ 160" using unsigned_less [of a, where 'a = nat] by simp
  then show ?thesis by (simp add: FR_MODULUS_def)
qed

lemma amount_in_field: "n < 2 ^ 256 \<Longrightarrow> n div WEI_TO_CIRCUIT_SCALE < FR_MODULUS"
  by (simp add: WEI_TO_CIRCUIT_SCALE_def FR_MODULUS_def div_less_iff_less_mult)

lemma chain_from_native:
  assumes "\<forall>v x y z c. v < FR_MODULUS \<and> x < FR_MODULUS \<and> y < FR_MODULUS \<and> z < FR_MODULUS \<and> c < FR_MODULUS \<longrightarrow> sp [v, x, y, z, c] = poseidon5 v x y z c"
  shows "list_all wei_exact ms \<Longrightarrow> acc < FR_MODULUS \<Longrightarrow> settlementChain_from acc ms = Inr (settlement_chain sp acc (map circuit_row ms))"
proof (induction ms arbitrary: acc)
  case (Cons m ms)
  let ?h = "poseidon5 acc (unat (bidTrader m)) (unat (askTrader m)) (sol_price m div WEI_TO_CIRCUIT_SCALE) (sol_size m div WEI_TO_CIRCUIT_SCALE)"
  have m: "wei_exact m" using Cons.prems(1) by simp
  have "sp [acc, unat (bidTrader m), unat (askTrader m), sol_price m div WEI_TO_CIRCUIT_SCALE, sol_size m div WEI_TO_CIRCUIT_SCALE] = ?h"
    using m Cons.prems(2) address_in_field amount_in_field by (intro assms [rule_format]) (simp add: wei_exact_def)
  moreover have "poseidon5_with (fst loadConstants) (snd loadConstants) x y z v c = poseidon5 x y z v c" for x y z v c
    by (simp add: poseidon5_def loadConstants_def)
  ultimately show ?case
    using Cons.IH [of ?h] Cons.prems(1) m poseidon5_field by (simp add: circuit_row_def require_def wei_exact_def)
qed simp

text \<open>The chain the contract recomputes is the chain the circuit folds: where the contract's hash agrees with the
  sponge of the prover, the accumulator over a batch of matches is the native settlement chain over
  their legs; so a session settles only a batch whose legs fold to the proved accumulator.\<close>

theorem onchain_chain_is_the_proved_chain:
  assumes "\<forall>v x y z c. v < FR_MODULUS \<and> x < FR_MODULUS \<and> y < FR_MODULUS \<and> z < FR_MODULUS \<and> c < FR_MODULUS \<longrightarrow> sp [v, x, y, z, c] = poseidon5 v x y z c"
    and "list_all wei_exact ms" and "settlementDomain s < FR_MODULUS"
  shows "settlementChain ms s = Inr (settlement_chain sp (settlementDomain s) (map circuit_row ms)) \<and>
    (settleAuction X m w i a ms s = Inr s' \<longrightarrow>
      settlement_chain sp (settlementDomain s) (map circuit_row ms) = sessionSettlementAcc_of X s i)"
proof -
  have c: "settlementChain ms s = Inr (settlement_chain sp (settlementDomain s) (map circuit_row ms))"
    unfolding settlementChain_def by (rule chain_from_native [OF assms])
  moreover have "settlementChain ms s = Inr (sessionSettlementAcc_of X s i)" if "settleAuction X m w i a ms s = Inr s'"
    using settleAuction_run [OF that] by blast
  ultimately show ?thesis by auto
qed

theorem onchain_chain_is_the_proved_chain_witness:
  "settlement_chain (\<lambda>xs. poseidon5 (xs ! 0) (xs ! 1) (xs ! 2) (xs ! 3) (xs ! 4)) (settlementDomain pool3)
     [\<lparr>sr_bid_addr = 11, sr_ask_addr = 12, sr_price = 10 ^ 8, sr_size = 10 ^ 8\<rparr>] = sessionSettlementAcc_of chain_ref pool3 5"
proof -
  have c: "list_all wei_exact [match3 7]" by (simp add: wei_exact_def match3_def WEI_TO_CIRCUIT_SCALE_def FR_MODULUS_def)
  have d: "settlementDomain pool3 < FR_MODULUS" by (simp add: pool3_def pool0_def settlement_domain_def FR_MODULUS_def SNARK_SCALAR_FIELD_def)
  have r: "map circuit_row [match3 7] = [\<lparr>sr_bid_addr = 11, sr_ask_addr = 12, sr_price = 10 ^ 8, sr_size = 10 ^ 8\<rparr>]"
    by (simp add: circuit_row_def match3_def WEI_TO_CIRCUIT_SCALE_def)
  let ?sp = "\<lambda>xs :: nat list. poseidon5 (xs ! 0) (xs ! 1) (xs ! 2) (xs ! 3) (xs ! 4)"
  have sp: "\<forall>v x y z c. v < FR_MODULUS \<and> x < FR_MODULUS \<and> y < FR_MODULUS \<and> z < FR_MODULUS \<and> c < FR_MODULUS \<longrightarrow>
      ?sp [v, x, y, z, c] = poseidon5 v x y z c" by (simp add: numeral_eq_Suc)
  show ?thesis
    using onchain_chain_is_the_proved_chain [OF sp c d, of chain_ref "by_at 1 2000" world1 5 6 "settled3 7"] settleAuction3 [of world1]
    unfolding r by blast
qed

text \<open>C35. The binding does not cover the tokens: a session that settles a batch also settles the same legs with any
  other base and quote tokens, as long as the traders have escrow in those tokens.\<close>

theorem settlement_binding_ignores_tokens:
  assumes "settleAuction X m w i a ms s = Inr s1"
    and "settle_all X w (map (\<lambda>x. x\<lparr>baseToken := bt x, quoteToken := qt x\<rparr>) ms) (mark_session X i a s) = Inr s2"
  shows "settleAuction X m w i a (map (\<lambda>x. x\<lparr>baseToken := bt x, quoteToken := qt x\<rparr>) ms) s = Inr s2"
proof -
  let ?f = "\<lambda>x :: sol_match. x\<lparr>baseToken := bt x, quoteToken := qt x\<rparr>"
  have "settlementChain_from acc (map ?f ms) = settlementChain_from acc ms" for acc by (induction ms arbitrary: acc) simp_all
  then have "settlementChain (map ?f ms) s = settlementChain ms s" by (simp add: settlementChain_def)
  then show ?thesis using assms by (auto simp: settleAuction_def guard_defs evm_ok Let_def mark_session_def)
qed

theorem settlement_binding_ignores_tokens_witness:
  "settleAuction chain_ref (by_at 1 2000) world1 5 6 [match3 7] pool3 = Inr (settled3 7) \<and>
   settleAuction chain_ref (by_at 1 2000) world1 5 6 [match3 9] pool3 = Inr (settled3 9) \<and>
   balances (settled3 7) 11 9 = 0 \<and> balances (settled3 9) 11 9 = 10 ^ 18"
proof -
  have m: "map (\<lambda>x. x\<lparr>baseToken := 9, quoteToken := 8\<rparr>) [match3 7] = [match3 9]" by (simp add: match3_def)
  have "settleAuction chain_ref (by_at 1 2000) world1 5 6 [match3 9] pool3 = Inr (settled3 9)"
    using settlement_binding_ignores_tokens [OF settleAuction3, where bt = "\<lambda>_. 9" and qt = "\<lambda>_. 8", of world1 "settled3 9"]
    unfolding m using settle3 [of 9 world1] by blast
  then show ?thesis by (simp add: settleAuction3) (simp add: settled3_def upd2_apply)
qed

end
