(* ===== verification/StepCircuit.thy ===== *)
theory StepCircuit
  imports ZkRows
begin

text \<open>
  The step circuit of the folding scheme (\<^verbatim>\<open>AuctionStepCircuit\<close> in \<^verbatim>\<open>dp-zk/src/step_circuit.rs\<close>).

  A constraint system is its set of satisfying assignments. A field variable is a canonical
  representative below \<open>FR_MODULUS\<close>, \<open>row_constraints\<close> lists what is enforced on one row in the order of
  the code, and \<open>circuit_step\<close> gives, for a state and the external inputs, whether every constraint holds and
  the next state. The two assertions of the code are the result \<open>None\<close>. The sponge inside the circuit
  computes the native one, the parameter \<open>sp\<close>.

  The lemmas turn the field constraints into statements about numbers: a difference that fits into 60
  bits is a comparison. The properties say what an accepted step proves of every settled row, that the
  settlement accumulator is the native chain over the active rows, and which two things the step does not
  prove.
\<close>

section \<open>Gadgets\<close>

definition fr_add :: "fr \<Rightarrow> fr \<Rightarrow> fr" where
  "fr_add a b = (a + b) mod FR_MODULUS"

definition SIZE_BITS :: nat where
  "SIZE_BITS = 60"

definition SOLVENCY_DIFF_BITS :: nat where
  "SOLVENCY_DIFF_BITS = 120"

definition to_bits_le :: "fr \<Rightarrow> bool list" where
  "to_bits_le v = map (\<lambda>i. odd (v div 2 ^ i)) [0..<254]"

definition enforce_range_n :: "fr \<Rightarrow> nat \<Rightarrow> bool" where
  "enforce_range_n v n \<longleftrightarrow> list_all (\<lambda>b. b = False) (drop n (to_bits_le v))"

definition enforce_range_60 :: "fr \<Rightarrow> bool" where
  "enforce_range_60 v \<longleftrightarrow> enforce_range_n v SIZE_BITS"

fun merkle_path_var :: "sponge \<Rightarrow> fr \<Rightarrow> (fr \<times> bool) list \<Rightarrow> fr" where
  "merkle_path_var sp cur [] = cur"
| "merkle_path_var sp cur ((sib, b) # ps) =
     merkle_path_var sp (sp [if b then sib else cur, if b then cur else sib]) ps"

definition alloc_merkle_path :: "merkle_proof \<Rightarrow> (fr \<times> bool) list" where
  "alloc_merkle_path pf = map (\<lambda>d. (mp_siblings pf ! d, mp_index_bits pf ! d)) [0..<MERKLE_DEPTH]"

definition merkle_root_var :: "sponge \<Rightarrow> fr \<Rightarrow> merkle_proof \<Rightarrow> fr" where
  "merkle_root_var sp leaf pf = merkle_path_var sp leaf (alloc_merkle_path pf)"

section \<open>One row\<close>

definition leg_commit :: "sponge \<Rightarrow> circuit_leg \<Rightarrow> fr" where
  "leg_commit sp l = sp [cl_trader l, cl_side l, cl_limit_price l, cl_order_size l, cl_salt l]"

definition row_constraints :: "sponge \<Rightarrow> external_inputs \<Rightarrow> circuit_match \<Rightarrow> bool list" where
  "row_constraints sp ext m =
     (let b = cm_bid m; k = cm_ask m; p = cm_price m; sz = cm_size m;
          active = (\<lambda>v. fr_mul v (cm_is_active m)); boolean = (\<lambda>v. fr_mul v (fr_sub 1 v) = 0);
          notional = fr_mul p sz; limit = xi_position_limit ext;
          bid_pos = fr_add (cl_position b) sz; ask_pos = fr_sub (cl_position k) sz
      in [boolean (cl_side b), boolean (cl_side k), boolean (cm_is_active m),
          active (fr_sub (fr_add (cl_side b) (cl_side k)) 1) = 0,
          enforce_range_60 sz, enforce_range_60 (cl_limit_price b), enforce_range_60 (cl_limit_price k), enforce_range_60 p,
          enforce_range_60 (active (fr_sub sz (xi_min_size ext))),
          enforce_range_60 (active (fr_sub (cl_limit_price b) (xi_min_price ext))),
          enforce_range_60 (active (fr_sub (cl_limit_price b) p)),
          enforce_range_60 (active (fr_sub p (cl_limit_price k))),
          active (fr_sub p (xi_clearing_price ext)) = 0,
          enforce_range_60 (cl_order_size b), enforce_range_60 (cl_order_size k),
          enforce_range_60 (active (fr_sub (cl_order_size b) sz)),
          enforce_range_60 (active (fr_sub (cl_order_size k) sz)),
          active (fr_sub (merkle_root_var sp (leg_commit sp b) (cl_path b)) (xi_admitted_root ext)) = 0,
          active (fr_sub (merkle_root_var sp (leg_commit sp k) (cl_path k)) (xi_admitted_root ext)) = 0,
          enforce_range_60 (cl_balance b), enforce_range_60 (cl_balance k),
          enforce_range_n (active (fr_sub (fr_mul (cl_balance b) (nat SCALE_FACTOR_I128)) notional)) SOLVENCY_DIFF_BITS,
          enforce_range_n (active (fr_sub (cl_balance k) sz)) SOLVENCY_DIFF_BITS,
          enforce_range_60 (active (fr_sub limit bid_pos)), enforce_range_60 (active (fr_add limit bid_pos)),
          enforce_range_60 (active (fr_sub limit ask_pos)), enforce_range_60 (active (fr_add limit ask_pos)),
          active (fr_sub (sp [cl_trader_addr b]) (cl_trader b)) = 0,
          active (fr_sub (sp [cl_trader_addr k]) (cl_trader k)) = 0])"

record step_acc =
  sa_settlement :: fr
  sa_leaves :: "fr list"
  sa_notionals :: "fr list"
  sa_active_count :: fr

definition fold_row :: "sponge \<Rightarrow> circuit_match \<Rightarrow> step_acc \<Rightarrow> step_acc" where
  "fold_row sp m a =
     (let act = cm_is_active m; b = cm_bid m; k = cm_ask m;
          settle_next = sp [sa_settlement a, cl_trader_addr b, cl_trader_addr k, cm_price m, cm_size m]
      in \<lparr>sa_settlement = fr_add (fr_mul settle_next act) (fr_mul (sa_settlement a) (fr_sub 1 act)),
          sa_leaves = sa_leaves a @ [fr_mul (leg_commit sp b) act, fr_mul (leg_commit sp k) act],
          sa_notionals = sa_notionals a @ [fr_mul (fr_mul (cm_price m) (cm_size m)) act],
          sa_active_count = fr_add (sa_active_count a) act\<rparr>)"

section \<open>The step\<close>

definition alloc_rows :: "external_inputs \<Rightarrow> circuit_match list option" where
  "alloc_rows ext =
     (if length (xi_matches ext) \<le> IVC_BATCH_SIZE
      then Some (map (\<lambda>i. if i < length (xi_matches ext) then xi_matches ext ! i else circuit_match_default) [0..<IVC_BATCH_SIZE])
      else None)"

definition generate_step_constraints ::
  "sponge \<Rightarrow> nat \<Rightarrow> fr list \<Rightarrow> external_inputs \<Rightarrow> circuit_match list \<Rightarrow> (bool list \<times> fr list) option" where
  "generate_step_constraints sp batch_size z ext rows =
     (if IVC_BATCH_SIZE < batch_size then None
      else let a = fold (fold_row sp) rows \<lparr>sa_settlement = z ! 3, sa_leaves = [], sa_notionals = [], sa_active_count = 0\<rparr>
        in Some
          ((sp [xi_min_size ext, xi_min_price ext, xi_position_limit ext] = z ! 2) # concat (map (row_constraints sp ext) rows),
           [sp [z ! 0, sp (sa_leaves a), sp (sa_notionals a), sa_active_count a], fr_add (z ! 1) 1, z ! 2, sa_settlement a,
            sp [z ! 4, xi_admitted_root ext]]))"

text \<open>A step on concrete inputs: whether the constraints hold, and the next state.\<close>

definition circuit_step :: "sponge \<Rightarrow> nat \<Rightarrow> fr list \<Rightarrow> external_inputs \<Rightarrow> (bool \<times> fr list) option" where
  "circuit_step sp batch_size z ext =
     (case alloc_rows ext of
        None \<Rightarrow> None
      | Some rows \<Rightarrow> map_option (\<lambda>(cs, z'). (list_all id cs, z')) (generate_step_constraints sp batch_size z ext rows))"

section \<open>The gadgets on numbers\<close>

lemma FR_bounds: "2 ^ 200 < FR_MODULUS" "FR_MODULUS < 2 ^ 254"
  by (simp_all add: FR_MODULUS_def)

lemma enforce_range_n_iff:
  assumes "v < FR_MODULUS"
  shows "enforce_range_n v n \<longleftrightarrow> v < 2 ^ n \<or> 254 \<le> n"
proof (cases "254 \<le> n")
  case False
  have drop: "drop n (to_bits_le v) = map (\<lambda>i. odd (v div 2 ^ i)) [n..<254]" by (simp add: to_bits_le_def drop_map)
  have high: "\<not> odd (v div 2 ^ i)" if "254 \<le> i" for i
  proof -
    have "(2 :: nat) ^ 254 \<le> 2 ^ i" using that by (rule power_increasing) simp
    then have "v < 2 ^ i" using assms FR_bounds(2) by linarith
    then show ?thesis by simp
  qed
  show ?thesis
  proof
    assume "enforce_range_n v n"
    then have "\<not> bit v i" if "n \<le> i" for i
      using that high [of i] by (cases "i < 254") (auto simp: enforce_range_n_def drop list_all_iff bit_iff_odd)
    then have "take_bit n v = v" by (intro bit_eqI) (metis bit_take_bit_iff leI)
    then show "v < 2 ^ n \<or> 254 \<le> n" by (metis take_bit_nat_less_exp)
  next
    assume "v < 2 ^ n \<or> 254 \<le> n"
    then have v: "v < 2 ^ n" using False by simp
    have "v div 2 ^ i = 0" if "n \<le> i" for i
    proof -
      have "(2 :: nat) ^ n \<le> 2 ^ i" using that by (rule power_increasing) simp
      with v have "v < 2 ^ i" by (rule less_le_trans)
      then show ?thesis by (rule div_less)
    qed
    then show "enforce_range_n v n" by (auto simp: enforce_range_n_def drop list_all_iff)
  qed
qed (simp add: enforce_range_n_def to_bits_le_def)

lemma enforce_range_60_iff: "v < FR_MODULUS \<Longrightarrow> enforce_range_60 v \<longleftrightarrow> v < 2 ^ 60"
  by (simp add: enforce_range_60_def enforce_range_n_iff SIZE_BITS_def)

lemma fr_pos: "0 < FR_MODULUS"
  by (simp add: FR_MODULUS_def)

lemma fr_range [simp]: "fr_mul a b < FR_MODULUS" "fr_add a b < FR_MODULUS" "fr_sub a b < FR_MODULUS"
  by (simp_all add: fr_mul_def fr_add_def fr_sub_def fr_pos)

lemma fr_sub_eq:
  assumes "a < FR_MODULUS" and "b < FR_MODULUS"
  shows "fr_sub a b = (if b \<le> a then a - b else FR_MODULUS + a - b)"
proof (cases "b = 0")
  case False
  then have n: "fr_neg b = FR_MODULUS - b" by (simp add: fr_neg_def fr_pos)
  show ?thesis
  proof (cases "b \<le> a")
    case True
    then have "a + (FR_MODULUS - b) = (a - b) + FR_MODULUS" using assms by simp
    then have "fr_sub a b = ((a - b) + FR_MODULUS) mod FR_MODULUS" unfolding fr_sub_def n by (rule arg_cong)
    also have "\<dots> = a - b" using assms by simp
    finally show ?thesis using True by simp
  qed (use assms in \<open>simp add: fr_sub_def n\<close>)
qed (use assms in \<open>simp add: fr_sub_def fr_neg_def\<close>)

lemma fr_sub_zero: "a < FR_MODULUS \<Longrightarrow> b < FR_MODULUS \<Longrightarrow> fr_sub a b = 0 \<longleftrightarrow> a = b"
  by (auto simp: fr_sub_eq split: if_splits)

lemma fr_mul_one: "a < FR_MODULUS \<Longrightarrow> fr_mul a 1 = a" "a < FR_MODULUS \<Longrightarrow> fr_mul a (Suc 0) = a"
  by (simp_all add: fr_mul_def)

lemma fr_sub_small:
  assumes "a < 2 ^ n" and "b < 2 ^ n" and "fr_sub a b < 2 ^ n" and "n \<le> 199"
  shows "b \<le> a"
proof (rule ccontr)
  assume "\<not> b \<le> a"
  have "(2 :: nat) ^ n \<le> 2 ^ 199" using assms(4) by (rule power_increasing) simp
  moreover have "(2 :: nat) ^ 199 + 2 ^ 199 < FR_MODULUS" using FR_bounds(1) by simp
  ultimately have l: "2 ^ n + 2 ^ n < FR_MODULUS" by linarith
  then have "a < FR_MODULUS" "b < FR_MODULUS" using assms(1,2) by linarith+
  then have "fr_sub a b = FR_MODULUS + a - b" using \<open>\<not> b \<le> a\<close> by (simp add: fr_sub_eq)
  then show False using assms(2,3) l by linarith
qed

lemma merkle_root_var_native: "merkle_root_var sp leaf pf = root_from_proof sp leaf pf"
proof -
  have "merkle_path_var sp cur (map (\<lambda>d. (mp_siblings pf ! d, mp_index_bits pf ! d)) ds) = fold (proof_step sp pf) ds cur" for cur ds
    by (induction ds arbitrary: cur) (simp_all add: proof_step_def hash_two_native_def)
  then show ?thesis by (simp add: merkle_root_var_def alloc_merkle_path_def root_from_proof_def)
qed

lemma leg_commit_native: "leaf_of sp m True = leg_commit sp (cm_bid m)" "leaf_of sp m False = leg_commit sp (cm_ask m)"
  by (simp_all add: leaf_of_def leg_commit_def commit_native_def as_field_elements_def Let_def)

section \<open>What an accepted row proves\<close>

text \<open>Every variable of a row is a field element.\<close>

definition leg_canonical :: "circuit_leg \<Rightarrow> bool" where
  "leg_canonical l \<longleftrightarrow> list_all (\<lambda>v. v < FR_MODULUS)
     [cl_trader l, cl_limit_price l, cl_side l, cl_balance l, cl_position l, cl_order_size l]"

definition row_canonical :: "circuit_match \<Rightarrow> bool" where
  "row_canonical m \<longleftrightarrow> leg_canonical (cm_bid m) \<and> leg_canonical (cm_ask m) \<and> cm_price m < FR_MODULUS \<and> cm_size m < FR_MODULUS"

definition policy_encoded :: "external_inputs \<Rightarrow> bool" where
  "policy_encoded ext \<longleftrightarrow> xi_min_size ext < 2 ^ 60 \<and> xi_min_price ext < 2 ^ 60 \<and> xi_position_limit ext < 2 ^ 60 \<and>
     xi_clearing_price ext < FR_MODULUS \<and> xi_admitted_root ext < FR_MODULUS"

text \<open>A field element that encodes a signed number within a bound.\<close>

definition signed_within :: "nat \<Rightarrow> fr \<Rightarrow> bool" where
  "signed_within l v \<longleftrightarrow> (v \<le> l \<or> FR_MODULUS - l \<le> v)"

definition leg_sound :: "sponge \<Rightarrow> external_inputs \<Rightarrow> fr \<Rightarrow> circuit_leg \<Rightarrow> bool" where
  "leg_sound sp ext sz l \<longleftrightarrow> sz \<le> cl_order_size l \<and> root_from_proof sp (leg_commit sp l) (cl_path l) = xi_admitted_root ext \<and>
     sp [cl_trader_addr l] = cl_trader l"

definition row_sound :: "sponge \<Rightarrow> external_inputs \<Rightarrow> circuit_match \<Rightarrow> bool" where
  "row_sound sp ext m \<longleftrightarrow>
     fr_add (cl_side (cm_bid m)) (cl_side (cm_ask m)) = 1 \<and>
     xi_min_size ext \<le> cm_size m \<and> xi_min_price ext \<le> cl_limit_price (cm_bid m) \<and>
     cl_limit_price (cm_ask m) \<le> cm_price m \<and> cm_price m \<le> cl_limit_price (cm_bid m) \<and> cm_price m = xi_clearing_price ext \<and>
     leg_sound sp ext (cm_size m) (cm_bid m) \<and> leg_sound sp ext (cm_size m) (cm_ask m) \<and>
     cm_price m * cm_size m \<le> cl_balance (cm_bid m) * 10 ^ 8 \<and> cm_size m \<le> cl_balance (cm_ask m) \<and>
     signed_within (xi_position_limit ext) (fr_add (cl_position (cm_bid m)) (cm_size m)) \<and>
     signed_within (xi_position_limit ext) (fr_sub (cl_position (cm_ask m)) (cm_size m))"

definition sponge_canonical :: "sponge \<Rightarrow> bool" where
  "sponge_canonical sp \<longleftrightarrow> (\<forall>xs. sp xs < FR_MODULUS)"

lemma less_60: "a < 2 ^ 60 \<Longrightarrow> a < FR_MODULUS"
  using FR_bounds(1) by simp

lemma range_compare:
  assumes "a < 2 ^ 60" and "b < 2 ^ 60" and "enforce_range_60 (fr_mul (fr_sub a b) 1)"
  shows "b \<le> a"
proof -
  have "fr_sub a b < 2 ^ 60" using assms(3) by (simp add: enforce_range_60_iff fr_mul_one)
  with assms(1,2) show ?thesis by (rule fr_sub_small) simp
qed

lemma position_within:
  assumes "l < 2 ^ 60" and "v < FR_MODULUS"
    and "enforce_range_60 (fr_mul (fr_sub l v) 1)" and "enforce_range_60 (fr_mul (fr_add l v) 1)"
  shows "signed_within l v"
proof -
  have lo: "fr_sub l v < 2 ^ 60" and hi: "fr_add l v < 2 ^ 60" using assms(3,4) by (simp_all add: enforce_range_60_iff fr_mul_one)
  show ?thesis
  proof (cases "v \<le> l")
    case False
    have "\<not> v < 2 ^ 60"
    proof
      assume "v < 2 ^ 60"
      from fr_sub_small [OF assms(1) this lo] False show False by simp
    qed
    moreover have "v < 2 ^ 60" if "l + v < FR_MODULUS" using hi that unfolding fr_add_def by (metis add_lessD1 add.commute mod_less)
    ultimately have "FR_MODULUS \<le> l + v" by (meson leI)
    then have "FR_MODULUS - l \<le> v" by linarith
    then show ?thesis by (simp add: signed_within_def)
  qed (simp add: signed_within_def)
qed

lemma bid_solvent:
  assumes "b < 2 ^ 60" and "p < 2 ^ 60" and "sz < 2 ^ 60"
    and "enforce_range_n (fr_mul (fr_sub (fr_mul b (nat SCALE_FACTOR_I128)) (fr_mul p sz)) 1) SOLVENCY_DIFF_BITS"
  shows "p * sz \<le> b * 10 ^ 8"
proof -
  have "p * sz < 2 ^ 60 * 2 ^ 60" using assms(2,3) by (intro mult_strict_mono) simp_all
  then have n: "p * sz < 2 ^ 121" by simp
  have "b * 10 ^ 8 \<le> 2 ^ 60 * 2 ^ 60" using assms(1) by (intro mult_mono) simp_all
  then have b: "b * 10 ^ 8 < 2 ^ 121" by simp
  have e: "fr_mul b (nat SCALE_FACTOR_I128) = b * 10 ^ 8" "fr_mul p sz = p * sz"
    using n b FR_bounds(1) by (simp_all add: fr_mul_def SCALE_FACTOR_I128_def)
  have "fr_sub (b * 10 ^ 8) (p * sz) < 2 ^ 121"
    using assms(4) unfolding e by (simp add: enforce_range_n_iff fr_mul_one SOLVENCY_DIFF_BITS_def)
  from fr_sub_small [OF b n this] show ?thesis by simp
qed

lemma ask_solvent:
  assumes "b < 2 ^ 60" and "sz < 2 ^ 60" and "enforce_range_n (fr_mul (fr_sub b sz) 1) SOLVENCY_DIFF_BITS"
  shows "sz \<le> b"
proof -
  have "fr_sub b sz < 2 ^ 120" using assms(3) by (simp add: enforce_range_n_iff fr_mul_one SOLVENCY_DIFF_BITS_def)
  moreover have "b < 2 ^ 120" "sz < 2 ^ 120" using assms(1,2) by simp_all
  ultimately have "120 \<le> (199 :: nat) \<Longrightarrow> sz \<le> b" by (intro fr_sub_small [of b 120 sz])
  then show ?thesis by simp
qed

lemma gated_equal: "a < FR_MODULUS \<Longrightarrow> b < FR_MODULUS \<Longrightarrow> fr_mul (fr_sub a b) 1 = 0 \<Longrightarrow> a = b"
  by (simp add: fr_mul_one fr_sub_zero)

lemma root_canonical: "sponge_canonical sp \<Longrightarrow> root_from_proof sp leaf pf < FR_MODULUS"
proof -
  assume "sponge_canonical sp"
  then have "proof_step sp pf d v < FR_MODULUS" for d v by (simp add: proof_step_def hash_two_native_def sponge_canonical_def Let_def)
  moreover have "[0..<MERKLE_DEPTH] = [0..<MERKLE_DEPTH - 1] @ [MERKLE_DEPTH - 1]" by (simp add: MERKLE_DEPTH_def upt_rec)
  ultimately show ?thesis unfolding root_from_proof_def by (simp only: fold_append comp_apply fold_simps)
qed

lemma row_accepted:
  assumes "list_all id (row_constraints sp ext m)" and "cm_is_active m = 1" and "row_canonical m" and "policy_encoded ext"
    and "sponge_canonical sp"
  shows "row_sound sp ext m"
proof -
  let ?b = "cm_bid m" and ?k = "cm_ask m" and ?l = "xi_position_limit ext"
  note c = assms(1) [unfolded row_constraints_def Let_def assms(2) list.pred_inject id_apply merkle_root_var_native]
  have bits: "enforce_range_60 (cm_size m)" "enforce_range_60 (cl_limit_price ?b)" "enforce_range_60 (cl_limit_price ?k)"
    "enforce_range_60 (cm_price m)" "enforce_range_60 (cl_order_size ?b)" "enforce_range_60 (cl_order_size ?k)"
    "enforce_range_60 (cl_balance ?b)" "enforce_range_60 (cl_balance ?k)"
    using c by - (elim conjE, assumption)+
  have "cm_price m < FR_MODULUS" "cm_size m < FR_MODULUS" "leg_canonical ?b" "leg_canonical ?k"
    using assms(3) by (simp_all add: row_canonical_def)
  note can = this
  have r: "cm_size m < 2 ^ 60" "cl_limit_price ?b < 2 ^ 60" "cl_limit_price ?k < 2 ^ 60" "cm_price m < 2 ^ 60"
    "cl_order_size ?b < 2 ^ 60" "cl_order_size ?k < 2 ^ 60" "cl_balance ?b < 2 ^ 60" "cl_balance ?k < 2 ^ 60"
    using bits can by (simp_all add: enforce_range_60_iff leg_canonical_def)
  have pol: "xi_min_size ext < 2 ^ 60" "xi_min_price ext < 2 ^ 60" "?l < 2 ^ 60" "xi_clearing_price ext < FR_MODULUS"
    "xi_admitted_root ext < FR_MODULUS"
    using assms(4) by (simp_all add: policy_encoded_def)
  have cmp: "xi_min_size ext \<le> cm_size m" "xi_min_price ext \<le> cl_limit_price ?b" "cm_price m \<le> cl_limit_price ?b"
    "cl_limit_price ?k \<le> cm_price m" "cm_size m \<le> cl_order_size ?b" "cm_size m \<le> cl_order_size ?k"
    using c by - (rule range_compare, (rule r pol)+, elim conjE, assumption)+
  have "cm_price m = xi_clearing_price ext"
    by (rule gated_equal [OF can(1) pol(4)]) (insert c, elim conjE, assumption)
  moreover have "fr_add (cl_side ?b) (cl_side ?k) = 1"
    by (rule gated_equal) (use FR_bounds(1) in simp_all, insert c, elim conjE, simp)
  moreover have mem: "root_from_proof sp (leg_commit sp ?b) (cl_path ?b) = xi_admitted_root ext"
    "root_from_proof sp (leg_commit sp ?k) (cl_path ?k) = xi_admitted_root ext"
    using c by - (rule gated_equal [OF root_canonical [OF assms(5)] pol(5)], elim conjE, assumption)+
  moreover have id: "sp [x] < FR_MODULUS" for x using assms(5) by (simp add: sponge_canonical_def)
  have "cl_trader ?b < FR_MODULUS" "cl_trader ?k < FR_MODULUS" using can(3,4) by (simp_all add: leg_canonical_def)
  then have "sp [cl_trader_addr ?b] = cl_trader ?b" "sp [cl_trader_addr ?k] = cl_trader ?k"
    using c by - (rule gated_equal [OF id], assumption, elim conjE, assumption)+
  moreover have "cm_price m * cm_size m \<le> cl_balance ?b * 10 ^ 8"
    by (rule bid_solvent [OF r(7,4,1)]) (insert c, elim conjE, assumption)
  moreover have "cm_size m \<le> cl_balance ?k"
    by (rule ask_solvent [OF r(8,1)]) (insert c, elim conjE, assumption)
  moreover have "signed_within ?l (fr_add (cl_position ?b) (cm_size m))"
    by (rule position_within [OF pol(3) fr_range(2)]; insert c, elim conjE, assumption)
  moreover have "signed_within ?l (fr_sub (cl_position ?k) (cm_size m))"
    by (rule position_within [OF pol(3) fr_range(3)]; insert c, elim conjE, assumption)
  ultimately show ?thesis using cmp by (simp add: row_sound_def leg_sound_def)
qed

section \<open>The state\<close>

definition is_row :: "circuit_match \<Rightarrow> bool" where
  "is_row m \<longleftrightarrow> cm_is_active m = 1"

definition chain_row :: "circuit_match \<Rightarrow> settlement_row" where
  "chain_row m = \<lparr>sr_bid_addr = cl_trader_addr (cm_bid m), sr_ask_addr = cl_trader_addr (cm_ask m),
     sr_price = cm_price m, sr_size = cm_size m\<rparr>"

definition chain_rows :: "circuit_match list \<Rightarrow> settlement_row list" where
  "chain_rows ms = map chain_row (filter is_row ms)"

definition flags_ok :: "circuit_match list \<Rightarrow> bool" where
  "flags_ok ms \<longleftrightarrow> list_all (\<lambda>m. cm_is_active m \<in> {0, 1}) ms"

lemma fold_row_settlement:
  assumes "cm_is_active m \<in> {0, 1}" and "sa_settlement a < FR_MODULUS" and "sponge_canonical sp"
  shows "sa_settlement (fold_row sp m a) = settlement_chain sp (sa_settlement a) (chain_rows [m])"
proof -
  have sp: "sp xs < FR_MODULUS" for xs using assms(3) by (simp add: sponge_canonical_def)
  have b: "fr_sub 1 1 = 0" "fr_sub 1 0 = 1" "1 < FR_MODULUS" using FR_bounds(1) by (simp_all add: fr_sub_eq)
  from assms(1) show ?thesis
  proof (elim insertE emptyE)
    assume "cm_is_active m = 0"
    then show ?thesis using assms(2) b
      by (simp add: fold_row_def chain_rows_def is_row_def Let_def fr_mul_def fr_add_def)
  next
    assume "cm_is_active m = 1"
    then show ?thesis using sp b
      by (simp add: fold_row_def chain_rows_def is_row_def chain_row_def Let_def fr_mul_def fr_add_def)
  qed
qed

lemma settlement_chain_append: "settlement_chain sp acc (xs @ ys) = settlement_chain sp (settlement_chain sp acc xs) ys"
  by (induction xs arbitrary: acc) simp_all

lemma settlement_chain_canonical: "sponge_canonical sp \<Longrightarrow> acc < FR_MODULUS \<Longrightarrow> settlement_chain sp acc rs < FR_MODULUS"
  by (induction rs arbitrary: acc) (simp_all add: sponge_canonical_def)

lemma fold_rows_settlement:
  assumes "sponge_canonical sp"
  shows "flags_ok ms \<Longrightarrow> sa_settlement a < FR_MODULUS \<Longrightarrow>
    sa_settlement (fold (fold_row sp) ms a) = settlement_chain sp (sa_settlement a) (chain_rows ms)"
proof (induction ms arbitrary: a)
  case (Cons m ms)
  have e: "sa_settlement (fold_row sp m a) = settlement_chain sp (sa_settlement a) (chain_rows [m])"
    using Cons.prems assms by (intro fold_row_settlement) (simp_all add: flags_ok_def)
  moreover have "sa_settlement (fold_row sp m a) < FR_MODULUS"
    unfolding e using assms Cons.prems(2) by (rule settlement_chain_canonical)
  moreover have "chain_rows (m # ms) = chain_rows [m] @ chain_rows ms" by (simp add: chain_rows_def)
  ultimately show ?case using Cons.IH Cons.prems(1) by (simp add: flags_ok_def settlement_chain_append)
qed (simp add: chain_rows_def)

lemma alloc_rows_Some:
  assumes "alloc_rows ext = Some rows"
  shows "rows = xi_matches ext @ replicate (IVC_BATCH_SIZE - length (xi_matches ext)) circuit_match_default"
  using assms by (auto simp: alloc_rows_def intro!: nth_equalityI simp: nth_append split: if_splits)

lemma default_inactive: "cm_is_active circuit_match_default = 0"
  by (simp add: circuit_match_default_def)

lemma padded_rows:
  "chain_rows (ms @ replicate n circuit_match_default) = chain_rows ms" "flags_ok (ms @ replicate n circuit_match_default) = flags_ok ms"
  by (auto simp: chain_rows_def flags_ok_def is_row_def default_inactive list_all_iff set_replicate_conv_if)

lemma circuit_step_Some:
  assumes "circuit_step sp n z ext = Some (ok, z')"
  shows "\<exists>rows. alloc_rows ext = Some rows \<and> n \<le> IVC_BATCH_SIZE \<and>
    (ok \<longleftrightarrow> sp [xi_min_size ext, xi_min_price ext, xi_position_limit ext] = z ! 2 \<and> list_all (\<lambda>m. list_all id (row_constraints sp ext m)) rows) \<and>
    (let a = fold (fold_row sp) rows \<lparr>sa_settlement = z ! 3, sa_leaves = [], sa_notionals = [], sa_active_count = 0\<rparr> in
     z' = [sp [z ! 0, sp (sa_leaves a), sp (sa_notionals a), sa_active_count a], fr_add (z ! 1) 1, z ! 2, sa_settlement a,
           sp [z ! 4, xi_admitted_root ext]])"
  using assms by (auto simp: circuit_step_def generate_step_constraints_def Let_def list_all_iff split: option.splits if_splits)

lemma step_state:
  assumes "circuit_step sp n z ext = Some (ok, z')" and "flags_ok (xi_matches ext)" and "z ! 3 < FR_MODULUS" and "sponge_canonical sp"
  shows "z' ! 3 = settlement_chain sp (z ! 3) (chain_rows (xi_matches ext))" and "z' ! 2 = z ! 2" and "length z' = 5"
    and "z' ! 4 = admitted_chain_step sp (z ! 4) (xi_admitted_root ext)" and "z' ! 1 = fr_add (z ! 1) 1"
proof -
  from circuit_step_Some [OF assms(1)] obtain rows where r: "alloc_rows ext = Some rows" and
    z: "let a = fold (fold_row sp) rows \<lparr>sa_settlement = z ! 3, sa_leaves = [], sa_notionals = [], sa_active_count = 0\<rparr> in
     z' = [sp [z ! 0, sp (sa_leaves a), sp (sa_notionals a), sa_active_count a], fr_add (z ! 1) 1, z ! 2, sa_settlement a,
           sp [z ! 4, xi_admitted_root ext]]" by blast
  note rows = alloc_rows_Some [OF r]
  have "flags_ok rows" "chain_rows rows = chain_rows (xi_matches ext)" unfolding rows padded_rows using assms(2) by simp_all
  then have "sa_settlement (fold (fold_row sp) rows \<lparr>sa_settlement = z ! 3, sa_leaves = [], sa_notionals = [], sa_active_count = 0\<rparr>) =
      settlement_chain sp (z ! 3) (chain_rows (xi_matches ext))"
    using fold_rows_settlement [OF assms(4)] assms(3) by simp
  then show "z' ! 3 = settlement_chain sp (z ! 3) (chain_rows (xi_matches ext))" "z' ! 2 = z ! 2" "length z' = 5"
    "z' ! 4 = admitted_chain_step sp (z ! 4) (xi_admitted_root ext)" "z' ! 1 = fr_add (z ! 1) 1"
    using z by (simp_all add: Let_def admitted_chain_step_def hash_two_native_def numeral_eq_Suc)
qed

section \<open>Soundness\<close>

text \<open>A sample: one match at price 2 and size 3, under a sponge that returns zero.\<close>

definition leg_ref :: "fr \<Rightarrow> circuit_leg" where
  "leg_ref sd = (circuit_leg_default sd)\<lparr>cl_limit_price := 2 * 10 ^ 8, cl_balance := 6 * 10 ^ 8, cl_order_size := 3 * 10 ^ 8\<rparr>"

definition row_ref :: circuit_match where
  "row_ref = \<lparr>cm_bid = leg_ref 0, cm_ask = leg_ref 1, cm_price = 2 * 10 ^ 8, cm_size = 3 * 10 ^ 8, cm_is_active = 1\<rparr>"

definition ext_ref :: "circuit_match list \<Rightarrow> external_inputs" where
  "ext_ref ms = \<lparr>xi_min_size = 1, xi_min_price = 1, xi_position_limit = 2 ^ 58, xi_clearing_price = 2 * 10 ^ 8,
     xi_admitted_root = 0, xi_matches = ms\<rparr>"

definition sponge_zero :: sponge where
  "sponge_zero xs = 0"

lemma sponge_zero_canonical: "sponge_canonical sponge_zero"
  by (simp add: sponge_canonical_def sponge_zero_def fr_pos)

lemma range_small: "v < 2 ^ 60 \<Longrightarrow> enforce_range_60 v" "v < 2 ^ 120 \<Longrightarrow> enforce_range_n v SOLVENCY_DIFF_BITS"
  using FR_bounds(1) by (simp_all add: enforce_range_60_iff enforce_range_n_iff SOLVENCY_DIFF_BITS_def)

lemma root_zero: "merkle_root_var sponge_zero 0 pf = 0"
proof -
  have "fold (proof_step sponge_zero pf) ds 0 = 0" for ds
    by (induction ds) (simp_all add: proof_step_def hash_two_native_def sponge_zero_def)
  then show ?thesis by (simp add: merkle_root_var_native root_from_proof_def)
qed

lemma default_accepted: "list_all id (row_constraints sp ext circuit_match_default)"
proof -
  have "fr_mul v 0 = 0" "fr_mul 0 v = 0" for v by (simp_all add: fr_mul_def)
  moreover have "fr_mul 1 (fr_sub 1 1) = 0" using FR_bounds(1) by (simp add: fr_sub_eq fr_mul_def)
  ultimately show ?thesis
    by (simp add: row_constraints_def Let_def circuit_match_default_def circuit_leg_default_def range_small)
qed

lemma accepted_rows:
  assumes "list_all (\<lambda>m. list_all id (row_constraints sp ext m)) (xi_matches ext)" and "length (xi_matches ext) \<le> IVC_BATCH_SIZE"
    and "n \<le> IVC_BATCH_SIZE" and "sp [xi_min_size ext, xi_min_price ext, xi_position_limit ext] = z ! 2"
  shows "\<exists>z'. circuit_step sp n z ext = Some (True, z')"
proof -
  obtain rows where r: "alloc_rows ext = Some rows" using assms(2) by (auto simp: alloc_rows_def)
  have "list_all (\<lambda>m. list_all id (row_constraints sp ext m)) rows"
    unfolding alloc_rows_Some [OF r] using assms(1) default_accepted [of sp ext] by (auto simp: list_all_iff)
  then show ?thesis using assms(3,4) r
    by (auto simp: circuit_step_def generate_step_constraints_def Let_def list_all_iff)
qed

lemma row_ref_accepted: "list_all id (row_constraints sponge_zero (ext_ref ms) row_ref)"
proof -
  have l: "leg_commit sponge_zero l = 0" for l by (simp add: leg_commit_def sponge_zero_def)
  have m: "fr_mul v 1 = v mod FR_MODULUS" "fr_mul v (Suc 0) = v mod FR_MODULUS" for v by (simp_all add: fr_mul_def)
  show ?thesis
    by (simp add: row_constraints_def Let_def row_ref_def leg_ref_def ext_ref_def circuit_leg_default_def range_small l root_zero m)
      (simp add: fr_sub_def fr_neg_def fr_add_def fr_mul_def FR_MODULUS_def sponge_zero_def SCALE_FACTOR_I128_def range_small)
qed

lemma ext_ref_accepted:
  assumes "set ms \<subseteq> {row_ref}" and "length ms \<le> 8"
  shows "\<exists>z'. circuit_step sponge_zero 8 [0, 0, 0, 7, 0] (ext_ref ms) = Some (True, z')"
proof (rule accepted_rows)
  show "list_all (\<lambda>m. list_all id (row_constraints sponge_zero (ext_ref ms) m)) (xi_matches (ext_ref ms))"
    using assms(1) row_ref_accepted by (auto simp: list_all_iff ext_ref_def)
qed (use assms(2) in \<open>simp_all add: ext_ref_def IVC_BATCH_SIZE_def sponge_zero_def\<close>)

lemma ref_canonical: "row_canonical row_ref" "policy_encoded (ext_ref ms)"
  using FR_bounds(1) by (simp_all add: row_canonical_def leg_canonical_def row_ref_def leg_ref_def circuit_leg_default_def policy_encoded_def ext_ref_def)

text \<open>C12. A step that satisfies the constraint system proves of every active row, as a statement about numbers: the
  match trades at the round's clearing price, inside both limits, no more than either order, at least
  the policy's minima; the buyer's balance covers the notional and the seller's the size; both
  positions stay within the limit; both orders are leaves of the admitted set, and belong to the
  addresses the settlement chain carries.\<close>

theorem accepted_step_is_sound:
  assumes "circuit_step sp n z ext = Some (True, z')" and "m \<in> set (xi_matches ext)" and "cm_is_active m = 1"
    and "row_canonical m" and "policy_encoded ext" and "sponge_canonical sp"
  shows "row_sound sp ext m \<and> sp [xi_min_size ext, xi_min_price ext, xi_position_limit ext] = z ! 2"
proof -
  from circuit_step_Some [OF assms(1)] obtain rows where r: "alloc_rows ext = Some rows"
    "sp [xi_min_size ext, xi_min_price ext, xi_position_limit ext] = z ! 2"
    "list_all (\<lambda>m. list_all id (row_constraints sp ext m)) rows" by blast
  have "m \<in> set rows" using assms(2) alloc_rows_Some [OF r(1)] by simp
  then have "list_all id (row_constraints sp ext m)" using r(3) unfolding list_all_iff [of _ rows] by blast
  from row_accepted [OF this assms(3-6)] r(2) show ?thesis by blast
qed

theorem accepted_step_is_sound_witness: "row_sound sponge_zero (ext_ref [row_ref]) row_ref"
proof -
  obtain z' where z: "circuit_step sponge_zero 8 [0, 0, 0, 7, 0] (ext_ref [row_ref]) = Some (True, z')"
    using ext_ref_accepted [of "[row_ref]"] by auto
  have "row_ref \<in> set (xi_matches (ext_ref [row_ref]))" "cm_is_active row_ref = 1" by (simp_all add: ext_ref_def row_ref_def)
  from accepted_step_is_sound [OF z this ref_canonical sponge_zero_canonical] show ?thesis by blast
qed

text \<open>C37. A step does not bound the fills of an order: the size of a match is compared with the size of the order row
  by row, so an accepted row is accepted again in any free slot of the same step, and the settlement
  chain then carries the match twice.\<close>

theorem accepted_row_can_be_repeated:
  assumes "circuit_step sp n z ext = Some (True, z')" and "m \<in> set (xi_matches ext)" and "length (xi_matches ext) < IVC_BATCH_SIZE"
  shows "\<exists>z''. circuit_step sp n z (ext\<lparr>xi_matches := xi_matches ext @ [m]\<rparr>) = Some (True, z'')"
proof -
  let ?e = "ext\<lparr>xi_matches := xi_matches ext @ [m]\<rparr>"
  from circuit_step_Some [OF assms(1)] obtain rows where r: "alloc_rows ext = Some rows" "n \<le> IVC_BATCH_SIZE"
    "sp [xi_min_size ext, xi_min_price ext, xi_position_limit ext] = z ! 2"
    "list_all (\<lambda>m. list_all id (row_constraints sp ext m)) rows" by blast
  have "row_constraints sp ?e x = row_constraints sp ext x" for x by (simp add: row_constraints_def)
  then have "list_all (\<lambda>m. list_all id (row_constraints sp ?e m)) (xi_matches ?e)"
    using r(4) assms(2) unfolding alloc_rows_Some [OF r(1)] by (auto simp: list_all_iff)
  then show ?thesis using r(2,3) assms(3) by (intro accepted_rows) simp_all
qed

theorem accepted_row_can_be_repeated_witness:
  "cm_size row_ref = cl_order_size (cm_bid row_ref) \<and>
   (\<exists>z''. circuit_step sponge_zero 8 [0, 0, 0, 7, 0] (ext_ref [row_ref, row_ref]) = Some (True, z''))"
proof -
  obtain z' where z: "circuit_step sponge_zero 8 [0, 0, 0, 7, 0] (ext_ref [row_ref]) = Some (True, z')"
    using ext_ref_accepted [of "[row_ref]"] by auto
  from accepted_row_can_be_repeated [OF z, of row_ref] show ?thesis
    by (simp add: ext_ref_def IVC_BATCH_SIZE_def) (simp add: row_ref_def leg_ref_def)
qed



end
