(* ===== verification/Aggregator.thy ===== *)
theory Aggregator
  imports StepCircuit Tick
begin

text \<open>
  The folding interface (\<^verbatim>\<open>dp-zk/src/folding.rs\<close>) and the aggregator that runs it in the process
  (\<^verbatim>\<open>dp-aggregator/src/inline.rs\<close>), with the no-op aggregator of \<^verbatim>\<open>aggregator.rs\<close>.

  The folding scheme itself is a third-party crate: a record of operations over a prover state. Its
  documented behaviour \<open>hypernova_ok\<close> is that a fresh prover carries the initial state, and that a
  successful step advances the state by the step circuit.

  The lemmas follow the settlement accumulator through a session: after any number of rounds it is the
  settlement chain, from the contract's domain, over every row folded since the pair's first round.
\<close>

section \<open>The folding interface\<close>

record 'h folding_scheme =
  hn_init :: "nat \<Rightarrow> fr list \<Rightarrow> string + 'h"
  hn_prove_step :: "external_inputs \<Rightarrow> 'h \<Rightarrow> 'h \<times> (string + unit)"
  hn_z_i :: "'h \<Rightarrow> fr list"
  hn_serialize :: "'h \<Rightarrow> string + bytes"

record 'h folding_accumulator =
  fa_hn :: 'h
  fa_z_0 :: "fr list"
  fa_n_steps :: nat

definition init_accumulator :: "'h folding_scheme \<Rightarrow> nat \<Rightarrow> fr list \<Rightarrow> zk_error + 'h folding_accumulator" where
  "init_accumulator F batch_size z_0 =
     bindE (mapErr (\<lambda>e. Ivc (''init: '' @ e)) (hn_init F batch_size z_0)) (\<lambda>h.
     Inr \<lparr>fa_hn = h, fa_z_0 = z_0, fa_n_steps = 0\<rparr>)"

definition zk_fold_step ::
  "'h folding_scheme \<Rightarrow> external_inputs \<Rightarrow> 'h folding_accumulator \<Rightarrow> 'h folding_accumulator \<times> (zk_error + unit)" where
  "zk_fold_step F ext acc =
     (case hn_prove_step F ext (fa_hn acc) of
        (h, Inl e) \<Rightarrow> (acc\<lparr>fa_hn := h\<rparr>, Inl (Ivc (''prove_step: '' @ e)))
      | (h, Inr _) \<Rightarrow> (acc\<lparr>fa_hn := h, fa_n_steps := (fa_n_steps acc + 1) mod 2 ^ 64\<rparr>, Inr ()))"

definition compress_and_finalize :: "'h folding_scheme \<Rightarrow> 'h folding_accumulator \<Rightarrow> zk_error + final_proof" where
  "compress_and_finalize F acc =
     (let z_n = hn_z_i F (fa_hn acc) in
      if length z_n \<noteq> 5 then Inl (Ivc ''z_i has wrong length'')
      else bindE (mapErr Serialize (hn_serialize F (fa_hn acc))) (\<lambda>bs.
        Inr \<lparr>fp_proof_bytes = bs, fp_z_0 = fa_z_0 acc, fp_z_n = z_n, fp_n_steps = fa_n_steps acc, fp_policy_hash = z_n ! 2\<rparr>))"

text \<open>
  \<^verbatim>\<open>verify_final\<close>: the deserialised proof carries its own states, which the copies must equal; \<open>dec\<close> and
  \<open>ver\<close> are deserialisation and verification of the scheme.
\<close>

definition verify_final ::
  "(bytes \<Rightarrow> string + 'p) \<Rightarrow> ('p \<Rightarrow> fr list \<times> fr list) \<Rightarrow> ('p \<Rightarrow> string + unit) \<Rightarrow> final_proof \<Rightarrow> zk_error + unit" where
  "verify_final dec states ver fp =
     bindE (mapErr (\<lambda>e. Serialize (''deserialize ivc_proof: '' @ e)) (dec (fp_proof_bytes fp))) (\<lambda>p.
     bindE (mapErr (\<lambda>e. Ivc (''verify: '' @ e)) (ver p)) (\<lambda>_.
     if fst (states p) \<noteq> fp_z_0 fp then Inl (Ivc ''z_0 mismatch'')
     else if snd (states p) \<noteq> fp_z_n fp then Inl (Ivc ''z_n mismatch'')
     else if fp_policy_hash fp \<noteq> fp_z_n fp ! 2 then Inl (Ivc ''policy_hash mismatch'')
     else Inr ()))"

section \<open>The in-process aggregator\<close>

datatype aggregator_error = Zk zk_error | ZkText string

record 'h ivc_round_state =
  rs_acc :: "'h folding_accumulator"
  rs_round_index :: nat

record 'h inline_aggregator =
  ia_state :: "(string, 'h ivc_round_state) hash_map"
  ia_batch_size :: nat
  ia_settlement_domain :: fr

definition new_with_settlement_domain :: "nat \<Rightarrow> fr \<Rightarrow> 'h inline_aggregator" where
  "new_with_settlement_domain batch_size domain = \<lparr>ia_state = [], ia_batch_size = batch_size, ia_settlement_domain = domain\<rparr>"

definition compute_z_0 :: "sponge \<Rightarrow> external_inputs \<Rightarrow> fr \<Rightarrow> fr list" where
  "compute_z_0 sp ext domain = [0, 0, sp [xi_min_size ext, xi_min_price ext, xi_position_limit ext], domain, 0]"

definition inline_aggregate :: "aggregator_error + bytes" where
  "inline_aggregate = Inl (ZkText ''aggregate is not supported for InlineFoldingAggregator; use fold_step/finalize'')"

definition inline_fold_step ::
  "'h folding_scheme \<Rightarrow> sponge \<Rightarrow> string \<Rightarrow> external_inputs \<Rightarrow> 'h inline_aggregator
   \<Rightarrow> 'h inline_aggregator \<times> (aggregator_error + unit)" where
  "inline_fold_step F sp pair ext ag =
     (let z_0 = compute_z_0 sp ext (ia_settlement_domain ag) in
      case (case hm_get (ia_state ag) pair of
              Some r \<Rightarrow> Inr r
            | None \<Rightarrow> bindE (init_accumulator F (ia_batch_size ag) z_0) (\<lambda>acc. Inr \<lparr>rs_acc = acc, rs_round_index = 0\<rparr>)) of
        Inl e \<Rightarrow> (ag, Inl (Zk e))
      | Inr r \<Rightarrow>
          (case zk_fold_step F ext (rs_acc r) of
             (acc, Inl e) \<Rightarrow> (ag\<lparr>ia_state := hm_insert pair (r\<lparr>rs_acc := acc\<rparr>) (ia_state ag)\<rparr>, Inl (Zk e))
           | (acc, Inr _) \<Rightarrow>
               (ag\<lparr>ia_state := hm_insert pair \<lparr>rs_acc = acc, rs_round_index = rs_round_index r + 1\<rparr> (ia_state ag)\<rparr>, Inr ())))"

definition inline_finalize :: "'h folding_scheme \<Rightarrow> string \<Rightarrow> 'h inline_aggregator \<Rightarrow> aggregator_error + final_proof" where
  "inline_finalize F pair ag =
     (case hm_get (ia_state ag) pair of
        None \<Rightarrow> Inl (ZkText (''no IVC state for pair '' @ pair))
      | Some r \<Rightarrow> mapErr Zk (compress_and_finalize F (rs_acc r)))"

text \<open>\<^verbatim>\<open>NoopAggregator\<close>, which a deployment without a prover uses.\<close>

definition noop_aggregator :: aggregator where
  "noop_aggregator =
     \<lparr>ag_aggregate = (\<lambda>_ _ _ _. Inr (replicate 32 0)), ag_fold_step = (\<lambda>_ _ _. Inr ()),
      ag_finalize = (\<lambda>_ _. Inr \<lparr>fp_proof_bytes = replicate 32 0, fp_z_0 = replicate 5 0, fp_z_n = replicate 5 0,
                                fp_n_steps = 0, fp_policy_hash = 0\<rparr>)\<rparr>"

section \<open>A session\<close>

definition hypernova_ok :: "'h folding_scheme \<Rightarrow> sponge \<Rightarrow> nat \<Rightarrow> bool" where
  "hypernova_ok F sp n \<longleftrightarrow>
     (\<forall>z h. hn_init F n z = Inr h \<longrightarrow> hn_z_i F h = z) \<and>
     (\<forall>ext h h'. hn_prove_step F ext h = (h', Inr ()) \<longrightarrow> (\<exists>ok. circuit_step sp n (hn_z_i F h) ext = Some (ok, hn_z_i F h')))"

text \<open>The rounds of one pair, in order; the result says whether every one of them was folded.\<close>

fun fold_session ::
  "'h folding_scheme \<Rightarrow> sponge \<Rightarrow> string \<Rightarrow> external_inputs list \<Rightarrow> 'h inline_aggregator \<Rightarrow> 'h inline_aggregator \<times> bool" where
  "fold_session F sp pair [] ag = (ag, True)"
| "fold_session F sp pair (e # es) ag =
     (case inline_fold_step F sp pair e ag of
        (ag', Inl _) \<Rightarrow> (ag', False)
      | (ag', Inr _) \<Rightarrow> fold_session F sp pair es ag')"

definition session_rows :: "external_inputs list \<Rightarrow> settlement_row list" where
  "session_rows es = concat (map (\<lambda>e. chain_rows (xi_matches e)) es)"

text \<open>What is known of a pair's entry after the rounds \<open>es\<close>.\<close>

definition session_at :: "'h folding_scheme \<Rightarrow> sponge \<Rightarrow> fr \<Rightarrow> external_inputs list \<Rightarrow> 'h ivc_round_state \<Rightarrow> bool" where
  "session_at F sp domain es r \<longleftrightarrow>
     hn_z_i F (fa_hn (rs_acc r)) ! 3 = settlement_chain sp domain (session_rows es) \<and>
     fa_z_0 (rs_acc r) ! 3 = domain \<and> fa_n_steps (rs_acc r) = length es mod 2 ^ 64"

lemma fold_step_session:
  assumes "hypernova_ok F sp (ia_batch_size ag)" and "inline_fold_step F sp pair e ag = (ag', Inr ())"
    and "case hm_get (ia_state ag) pair of None \<Rightarrow> es = [] | Some r \<Rightarrow> session_at F sp (ia_settlement_domain ag) es r"
    and "flags_ok (xi_matches e)" and "ia_settlement_domain ag < FR_MODULUS" and "sponge_canonical sp"
  shows "\<exists>r. hm_get (ia_state ag') pair = Some r \<and> session_at F sp (ia_settlement_domain ag) (es @ [e]) r \<and>
    ia_batch_size ag' = ia_batch_size ag \<and> ia_settlement_domain ag' = ia_settlement_domain ag"
proof -
  let ?d = "ia_settlement_domain ag"
  have "\<exists>r acc. session_at F sp ?d es r \<and> zk_fold_step F e (rs_acc r) = (acc, Inr ()) \<and>
      ag' = ag\<lparr>ia_state := hm_insert pair \<lparr>rs_acc = acc, rs_round_index = rs_round_index r + 1\<rparr> (ia_state ag)\<rparr>"
  proof (cases "hm_get (ia_state ag) pair")
    case None
    then obtain acc0 where i: "init_accumulator F (ia_batch_size ag) (compute_z_0 sp e ?d) = Inr acc0"
      using assms(2) by (auto simp: inline_fold_step_def Let_def bindE_def split: sum.splits)
    then have "session_at F sp ?d [] \<lparr>rs_acc = acc0, rs_round_index = 0\<rparr>"
      using assms(1) by (auto simp: init_accumulator_def bindE_Inr hypernova_ok_def session_at_def session_rows_def compute_z_0_def
          mapErr_def split: sum.splits)
    then show ?thesis using assms(2,3) None i
      by (auto simp: inline_fold_step_def Let_def split: sum.splits prod.splits intro!: exI)
  qed (use assms(2,3) in \<open>auto simp: inline_fold_step_def Let_def split: sum.splits prod.splits\<close>)
  then obtain r acc where s: "session_at F sp ?d es r" and z: "zk_fold_step F e (rs_acc r) = (acc, Inr ())"
    and ag': "ag' = ag\<lparr>ia_state := hm_insert pair \<lparr>rs_acc = acc, rs_round_index = rs_round_index r + 1\<rparr> (ia_state ag)\<rparr>" by blast
  obtain h where h: "hn_prove_step F e (fa_hn (rs_acc r)) = (h, Inr ())"
    and acc: "acc = (rs_acc r)\<lparr>fa_hn := h, fa_n_steps := (fa_n_steps (rs_acc r) + 1) mod 2 ^ 64\<rparr>"
    using z by (auto simp: zk_fold_step_def split: prod.splits sum.splits)
  obtain ok where "circuit_step sp (ia_batch_size ag) (hn_z_i F (fa_hn (rs_acc r))) e = Some (ok, hn_z_i F h)"
    using assms(1) h unfolding hypernova_ok_def by blast
  from step_state(1) [OF this assms(4) _ assms(6)] s settlement_chain_canonical [OF assms(6,5)]
  have "hn_z_i F h ! 3 = settlement_chain sp ?d (session_rows (es @ [e]))"
    by (simp add: session_at_def session_rows_def settlement_chain_append)
  then have "session_at F sp ?d (es @ [e]) \<lparr>rs_acc = acc, rs_round_index = rs_round_index r + 1\<rparr>"
    using s by (simp add: session_at_def acc mod_Suc_eq)
  then show ?thesis by (simp add: ag' hm_get_insert)
qed

lemma fold_session_at:
  assumes "hypernova_ok F sp (ia_batch_size ag)" and "sponge_canonical sp" and "ia_settlement_domain ag < FR_MODULUS"
    and "case hm_get (ia_state ag) pair of None \<Rightarrow> past = [] | Some r \<Rightarrow> session_at F sp (ia_settlement_domain ag) past r"
    and "fold_session F sp pair es ag = (ag', True)" and "list_all (\<lambda>e. flags_ok (xi_matches e)) es"
  shows "case hm_get (ia_state ag') pair of None \<Rightarrow> past @ es = []
    | Some r \<Rightarrow> session_at F sp (ia_settlement_domain ag) (past @ es) r"
  using assms
proof (induction es arbitrary: ag past)
  case (Cons e es)
  from Cons.prems(5) obtain ag1 where 1: "inline_fold_step F sp pair e ag = (ag1, Inr ())" and 2: "fold_session F sp pair es ag1 = (ag', True)"
    by (auto split: prod.splits sum.splits)
  have "flags_ok (xi_matches e)" "list_all (\<lambda>e. flags_ok (xi_matches e)) es" using Cons.prems(6) by simp_all
  moreover from fold_step_session [OF Cons.prems(1) 1 Cons.prems(4) this(1) Cons.prems(3,2)]
  obtain r where "hm_get (ia_state ag1) pair = Some r" "session_at F sp (ia_settlement_domain ag) (past @ [e]) r"
    "ia_batch_size ag1 = ia_batch_size ag" "ia_settlement_domain ag1 = ia_settlement_domain ag" by blast
  ultimately show ?case using Cons.IH [of ag1 "past @ [e]"] Cons.prems(1-3) 2
    by (simp cong: option.case_cong del: append_assoc) (simp cong: option.case_cong)
qed (simp cong: option.case_cong)

lemma finalized_session:
  fixes F :: "'h folding_scheme"
  assumes "hypernova_ok F sp n" and "sponge_canonical sp" and "domain < FR_MODULUS"
    and "fold_session F sp pair es (new_with_settlement_domain n domain) = (ag, True)"
    and "list_all (\<lambda>e. flags_ok (xi_matches e)) es" and "inline_finalize F pair ag = Inr fp"
  shows "fp_z_0 fp ! 3 = domain" and "fp_z_n fp ! 3 = settlement_chain sp domain (session_rows es)"
    and "fp_n_steps fp = length es mod 2 ^ 64"
proof -
  let ?a = "new_with_settlement_domain n domain :: 'h inline_aggregator"
  have "case hm_get (ia_state ag) pair of None \<Rightarrow> [] @ es = [] | Some r \<Rightarrow> session_at F sp (ia_settlement_domain ?a) ([] @ es) r"
    by (rule fold_session_at [OF _ assms(2) _ _ assms(4,5)]) (use assms(1,3) in \<open>simp_all add: new_with_settlement_domain_def\<close>)
  then show "fp_z_0 fp ! 3 = domain" "fp_z_n fp ! 3 = settlement_chain sp domain (session_rows es)" "fp_n_steps fp = length es mod 2 ^ 64"
    using assms(6) by (auto simp: new_with_settlement_domain_def inline_finalize_def compress_and_finalize_def session_at_def Let_def bindE_Inr mapErr_def
        split: option.splits sum.splits if_splits)
qed

section \<open>A reference scheme\<close>

text \<open>A prover that only carries the state satisfies the interface.\<close>

definition scheme_ref :: "sponge \<Rightarrow> nat \<Rightarrow> fr list folding_scheme" where
  "scheme_ref sp n =
     \<lparr>hn_init = (\<lambda>_ z. Inr z),
      hn_prove_step = (\<lambda>ext z. case circuit_step sp n z ext of None \<Rightarrow> (z, Inl ''panic'') | Some (ok, z') \<Rightarrow> (z', Inr ())),
      hn_z_i = id, hn_serialize = (\<lambda>_. Inr [])\<rparr>"

lemma scheme_ref_ok: "hypernova_ok (scheme_ref sp n) sp n"
  by (auto simp: hypernova_ok_def scheme_ref_def split: option.splits)

lemma scheme_ref_session:
  assumes "list_all (\<lambda>e. \<forall>z. \<exists>ok z'. circuit_step sp n z e = Some (ok, z') \<and> length z' = 5) es" and "ia_batch_size ag = n"
    and "\<forall>r. hm_get (ia_state ag) pair = Some r \<longrightarrow> length (fa_hn (rs_acc r)) = 5"
  shows "\<exists>ag'. fold_session (scheme_ref sp n) sp pair es ag = (ag', True) \<and>
    (es \<noteq> [] \<or> hm_get (ia_state ag) pair \<noteq> None \<longrightarrow> (\<exists>fp. inline_finalize (scheme_ref sp n) pair ag' = Inr fp))"
  using assms
proof (induction es arbitrary: ag)
  case Nil
  then show ?case by (auto simp: inline_finalize_def compress_and_finalize_def scheme_ref_def mapErr_def Let_def)
next
  case (Cons e es)
  have ok: "\<forall>z. \<exists>ok z'. circuit_step sp n z e = Some (ok, z') \<and> length z' = 5"
    "list_all (\<lambda>e. \<forall>z. \<exists>ok z'. circuit_step sp n z e = Some (ok, z') \<and> length z' = 5) es" using Cons.prems(1) by simp_all
  have "\<exists>ag1 r. inline_fold_step (scheme_ref sp n) sp pair e ag = (ag1, Inr ()) \<and> ia_batch_size ag1 = n \<and>
      hm_get (ia_state ag1) pair = Some r \<and> length (fa_hn (rs_acc r)) = 5"
  proof (cases "hm_get (ia_state ag) pair")
    case None
    obtain ok z' where "circuit_step sp n (compute_z_0 sp e (ia_settlement_domain ag)) e = Some (ok, z')" "length z' = 5"
      using ok(1) by blast
    then show ?thesis using None Cons.prems(2)
      by (simp add: inline_fold_step_def init_accumulator_def zk_fold_step_def scheme_ref_def mapErr_def hm_get_insert)
  next
    case (Some r)
    obtain ok z' where "circuit_step sp n (fa_hn (rs_acc r)) e = Some (ok, z')" "length z' = 5"
      using ok(1) by blast
    then show ?thesis using Some Cons.prems(2)
      by (simp add: inline_fold_step_def zk_fold_step_def scheme_ref_def hm_get_insert)
  qed
  then obtain ag1 r where "inline_fold_step (scheme_ref sp n) sp pair e ag = (ag1, Inr ())" "ia_batch_size ag1 = n"
    "hm_get (ia_state ag1) pair = Some r" "length (fa_hn (rs_acc r)) = 5" by blast
  with Cons.IH [OF ok(2), of ag1] show ?case by simp
qed

end
