(* ===== verification/SettlementProps.thy ===== *)
theory SettlementProps
  imports Settlement DarkPoolProps Aggregator
begin

text \<open>
  Settlement end to end: the engine's batches, the prover's session, the submitter and the contract
  together. One property says that the parts agree on what a settled leg is; the others say where they
  do not fit: a session accumulates every round of its pair while a batch carries one, the submitter
  cannot resume between its two transactions, and the contract settles an auction once while the engine
  cuts it into several batches.
\<close>

section \<open>The legs\<close>

text \<open>The leg of a match as the prover encodes it.\<close>

definition prover_row :: "dec_ops \<Rightarrow> settlement_match \<Rightarrow> settlement_row" where
  "prover_row D m =
     (let sc = (\<lambda>d. case decimal_to_scalar D d of Inl _ \<Rightarrow> 0 | Inr v \<Rightarrow> v)
      in \<lparr>sr_bid_addr = sm_bid_trader m, sr_ask_addr = sm_ask_trader m, sr_price = sc (sm_price m), sr_size = sc (sm_size m)\<rparr>)"

definition settleable :: "settlement_match \<Rightarrow> bool" where
  "settleable m \<longleftrightarrow> encodable (sm_price m) \<and> encodable (sm_size m) \<and> sm_bid_trader m < 2 ^ 160 \<and> sm_ask_trader m < 2 ^ 160"

lemma encodable_scalar_bound:
  assumes "encodable d"
  shows "nat \<lfloor>d * 10 ^ 8\<rfloor> < 2 ^ 60"
proof -
  define n where "n = \<lfloor>d * 10 ^ 8\<rfloor>"
  have "of_int n < (of_int (2 ^ 60) :: rat)" using assms by (simp add: n_def encodable_def is_multiple_def)
  then have "n < 2 ^ 60" by (simp only: of_int_less_iff)
  then have "nat n < 2 ^ 60" by simp
  then show ?thesis by (simp only: n_def)
qed

lemma to_sol_row:
  assumes "dec_exact D" and "settleable m"
  shows "\<exists>x. settlement_match_to_sol D m = Some (Inr x) \<and> wei_exact x \<and> circuit_row x = prover_row D m"
proof -
  have e: "encodable (sm_price m)" "encodable (sm_size m)" "sm_bid_trader m < 2 ^ 160" "sm_ask_trader m < 2 ^ 160"
    using assms(2) by (simp_all add: settleable_def)
  note w = decimal_to_wei_encodable [OF assms(1) e(1)] decimal_to_wei_encodable [OF assms(1) e(2)]
  note d = decimal_to_scalar_encodable [OF assms(1) e(1)] decimal_to_scalar_encodable [OF assms(1) e(2)]
  have b: "nat \<lfloor>sm_price m * 10 ^ 8\<rfloor> < 2 ^ 60" "nat \<lfloor>sm_size m * 10 ^ 8\<rfloor> < 2 ^ 60" using encodable_scalar_bound e(1,2) by blast+
  have s: "WEI_TO_CIRCUIT_SCALE * n mod WEI_TO_CIRCUIT_SCALE = 0" "WEI_TO_CIRCUIT_SCALE * n div WEI_TO_CIRCUIT_SCALE = n" for n
    by (simp_all add: WEI_TO_CIRCUIT_SCALE_def)
  have u: "WEI_TO_CIRCUIT_SCALE * n < 2 ^ 256" if "n < 2 ^ 60" for n using that by (simp add: WEI_TO_CIRCUIT_SCALE_def)
  have a: "unat (of_nat k :: eaddr) = k" if "k < 2 ^ 160" for k using that by (simp add: unat_of_nat take_bit_eq_mod)
  show ?thesis
    unfolding settlement_match_to_sol_def w bindO_simps
    using s(1) u b a e(3,4) by (simp add: wei_exact_def circuit_row_def prover_row_def Let_def d s(2))
qed

lemma to_sol_rows:
  assumes "dec_exact D"
  shows "list_all settleable ms \<Longrightarrow>
    \<exists>xs. sol_matches D ms = Some (Inr xs) \<and> list_all wei_exact xs \<and> map circuit_row xs = map (prover_row D) ms"
proof (induction ms)
  case (Cons m ms)
  then obtain xs where "sol_matches D ms = Some (Inr xs)" "list_all wei_exact xs" "map circuit_row xs = map (prover_row D) ms" by auto
  moreover obtain x where "settlement_match_to_sol D m = Some (Inr x)" "wei_exact x" "circuit_row x = prover_row D m"
    using to_sol_row [OF assms] Cons.prems by auto
  ultimately show ?case by simp
qed simp

text \<open>What the two implementations of the hash have to agree on.\<close>

definition hash_agrees :: "sponge \<Rightarrow> bool" where
  "hash_agrees sp \<longleftrightarrow>
     (\<forall>v x y z c. v < FR_MODULUS \<and> x < FR_MODULUS \<and> y < FR_MODULUS \<and> z < FR_MODULUS \<and> c < FR_MODULUS \<longrightarrow>
        sp [v, x, y, z, c] = poseidon5 v x y z c)"

text \<open>C13. The parts agree on what a settled leg is: every batch of encodable matches converts into contract matches,
  and the chain the contract recomputes over them is the settlement chain over the legs as the prover
  encodes them, provided the two implementations of the hash agree.\<close>

theorem contract_recomputes_the_proved_chain:
  assumes "dec_exact D" and "hash_agrees sp" and "list_all settleable ms" and "length ms \<le> MAX_MATCHES_PER_BATCH"
    and "settlementDomain s < FR_MODULUS"
  shows "\<exists>xs. build_sol_matches D ms = Some (Inr xs) \<and>
    settlementChain xs s = Inr (settlement_chain sp (settlementDomain s) (map (prover_row D) ms))"
proof -
  obtain xs where xs: "sol_matches D ms = Some (Inr xs)" "list_all wei_exact xs" "map circuit_row xs = map (prover_row D) ms"
    using to_sol_rows [OF assms(1,3)] by blast
  have "settlementChain xs s = Inr (settlement_chain sp (settlementDomain s) (map circuit_row xs))"
    unfolding settlementChain_def by (rule chain_from_native [OF assms(2) [unfolded hash_agrees_def] xs(2) assms(5)])
  then show ?thesis using xs(1,3) assms(4) by (simp add: build_sol_matches_def)
qed

definition sponge_sol :: sponge where
  "sponge_sol xs = (if length xs = 5 then poseidon5 (xs ! 0) (xs ! 1) (xs ! 2) (xs ! 3) (xs ! 4) else 0)"

lemma sponge_sol_ok: "hash_agrees sponge_sol" "sponge_canonical sponge_sol"
  using poseidon5_field fr_pos by (simp_all add: hash_agrees_def sponge_sol_def sponge_canonical_def numeral_eq_Suc)

lemma pool0_domain: "settlementDomain pool0 < FR_MODULUS"
  by (simp add: pool0_def settlement_domain_def FR_MODULUS_def SNARK_SCALAR_FIELD_def)

definition smatch_ref :: settlement_match where
  "smatch_ref = \<lparr>sm_bid_order_id = 1, sm_ask_order_id = 2, sm_bid_trader = 11, sm_ask_trader = 12, sm_base_token = 7,
     sm_quote_token = 8, sm_price = 1, sm_size = 1\<rparr>"

lemma settleable_ref: "settleable smatch_ref"
  by (simp add: settleable_def smatch_ref_def encodable_def is_multiple_def)

theorem contract_recomputes_the_proved_chain_witness:
  "\<exists>xs. build_sol_matches dec_ref [smatch_ref] = Some (Inr xs) \<and>
    settlementChain xs pool0 = Inr (settlement_chain sponge_sol (settlementDomain pool0) [prover_row dec_ref smatch_ref])"
  using contract_recomputes_the_proved_chain [OF dec_exact_ref sponge_sol_ok(1), of "[smatch_ref]" pool0] settleable_ref pool0_domain
  by (simp add: MAX_MATCHES_PER_BATCH_def)

section \<open>Sessions\<close>

lemma submitSession_run:
  "submitSession X m w i pf z0 zN k ph s = Inr s1 \<Longrightarrow>
     sessionSubmitted_of X s1 i \<and> sessionSettlementAcc_of X s1 i = zN ! 3 \<and> settlementDomain s1 = settlementDomain s \<and>
     z0 ! 3 = settlementDomain s \<and> \<not> sessionSubmitted_of X s i"
  by (auto simp: submitSession_def guard_defs evm_ok Let_def sessionSubmitted_of_def sessionSettlementAcc_of_def)

text \<open>C14. A session proves the whole history of its pair: its accumulator covers every round folded since the pair's
  first one, since finalising does not start a new session. So, whatever happens in between, the contract
  settles under it only a list of legs with the same chain as all of those rounds together; the matches
  of the last batch alone would have to collide with them.\<close>

theorem session_settles_only_its_whole_history:
  assumes "hypernova_ok F sp n" and "sponge_canonical sp" and "hash_agrees sp" and "settlementDomain s < FR_MODULUS"
    and "fold_session F sp pair es (new_with_settlement_domain n (settlementDomain s)) = (ag, True)"
    and "list_all (\<lambda>e. flags_ok (xi_matches e)) es" and "inline_finalize F pair ag = Inr fp"
    and "submitSession X m w i pf (fp_z_0 fp) (fp_z_n fp) k ph s = Inr s1" and "later X (s1, w) (s2, w2)"
  shows "sessionSettlementAcc_of X s2 i = settlement_chain sp (settlementDomain s) (session_rows es) \<and>
    (settleAuction X m' w2 i a ms s2 = Inr s3 \<and> list_all wei_exact ms \<longrightarrow>
      settlement_chain sp (settlementDomain s) (map circuit_row ms) = settlement_chain sp (settlementDomain s) (session_rows es))"
proof -
  note f = finalized_session [OF assms(1,2,4,5,6,7)]
  note s1 = submitSession_run [OF assms(8)]
  have g: "guards_kept s1 s2" using later_guards [OF assms(9)] by simp
  have acc: "sessionSettlementAcc_of X s2 i = settlement_chain sp (settlementDomain s) (session_rows es)"
    using g s1 f(2) by (simp add: guards_kept_def sessionSettlementAcc_of_def sessionSubmitted_of_def)
  moreover have "settlement_chain sp (settlementDomain s) (map circuit_row ms) = sessionSettlementAcc_of X s2 i"
    if "settleAuction X m' w2 i a ms s2 = Inr s3" and ms: "list_all wei_exact ms"
  proof -
    have d: "settlementDomain s2 = settlementDomain s" using g s1 by (simp add: guards_kept_def)
    have "settlementChain ms s2 = Inr (settlement_chain sp (settlementDomain s) (map circuit_row ms))"
      unfolding settlementChain_def d by (rule chain_from_native [OF assms(3) [unfolded hash_agrees_def] ms assms(4)])
    then show ?thesis using settleAuction_run [OF that(1)] by simp
  qed
  ultimately show ?thesis by simp
qed

text \<open>Two rounds with the same match, and a contract ready for the session.\<close>

definition row3 :: circuit_match where
  "row3 = \<lparr>cm_bid = (circuit_leg_default 0)\<lparr>cl_trader_addr := 11\<rparr>, cm_ask = (circuit_leg_default 1)\<lparr>cl_trader_addr := 12\<rparr>,
     cm_price = 10 ^ 8, cm_size = 10 ^ 8, cm_is_active = 1\<rparr>"

definition leg3 :: settlement_row where
  "leg3 = \<lparr>sr_bid_addr = 11, sr_ask_addr = 12, sr_price = 10 ^ 8, sr_size = 10 ^ 8\<rparr>"

definition pool4 :: pool where
  "pool4 = pool0\<lparr>operators := (\<lambda>u. u = 1), ivcEnabled := True, ivcVerifier := 70\<rparr>"

lemma step_defined: "length (xi_matches e) \<le> 8 \<Longrightarrow> \<exists>ok z'. circuit_step sp 8 z e = Some (ok, z') \<and> length z' = 5"
  by (simp add: circuit_step_def alloc_rows_def generate_step_constraints_def IVC_BATCH_SIZE_def Let_def)

lemma submitSession4:
  assumes "z0 ! 3 = settlementDomain pool4"
  shows "\<exists>s1. submitSession chain_ref (by_at 1 2000) w 5 [] z0 zN k (zN ! 2) pool4 = Inr s1"
proof -
  have "operators pool4 1" "\<not> pool_paused pool4" "ivcEnabled pool4" "\<not> sessionSubmitted pool4 i" "ivcVerifier pool4 = 70" for i
    by (simp_all add: pool4_def pool0_def)
  moreover have "x_verify_ivc chain_ref v p a b c d = Some True" for v p a b c d by (simp add: chain_ref_def)
  ultimately show ?thesis using assms by (simp add: submitSession_def guard_defs require_def Let_def by_at_def ok_or_def)
qed

theorem session_settles_only_its_whole_history_witness:
  "\<exists>(fp :: final_proof) s1. submitSession chain_ref (by_at 1 2000) world1 5 [] (fp_z_0 fp) (fp_z_n fp) 2 (fp_z_n fp ! 2) pool4 = Inr s1 \<and>
     sessionSettlementAcc_of chain_ref s1 5 = settlement_chain sponge_sol (settlementDomain pool4) [leg3, leg3] \<and>
     (\<forall>s3. settleAuction chain_ref (by_at 1 2000) world1 5 6 [match3 7] s1 = Inr s3 \<longrightarrow>
        settlement_chain sponge_sol (settlementDomain pool4) [leg3] = settlement_chain sponge_sol (settlementDomain pool4) [leg3, leg3])"
proof -
  let ?es = "[ext_ref [row3], ext_ref [row3]]" and ?F = "scheme_ref sponge_sol 8" and ?d = "settlementDomain pool4"
  let ?a = "new_with_settlement_domain 8 ?d :: fr list inline_aggregator"
  have d: "?d < FR_MODULUS" using pool0_domain by (simp add: pool4_def)
  have fl: "list_all (\<lambda>e. flags_ok (xi_matches e)) ?es" by (simp add: ext_ref_def flags_ok_def row3_def)
  have "list_all (\<lambda>e. \<forall>z. \<exists>ok z'. circuit_step sponge_sol 8 z e = Some (ok, z') \<and> length z' = 5) ?es"
    by (auto simp: list_all_iff ext_ref_def intro!: step_defined)
  then obtain ag fp where f: "fold_session ?F sponge_sol [] ?es ?a = (ag, True)" and p: "inline_finalize ?F [] ag = Inr fp"
    using scheme_ref_session [of sponge_sol 8 ?es ?a "[]"] by (auto simp: new_with_settlement_domain_def)
  obtain s1 where s1: "submitSession chain_ref (by_at 1 2000) world1 5 [] (fp_z_0 fp) (fp_z_n fp) 2 (fp_z_n fp ! 2) pool4 = Inr s1"
    using submitSession4 finalized_session(1) [OF scheme_ref_ok sponge_sol_ok(2) d f fl p] by blast
  have r: "session_rows ?es = [leg3, leg3]"
    by (simp add: session_rows_def chain_rows_def is_row_def ext_ref_def row3_def chain_row_def leg3_def)
  have m: "map circuit_row [match3 7] = [leg3]" "list_all wei_exact [match3 7]"
    by (simp_all add: circuit_row_def match3_def leg3_def WEI_TO_CIRCUIT_SCALE_def wei_exact_def)
  note h = session_settles_only_its_whole_history [where m' = "by_at 1 2000" and a = 6 and ms = "[match3 7]",
      OF scheme_ref_ok sponge_sol_ok(2,1) d f fl p s1 later.refl, unfolded r m(1)]
  show ?thesis
  proof (intro exI conjI allI impI)
    show "submitSession chain_ref (by_at 1 2000) world1 5 [] (fp_z_0 fp) (fp_z_n fp) 2 (fp_z_n fp ! 2) pool4 = Inr s1" by (rule s1)
    show "sessionSettlementAcc_of chain_ref s1 5 = settlement_chain sponge_sol ?d [leg3, leg3]" by (rule h [THEN conjunct1])
    fix s3 assume "settleAuction chain_ref (by_at 1 2000) world1 5 6 [match3 7] s1 = Inr s3"
    then show "settlement_chain sponge_sol ?d [leg3] = settlement_chain sponge_sol ?d [leg3, leg3]"
      using h [THEN conjunct2, of s3] m(2) by blast
  qed
qed

section \<open>Two transactions\<close>

text \<open>C39. The submitter cannot resume a session: once the first of its two transactions was mined and the second was
  not, every further attempt for the same batch stops at the first one, whatever happens to the contract
  in between; the second is never sent again.\<close>

theorem half_settled_session_is_stuck:
  assumes "node_ok X P view" and "sessionSubmitted_of X (fst (view w)) (be_nat (uuid_to_bytes32 (sp_session_id prm)))"
    and "later X (view w) (view w1)" and "eth_submit_session D S P prm w1 = Some (w2, r)"
  shows "(\<exists>e. r = Inl e) \<and> sessionSubmitted_of X (fst (view w2)) (be_nat (uuid_to_bytes32 (sp_session_id prm)))"
proof -
  let ?i = "be_nat (uuid_to_bytes32 (sp_session_id prm))"
  have kept: "sessionSubmitted_of X (fst b) ?i" if "later X a b" "sessionSubmitted_of X (fst a) ?i" for a b
    using later_guards [OF that(1)] that(2) by (simp add: guards_kept_def sessionSubmitted_of_def)
  have sub1: "sessionSubmitted_of X (fst (view w1)) ?i" using assms(2,3) by (rule kept [rotated])
  show ?thesis
  proof (cases "sol_matches D (sp_matches prm)")
    case (Some r0)
    show ?thesis
    proof (cases "(\<exists>e. r0 = Inl e) \<or> (\<exists>ms. r0 = Inr ms \<and> MAX_MATCHES_PER_BATCH < length ms)")
      case True
      then show ?thesis using assms(4) Some sub1 by (auto simp: eth_submit_session_def)
    next
      case False
      then obtain ms where ms: "r0 = Inr ms" "\<not> MAX_MATCHES_PER_BATCH < length ms" by (cases r0) auto
      define ss where "ss = (\<lambda>x. request S (SubmitSession ?i (sp_proof prm) (sp_z_0 prm) (sp_z_n prm) (sp_n_steps prm) (be_nat (sp_policy_hash prm)))
        (fst x) (fst (snd x)) (snd (snd x)))"
      define k where "k = (\<lambda>x (_ :: string). if fst x + 1 < 2 ^ 64 then send_and_wait P (request S (SettleAuction ?i (be_nat (uuid_to_bytes32 (sp_auction_id prm))) ms)
        (fst x + 1) (fst (snd x)) (snd (snd x))) else failR (Rpc ''operator nonce overflow''))"
      have r: "bindR (fetch_fees S P) (\<lambda>x. bindR (send_and_wait P (ss x)) (k x)) w1 = (w2, r)"
        using assms(4) Some ms by (simp add: eth_submit_session_def Let_def case_prod_unfold ss_def k_def)
      have "forward X view (k x y)" for x y by (simp add: k_def forward_send [OF assms(1)] forward_basic)
      then have "forward X view (bindR (fetch_fees S P) (\<lambda>x. bindR (send_and_wait P (ss x)) (k x)))"
        using forward_fees [OF assms(1)] forward_send [OF assms(1)] by (intro forward_bind)
      from this [unfolded forward_def, rule_format, of w1] have l: "later X (view w1) (view w2)" unfolding r by simp
      have "False" if th: "r = Inr th" for th
      proof -
        obtain wf x wg y where f: "fetch_fees S P w1 = (wf, Inr x)" "send_and_wait P (ss x) wf = (wg, Inr y)"
          using r th unfolding bindR_def by (auto split: prod.splits sum.splits)
        obtain m sw sw' where e: "later X (view wf) sw" "exec X m (tr_call (ss x)) sw = Inr sw'"
          using sent_call_ran [OF assms(1) f(2)] by blast
        have "later X (view w1) (view wf)"
          using forward_fees [OF assms(1), of S, unfolded forward_def, rule_format, of w1] f(1) by simp
        then have "sessionSubmitted_of X (fst sw) ?i" using kept e(1) sub1 by blast
        moreover obtain s' where "submitSession X m (snd sw) ?i (sp_proof prm) (sp_z_0 prm) (sp_z_n prm) (sp_n_steps prm) (be_nat (sp_policy_hash prm)) (fst sw) = Inr s'"
          using e(2) by (auto simp: exec_def request_def ss_def bindE_Inr)
        ultimately show False using submitSession_run [of X m "snd sw" ?i] by metis
      qed
      then show ?thesis using kept [OF l sub1] by (cases r) auto
    qed
  qed (use assms(4) in \<open>simp add: eth_submit_session_def\<close>)
qed

text \<open>A node with one pending transaction: a request runs at once, and its receipt says how it ended.\<close>

definition node_ref :: "'c chain \<Rightarrow> ((pool \<times> 'c) \<times> bool) provider" where
  "node_ref X =
     \<lparr>rpc_nonce = (\<lambda>_ w. (w, Inr 0)), rpc_latest = (\<lambda>w. (w, Inr (Some (Some 1)))), rpc_tip = (\<lambda>w. (w, Inr 1)),
      rpc_send = (\<lambda>q (sw, _). case exec X (by_at (tr_from q) 2000) (tr_call q) sw of
        Inl _ \<Rightarrow> ((sw, False), Inr 0) | Inr sw' \<Rightarrow> ((sw', True), Inr 0)),
      rpc_receipt = (\<lambda>_ w. (w, Inr (snd w, NOOP_HASH)))\<rparr>"

lemma exec_later: "exec X m c sw = Inr sw' \<Longrightarrow> later X sw sw'"
  using later.call [OF later.refl, of X sw m c] by (simp add: tx_def)

lemma node_ref_ok: "node_ok X (node_ref X) fst"
proof -
  have s: "later X (fst w) (fst (fst (rpc_send (node_ref X) q w)))" for q w
    by (cases w) (auto simp: node_ref_def later.refl exec_later split: sum.split)
  have "\<exists>m sw sw'. later X (fst w) sw \<and> msg_sender m = tr_from q \<and> exec X m (tr_call q) sw = Inr sw'"
    if a: "rpc_send (node_ref X) q w = (w1, Inr h)" and b: "rpc_receipt (node_ref X) h w1 = (w2, Inr (True, th))" for q w w1 h w2 th
  proof -
    obtain sw' where "exec X (by_at (tr_from q) 2000) (tr_call q) (fst w) = Inr sw'"
      using a b by (cases w) (auto simp: node_ref_def split: sum.splits)
    then have "later X (fst w) (fst w) \<and> msg_sender (by_at (tr_from q) 2000) = tr_from q \<and>
        exec X (by_at (tr_from q) 2000) (tr_call q) (fst w) = Inr sw'" by (simp add: by_at_def later.refl)
    then show ?thesis by blast
  qed
  then show ?thesis using s unfolding node_ok_def by (auto simp: node_ref_def later.refl)
qed

definition session_ref :: submit_session_params where
  "session_ref = \<lparr>sp_session_id = 5, sp_proof = [], sp_z_0 = replicate 5 0, sp_z_n = replicate 5 0, sp_n_steps = 1,
     sp_policy_hash = [], sp_auction_id = 6, sp_matches = [smatch_ref]\<rparr>"

theorem half_settled_session_is_stuck_witness:
  "settleAuction chain_ref (by_at 1 2000) world1 5 6 [match3 7] pool3 = Inr (settled3 7) \<and>
   (\<exists>w2 e. eth_submit_session dec_ref (with_submit_provider 1 100 1 None) (node_ref chain_ref) session_ref ((pool3, world1), False) = Some (w2, Inl e))"
proof -
  let ?S = "with_submit_provider 1 100 1 None" and ?w = "((pool3, world1), False)"
  have "sessionSubmitted_of chain_ref (fst (fst ?w)) (be_nat (uuid_to_bytes32 (sp_session_id session_ref)))"
    by (simp add: sessionSubmitted_of_def pool3_def)
  note stuck = half_settled_session_is_stuck [OF node_ref_ok this later.refl]
  obtain x where "settlement_match_to_sol dec_ref smatch_ref = Some (Inr x)" using to_sol_row [OF dec_exact_ref settleable_ref] by blast
  then have "sol_matches dec_ref (sp_matches session_ref) = Some (Inr [x])" by (simp add: session_ref_def)
  then have "\<exists>w2 r. eth_submit_session dec_ref ?S (node_ref chain_ref) session_ref ?w = Some (w2, r)"
    by (simp add: eth_submit_session_def MAX_MATCHES_PER_BATCH_def Let_def)
  then show ?thesis using stuck settleAuction3 by blast
qed

section \<open>Several batches of one auction\<close>

lemma chunks_many: "0 < n \<Longrightarrow> n < length xs \<Longrightarrow> 1 < length (chunks n xs)"
proof (cases xs)
  case (Cons x ys)
  moreover assume "0 < n" "n < length xs"
  ultimately have "drop (n - 1) ys \<noteq> []" by simp
  then obtain y zs where "drop (n - 1) ys = y # zs" by (cases "drop (n - 1) ys") auto
  then show ?thesis by (simp add: Cons)
qed simp

lemma round_auction_id: "q \<in> set (round_aggregations n now bid r orders admitted) \<Longrightarrow> pa_auction_id q = res_auction_id r"
  by (auto simp: round_aggregations_def)

text \<open>C40. A round with more matches than a batch holds cannot settle in full: the engine cuts it into several batches
  of the same auction, and once one of them settled, through either arm, the contract refuses every other
  one for good.\<close>

theorem one_batch_of_a_round_settles:
  assumes "0 < n" and "n < length (matches r)" and "p \<in> set (round_aggregations n now bid r orders admitted)"
    and "submitBatch X m w b (be_nat (uuid_to_bytes32 (pa_auction_id p))) pf pis ms s = Inr s1 \<or>
         settleAuction X m w i (be_nat (uuid_to_bytes32 (pa_auction_id p))) ms s = Inr s1"
    and "later X (s1, w) (s2, w2)"
  shows "1 < length (round_aggregations n now bid r orders admitted) \<and>
    (\<forall>q\<in>set (round_aggregations n now bid r orders admitted).
      (\<exists>e. submitBatch X m' w2 b' (be_nat (uuid_to_bytes32 (pa_auction_id q))) pf' pis' ms' s2 = Inl e) \<and>
      (\<exists>e. settleAuction X m' w2 i' (be_nat (uuid_to_bytes32 (pa_auction_id q))) ms' s2 = Inl e))"
proof -
  have "1 < length (round_aggregations n now bid r orders admitted)"
    unfolding round_aggregations_def length_map length_enumerate by (rule chunks_many) (use assms(1,2) in simp_all)
  moreover have "pa_auction_id q = pa_auction_id p" if "q \<in> set (round_aggregations n now bid r orders admitted)" for q
    using round_auction_id assms(3) that by metis
  ultimately show ?thesis using settled_is_final [OF assms(4,5)] by simp
qed

definition round3 :: auction_result where
  "round3 = (let m = \<lparr>m_bid = \<lparr>fill_order_id = 1, fill_size = 1\<rparr>, m_ask = \<lparr>fill_order_id = 2, fill_size = 1\<rparr>, m_price = 1, m_size = 1\<rparr>
     in \<lparr>res_auction_id = 6, res_pair = [], clearing_price = 1, matched_volume = 2, matches = [m, m]\<rparr>)"

theorem one_batch_of_a_round_settles_witness:
  "map pa_auction_id (round_aggregations 1 0 id round3 [] []) = [6, 6] \<and>
   settleAuction chain_ref (by_at 1 2000) world1 5 6 [match3 7] pool3 = Inr (settled3 7) \<and>
   (\<exists>e. settleAuction chain_ref (by_at 1 3000) world1 7 6 [match3 9] (settled3 7) = Inl e)"
proof -
  have a: "map pa_auction_id (round_aggregations 1 0 id round3 [] []) = [6, 6]"
    by (simp add: round_aggregations_def round3_def Let_def enumerate_eq_zip)
  have "6 \<in> set (map pa_auction_id (round_aggregations 1 0 id round3 [] []))" unfolding a by simp
  then obtain p where p: "p \<in> set (round_aggregations 1 0 id round3 [] [])" "pa_auction_id p = 6" unfolding set_map by (elim imageE) (rule that, assumption, rule sym)
  have six: "be_nat (uuid_to_bytes32 6) = 6" by (rule uuid_bytes32(1)) simp
  have "settleAuction chain_ref (by_at 1 2000) world1 5 (be_nat (uuid_to_bytes32 (pa_auction_id p))) [match3 7] pool3 = Inr (settled3 7)"
    unfolding p(2) six by (rule settleAuction3)
  note h = one_batch_of_a_round_settles [OF _ _ p(1) disjI2 [OF this] later.refl]
  have "\<exists>e. settleAuction chain_ref (by_at 1 3000) world1 7 (be_nat (uuid_to_bytes32 (pa_auction_id p))) [match3 9] (settled3 7) = Inl e"
    using h p(1) by (simp add: round3_def Let_def)
  then show ?thesis using a settleAuction3 unfolding p(2) six by blast
qed

end
