(* ===== verification/Spec2Isabelle.thy ===== *)
theory Spec2Isabelle
  imports RecoveryProps SettlementProps
begin

text \<open>
  \<^bold>\<open>A verification development of the dark pool exchange.\<close>

  The exchange takes encrypted limit orders, matches them in periodic uniform-price auctions, proves each
  round in zero knowledge and settles it in a smart contract. The engine (\<^verbatim>\<open>crates/dp-engine\<close>) keeps the
  order book, the pair registry and the pending batches in memory, and logs every change as an event
  before it applies it (\<^verbatim>\<open>crates/dp-event\<close>, \<^verbatim>\<open>crates/dp-book\<close>). A tick expires orders, runs one auction
  per pair (\<^verbatim>\<open>crates/dp-auction\<close>), builds the witness of each batch of matches (\<^verbatim>\<open>crates/dp-zk\<close>), folds it
  (\<^verbatim>\<open>crates/dp-aggregator\<close>) and hands finished batches to the submitter (\<^verbatim>\<open>crates/dp-settlement\<close>), which
  calls the contract (\<^verbatim>\<open>contracts/src/DarkPool.sol\<close>). On restart the state is rebuilt from the newest
  sealed snapshot and the log after it.

  \<^bold>\<open>Conventions.\<close> A struct is a record, an enum a datatype. A \<^verbatim>\<open>HashMap\<close> is an association list with the
  operations \<open>hm_get\<close>, \<open>hm_insert\<close>, \<open>hm_remove\<close>, so that iteration order is explicit; a Solidity mapping is a
  total function. Stateful code passes its state explicitly, and the operations that release a lock in
  the middle are one definition per critical section. A fallible operation returns a sum whose left side
  is the error; a panic is \<open>None\<close> or a constructor of its own. A \<^verbatim>\<open>Decimal\<close> is its rational value and the
  arithmetic of the crate is a parameter with the law \<open>dec_exact\<close>; a byte is an \<open>8 word\<close>, an Ethereum address
  a \<open>160 word\<close>; other machine integers are \<open>nat\<close> or \<open>int\<close> with the wrap-around or the check written out; a field
  element is its canonical representative. Identifiers and the clock are arguments.

  \<^bold>\<open>Parameters.\<close> Code outside the repository is an argument of the definitions that use it, with what is
  relied on as a named hypothesis: decimal arithmetic (\<open>dec_exact\<close>), the engine's collaborators such as the
  decrypter, the proof verifier, the oracle and the sponge (\<open>collab_ok\<close>), the event codec of the file store
  (inside \<open>file_inv\<close>), the snapshot cipher and state codec, the folding scheme (\<open>hypernova_ok\<close>), ERC-20 tokens
  (\<open>erc20_ok\<close>), the RPC node (\<open>node_ok\<close>), the agreement of the two hash implementations (\<open>hash_agrees\<close>). Each hypothesis is shown to hold for a concrete instance, which the witnesses use.

  \<^bold>\<open>Theories.\<close>
  \<^item> \<open>Prelude\<close>, \<open>Decimals\<close>: association lists, error results, sorting, decimals and their head room.
  \<^item> \<open>Types\<close> (\<^verbatim>\<open>dp-types\<close>): sides, orders, canonical pairs, error values.
  \<^item> \<open>Auction\<close> (\<^verbatim>\<open>dp-auction\<close>): \<^verbatim>\<open>run\<close> with the clearing price scan, the two sorts and the matching loops. The
    price maximises the crossing volume; no order is overfilled; limits, price-time priority and the
    self-trade rule hold; a crossing book clears; the arithmetic is exact on encodable orders.
  \<^item> \<open>Events\<close>, \<open>Book\<close> (\<^verbatim>\<open>dp-event\<close>, \<^verbatim>\<open>dp-book\<close>): the store trait as a record of operations, its contract as the
    locale \<open>event_store\<close> with the in-memory store (\<open>mem\<close>) and the file store (\<open>fstore\<close>) as interpretations; the
    book as levels and index, refined to an order table; replay.
  \<^item> \<open>FileStore\<close>, \<open>FileDurability\<close> (\<^verbatim>\<open>file_store.rs\<close>): the record format over a file with faults and crashes.
    After any fault and crash, reopening yields the old events and a prefix of the new ones.
  \<^item> \<open>Encoding\<close>, \<open>Merkle\<close>, \<open>ZkRows\<close>, \<open>StepCircuit\<close> (\<^verbatim>\<open>dp-zk\<close>): scalar encodings, commitments, the admitted-set tree,
    the rows of a folding step, and its constraint system. Membership proofs verify and bind; a
    satisfied step is sound, with the two gaps stated as properties.
  \<^item> \<open>EngineState\<close>, \<open>Engine\<close>, \<open>Batch\<close>, \<open>Tick\<close>, \<open>Recover\<close>, \<open>Snapshot\<close> (\<^verbatim>\<open>dp-engine\<close>): one definition per operation or
    critical section of \<^verbatim>\<open>engine.rs\<close>, \<^verbatim>\<open>batch.rs\<close>, \<^verbatim>\<open>tick.rs\<close>, \<^verbatim>\<open>recover.rs\<close>, \<^verbatim>\<open>snapshot.rs\<close>.
  \<^item> \<open>Projection\<close>, \<open>EngineInv\<close>, \<open>EngineSteps\<close>, \<open>EngineRuns\<close>, \<open>EngineReach\<close>, \<open>EngineEffects\<close>: the state as a projection of
    its event history, the invariant of the engine, that every operation keeps both, and the reachable
    engines as an inductive step relation.
  \<^item> \<open>Sample\<close>, \<open>EngineProps\<close>, \<open>RecoveryProps\<close>: a concrete engine for the witnesses; the properties of placement,
    rounds, expiry, delisting, capacity and single use; recovery from the log and from a snapshot.
  \<^item> \<open>Aggregator\<close> (\<^verbatim>\<open>dp-aggregator\<close>, \<^verbatim>\<open>folding.rs\<close>): the session of a pair, whose accumulator is the settlement chain
    over every row folded since its first round.
  \<^item> \<open>Settlement\<close> (\<^verbatim>\<open>dp-settlement\<close>): conversions into the contract's amounts, both arms of the submitter over an
    RPC node (\<open>node_ok\<close>), the balance oracles and the watcher.
  \<^item> \<open>Evm\<close>, \<open>PoseidonSol\<close>, \<open>DarkPool\<close>, \<open>DarkPoolInv\<close>, \<open>DarkPoolProps\<close> (\<^verbatim>\<open>contracts/src\<close>): checked 256-bit arithmetic, the
    on-chain hash, every function of the contract, its invariants over all runs, and the properties:
    solvency, conservation, settling once, the escrow's cool-down, the binding to the proof and what the
    binding leaves open.
  \<^item> \<open>SettlementProps\<close>: engine, prover, submitter and contract together. They agree on what a settled leg is;
    three properties say where they do not fit, when a session has several rounds, when its second
    transaction fails, and when a round is cut into several batches.

  \<^bold>\<open>Bounds and fuel.\<close> Recovery reads the log page by page with fuel; as many steps as events are enough,
  and the recovery theorems are stated with that fuel. The other loops are structural or have a
  termination proof. A book holds at most 16384 orders, which keeps every sum of the auction within the
  decimal's 96-bit mantissa; an encodable value is below \<open>2 ^ 60\<close> in units of \<open>10 ^ - 8\<close>. A folding step has 8
  rows, the admitted set 256 leaves.

  \<^bold>\<open>Not modelled.\<close> The gRPC and REST front end (\<^verbatim>\<open>dp-api\<close>), the command line tools, the browser bindings and the
  web interface: request routing and presentation over third-party servers. The PostgreSQL stores and
  the directory of snapshot files: SQL and file-system calls behind the store interface. ECIES
  decryption, key sources and transaction signing: cryptography of third-party crates, seen by the engine
  as parameters. The Groth16
  circuit of an order commitment and the verifier contracts: pairing-based proofs. The subprocess
  aggregator: a child process the tick no longer uses. Metrics and tracing have no effect on the state.
\<close>

end
